(* ===== verification/Prelude.thy ===== *)
theory Prelude
  imports Main "HOL-Library.AList" "HOL-Library.Multiset"
begin

text \<open>
  What every component shares: the results and failures of a handler, the
  standard library's \<open>HashMap\<close>, the outcome of one handler call, the run of an
  actor over the inputs it is given, and the two interfaces the components
  have in common.

  \<^item> A Rust \<open>Result<T, ActorProcessingErr>\<close> is \<open>fault + 'a\<close>: \<open>Inl\<close> carries the
    error, and a panic is a fault of its own kind.
  \<^item> A \<open>HashMap<K, V>\<close> is an association list with distinct keys. Its iteration
    order is not specified by the language, so every handler that iterates a map
    takes the order as an argument, a function that permutes the entries.
  \<^item> A handler takes the state and returns an outcome: the state it leaves behind
    (a \<open>&mut\<close> state keeps its changes when the handler returns an error), the
    calls it made on other actors, timers, ports and callbacks in the order it made
    them, and what it returned.
  \<^item> The locale \<open>actor_invariant\<close> is the contract between an actor's handlers and
    a run of the actor, and \<open>step_invariant\<close> that of a system of several actors; \<open>registry\<close> is the contract of the keyed tables of
    subscribers, targets and subjects that four of the actors keep.
\<close>

section \<open>Results and failures\<close>

datatype fault = Error string | Panic string

type_synonym 'a result = "fault + 'a"

abbreviation Ok_unit :: "unit result" where
  "Ok_unit \<equiv> Inr ()"

definition is_err :: "'e + 'a \<Rightarrow> bool" where
  "is_err r = (case r of Inl _ \<Rightarrow> True | Inr _ \<Rightarrow> False)"

lemma is_err_simps [simp]: "is_err (Inl e)" "\<not> is_err (Inr a)"
  by (simp_all add: is_err_def)

lemma not_is_err_unit: "\<not> is_err (r :: 'e + unit) \<longleftrightarrow> r = Inr ()"
  by (cases r) simp_all

text \<open>The decimal digits of a number, as the formatting macros print it.\<close>

definition digit :: "nat \<Rightarrow> char" where
  "digit d = ''0123456789'' ! (d mod 10)"

fun decimal :: "nat \<Rightarrow> string" where
  "decimal n = (if n < 10 then [digit n] else decimal (n div 10) @ [digit (n mod 10)])"

declare decimal.simps [simp del]

section \<open>Actor cells and supervision events\<close>

text \<open>
  What the code uses of an actor reference: its id, and its name for the logs. The
  supervision events the handlers tell apart; the state an actor leaves behind when
  it terminates is not used.
\<close>

record 'id actor_cell =
  get_id :: 'id
  get_name :: "string option"

datatype 'id supervision_event =
    ActorStarted "'id actor_cell"
  | ActorTerminated "'id actor_cell" "string option"
  | ActorFailed "'id actor_cell" string
  | OtherSupervisionEvent

fun fault_text :: "fault \<Rightarrow> string" where
  "fault_text (Error what) = what"
| "fault_text (Panic what) = what"

text \<open>How an actor that ended is reported to its supervisor.\<close>

definition exit_event :: "'id actor_cell \<Rightarrow> string option \<Rightarrow> unit result \<Rightarrow> 'id supervision_event" where
  "exit_event cell reason r =
    (case r of Inl e \<Rightarrow> ActorFailed cell (fault_text e) | Inr _ \<Rightarrow> ActorTerminated cell reason)"

section \<open>The standard library's hash map\<close>

named_theorems hm_simps

type_synonym ('k, 'v) hashmap = "('k \<times> 'v) list"
type_synonym ('k, 'v) iter_order = "('k \<times> 'v) list \<Rightarrow> ('k \<times> 'v) list"

definition hm_insert :: "'k \<Rightarrow> 'v \<Rightarrow> ('k, 'v) hashmap \<Rightarrow> ('k, 'v) hashmap" where
  "hm_insert k v m = AList.update k v m"

definition hm_remove :: "'k \<Rightarrow> ('k, 'v) hashmap \<Rightarrow> ('k, 'v) hashmap" where
  "hm_remove k m = AList.delete k m"

definition hm_from_iter :: "('k \<times> 'v) list \<Rightarrow> ('k, 'v) hashmap" where
  "hm_from_iter kvs = foldl (\<lambda>m kv. hm_insert (fst kv) (snd kv) m) [] kvs"

definition hm_ok :: "('k, 'v) hashmap \<Rightarrow> bool" where
  "hm_ok m = distinct (map fst m)"

text \<open>An iteration visits every entry of the map once, in some order.\<close>

definition visits :: "('k, 'v) iter_order \<Rightarrow> ('k, 'v) hashmap \<Rightarrow> bool" where
  "visits ord m \<longleftrightarrow> mset (ord m) = mset m"

lemma hm_get_insert [hm_simps]: "map_of (hm_insert k v m) = (map_of m)(k \<mapsto> v)"
  by (simp add: hm_insert_def update_conv')

lemma hm_get_remove [hm_simps]: "map_of (hm_remove k m) = (map_of m)(k := None)"
  by (simp add: hm_remove_def delete_conv')

lemma hm_ok_Nil [simp]: "hm_ok []"
  by (simp add: hm_ok_def)

lemma hm_ok_insert [simp, intro]: "hm_ok m \<Longrightarrow> hm_ok (hm_insert k v m)"
  by (simp add: hm_ok_def hm_insert_def distinct_update)

lemma hm_ok_remove [simp, intro]: "hm_ok m \<Longrightarrow> hm_ok (hm_remove k m)"
  by (simp add: hm_ok_def hm_remove_def distinct_delete)

lemma set_keys_insert [hm_simps]: "fst ` set (hm_insert k v m) = insert k (fst ` set m)"
  by (simp add: hm_insert_def dom_update)

lemma set_keys_remove [hm_simps]: "fst ` set (hm_remove k m) = fst ` set m - {k}"
  by (auto simp: hm_remove_def AList.delete_eq image_iff)

lemma in_hm_removeD: "e \<in> set (hm_remove k m) \<Longrightarrow> e \<in> set m \<and> fst e \<noteq> k"
  by (auto simp: hm_remove_def AList.delete_eq)

lemma in_hm_insertD: "e \<in> set (hm_insert k v m) \<Longrightarrow> e = (k, v) \<or> e \<in> set m"
  unfolding hm_insert_def by (induction m) (auto split: if_splits)

lemma hm_remove_absent [hm_simps]: "map_of m k = None \<Longrightarrow> hm_remove k m = m"
  by (simp add: hm_remove_def delete_id map_of_eq_None_iff)

lemma hm_insert_new: "map_of m k = None \<Longrightarrow> hm_insert k v m = m @ [(k, v)]"
  unfolding hm_insert_def by (induction m) (auto split: if_splits)

lemma hm_ok_mem: "hm_ok m \<Longrightarrow> (k, v) \<in> set m \<longleftrightarrow> map_of m k = Some v"
  by (simp add: hm_ok_def)

lemma hm_ok_from_iter_aux: "hm_ok m \<Longrightarrow>
  hm_ok (foldl (\<lambda>m kv. hm_insert (fst kv) (snd kv) m) m kvs)"
  by (induction kvs arbitrary: m) simp_all

lemma hm_ok_from_iter [simp, intro]: "hm_ok (hm_from_iter kvs)"
  by (simp add: hm_from_iter_def hm_ok_from_iter_aux)

lemma hm_get_from_iter_aux:
  "map_of (foldl (\<lambda>m kv. hm_insert (fst kv) (snd kv) m) m kvs) = map_of m ++ map_of (rev kvs)"
  by (induction kvs arbitrary: m) (auto simp: hm_simps fun_eq_iff map_add_def split: option.splits)

text \<open>Collecting pairs into a map keeps the last value of a repeated key.\<close>

lemma hm_get_from_iter [hm_simps]: "map_of (hm_from_iter kvs) = map_of (rev kvs)"
  by (simp add: hm_from_iter_def hm_get_from_iter_aux)

lemma set_keys_from_iter [hm_simps]: "fst ` set (hm_from_iter kvs) = fst ` set kvs"
  by (metis dom_map_of_conv_image_fst hm_get_from_iter set_rev)

lemma visits_set: "visits ord m \<Longrightarrow> set (ord m) = set m"
  by (metis visits_def set_mset_mset)

lemma visits_keys: "visits ord m \<Longrightarrow> mset (map fst (ord m)) = mset (map fst m)"
  by (simp add: visits_def)

lemma visits_distinct: "visits ord m \<Longrightarrow> hm_ok m \<Longrightarrow> distinct (map fst (ord m))"
  unfolding hm_ok_def by (metis visits_keys mset_eq_imp_distinct_iff)

lemma visits_map_of: "visits ord m \<Longrightarrow> hm_ok m \<Longrightarrow> map_of (ord m) = map_of m"
  by (metis hm_ok_def map_of_inject_set visits_distinct visits_set)

lemma map_of_rev_distinct: "distinct (map fst xs) \<Longrightarrow> map_of (rev xs) = map_of xs"
  by (subst map_of_inject_set) (simp_all flip: rev_map)

lemma find_SomeD: "List.find P xs = Some x \<Longrightarrow> x \<in> set xs \<and> P x"
  by (auto simp: find_Some_iff in_set_conv_nth)

lemma visits_id [simp]: "visits (\<lambda>es. es) m"
  by (simp add: visits_def)

lemma visits_rev [simp]: "visits rev m"
  by (simp add: visits_def)

section \<open>One handler call and the run of an actor\<close>

datatype ('s, 'e) outcome =
  Outcome (state_of: 's) (effects: "'e list") (returned: "unit result")

text \<open>
  An actor takes its inputs one at a time. It stops taking them when a handler
  returns an error (the actor has failed) or when a handler asked it to stop; what
  the handler still does after that request is part of the same call.
\<close>

definition halts :: "('e \<Rightarrow> bool) \<Rightarrow> ('s, 'e) outcome \<Rightarrow> bool" where
  "halts stop out \<longleftrightarrow> is_err (returned out) \<or> list_ex stop (effects out)"

definition followed_by :: "('s, 'e) outcome \<Rightarrow> ('s, 'e) outcome \<Rightarrow> ('s, 'e) outcome" where
  "followed_by out rest = Outcome (state_of rest) (effects out @ effects rest) (returned rest)"

fun run_actor :: "('i \<Rightarrow> 's \<Rightarrow> ('s, 'e) outcome) \<Rightarrow> ('e \<Rightarrow> bool) \<Rightarrow> 's \<Rightarrow> 'i list
    \<Rightarrow> ('s, 'e) outcome" where
  "run_actor h stop s [] = Outcome s [] Ok_unit"
| "run_actor h stop s (i # is) =
    (if halts stop (h i s) then h i s
     else followed_by (h i s) (run_actor h stop (state_of (h i s)) is))"

lemma followed_by_sel [simp]:
  "state_of (followed_by out rest) = state_of rest"
  "effects (followed_by out rest) = effects out @ effects rest"
  "returned (followed_by out rest) = returned rest"
  by (simp_all add: followed_by_def)

lemma followed_by_Nil [simp]: "followed_by (Outcome s [] r) out = out"
  by (simp add: followed_by_def)

lemma followed_by_assoc [simp]:
  "followed_by (followed_by a b) c = followed_by a (followed_by b c)"
  by (simp add: followed_by_def)

text \<open>A run over a concatenation, when the first part ends without halting.\<close>

lemma run_actor_append:
  "\<not> halts stop (run_actor h stop s xs) \<Longrightarrow>
     run_actor h stop s (xs @ ys) =
     followed_by (run_actor h stop s xs) (run_actor h stop (state_of (run_actor h stop s xs)) ys)"
  by (induction xs arbitrary: s) (auto simp: halts_def)

text \<open>
  The contract: a well-formedness predicate that the start-up establishes and that
  every handler keeps, on every branch, its error returns included.
\<close>

locale actor_invariant =
  fixes handle :: "'i \<Rightarrow> 's \<Rightarrow> ('s, 'e) outcome"
    and good :: "'i \<Rightarrow> bool"
    and inv :: "'s \<Rightarrow> bool"
  assumes step_inv: "inv s \<Longrightarrow> good i \<Longrightarrow> inv (state_of (handle i s))"
begin

lemma run_inv:
  "inv s \<Longrightarrow> list_all good is \<Longrightarrow> inv (state_of (run_actor handle stop s is))"
proof (induction "is" arbitrary: s)
  case Nil
  then show ?case by simp
next
  case (Cons i "is")
  have "inv (state_of (handle i s))" using Cons.prems by (simp add: step_inv)
  then show ?case
    using Cons.IH [of "state_of (handle i s)"] Cons.prems by simp
qed

end

text \<open>The same contract for what an actor does to others: every effect is allowed.\<close>

locale actor_safety = actor_invariant handle good inv
  for handle :: "'i \<Rightarrow> 's \<Rightarrow> ('s, 'e) outcome" and good inv +
  fixes safe :: "'e \<Rightarrow> bool"
  assumes step_safe:
    "inv s \<Longrightarrow> good i \<Longrightarrow> e \<in> set (effects (handle i s)) \<Longrightarrow> safe e"
begin

lemma run_safe:
  "inv s \<Longrightarrow> list_all good is \<Longrightarrow> e \<in> set (effects (run_actor handle stop s is)) \<Longrightarrow> safe e"
proof (induction "is" arbitrary: s)
  case Nil
  then show ?case by simp
next
  case (Cons i "is")
  have next_inv: "inv (state_of (handle i s))" using Cons.prems by (simp add: step_inv)
  have now: "\<And>e. e \<in> set (effects (handle i s)) \<Longrightarrow> safe e"
    using Cons.prems by (auto intro: step_safe)
  show ?case
    using Cons.IH [OF next_inv] now Cons.prems by (auto split: if_splits)
qed

end

section \<open>Systems of several actors\<close>

text \<open>
  Actors that run side by side are a step relation on the state of all of them. What every
  step keeps holds wherever the steps lead: a system shows the first and uses the second.
\<close>

inductive reaches :: "('s \<Rightarrow> 's \<Rightarrow> bool) \<Rightarrow> 's \<Rightarrow> 's \<Rightarrow> bool" for step s0 where
  start: "reaches step s0 s0"
| next_step: "reaches step s0 s \<Longrightarrow> step s s' \<Longrightarrow> reaches step s0 s'"

lemma reaches_trans: "reaches step s t \<Longrightarrow> reaches step r s \<Longrightarrow> reaches step r t"
  by (induction rule: reaches.induct) (auto intro: reaches.next_step)

lemma reaches_one: "step s s' \<Longrightarrow> reaches step s s'"
  by (rule reaches.next_step [OF reaches.start])

lemma reaches_mono: "reaches step s t \<Longrightarrow> (\<And>s s'. step s s' \<Longrightarrow> step' s s') \<Longrightarrow> reaches step' s t"
  by (induction rule: reaches.induct) (auto intro: reaches.intros)

lemma reaches_relpowp: "(step ^^ n) s s' \<Longrightarrow> reaches step s s'"
proof (induction n arbitrary: s')
  case 0
  then show ?case by (simp add: reaches.start)
next
  case (Suc n)
  then show ?case by (auto intro: reaches.next_step)
qed

locale step_invariant =
  fixes step :: "'s \<Rightarrow> 's \<Rightarrow> bool"
    and inv :: "'s \<Rightarrow> bool"
  assumes inv_step: "step s s' \<Longrightarrow> inv s \<Longrightarrow> inv s'"
begin

lemma inv_reaches: "reaches step s0 s \<Longrightarrow> inv s0 \<Longrightarrow> inv s"
  by (induction rule: reaches.induct) (auto intro: inv_step)

end

section \<open>Keyed registries\<close>

text \<open>
  Subscriptions, broadcast targets and watched subjects are all kept in a map by
  actor id. The clients of such a table rely on the laws below only.
\<close>

locale registry =
  fixes entry :: "'s \<Rightarrow> 'k \<Rightarrow> 'v option"
    and put :: "'k \<Rightarrow> 'v \<Rightarrow> 's \<Rightarrow> 's"
    and del :: "'k \<Rightarrow> 's \<Rightarrow> 's"
    and keys :: "'s \<Rightarrow> 'k list"
    and wf :: "'s \<Rightarrow> bool"
  assumes entry_put: "wf s \<Longrightarrow> entry (put k v s) = (entry s)(k \<mapsto> v)"
    and entry_del: "wf s \<Longrightarrow> entry (del k s) = (entry s)(k := None)"
    and keys_dom: "wf s \<Longrightarrow> set (keys s) = dom (entry s)"
    and keys_distinct: "wf s \<Longrightarrow> distinct (keys s)"
    and wf_put: "wf s \<Longrightarrow> wf (put k v s)"
    and wf_del: "wf s \<Longrightarrow> wf (del k s)"
begin

text \<open>One change of the table: \<open>Inl (k, v)\<close> registers, \<open>Inr k\<close> removes.\<close>

definition change :: "('k \<times> 'v) + 'k \<Rightarrow> 's \<Rightarrow> 's" where
  "change c s = (case c of Inl (k, v) \<Rightarrow> put k v s | Inr k \<Rightarrow> del k s)"

definition change_map :: "('k \<times> 'v) + 'k \<Rightarrow> ('k \<Rightarrow> 'v option) \<Rightarrow> ('k \<Rightarrow> 'v option)" where
  "change_map c m = (case c of Inl (k, v) \<Rightarrow> m(k \<mapsto> v) | Inr k \<Rightarrow> m(k := None))"

lemma wf_change: "wf s \<Longrightarrow> wf (change c s)"
  by (auto simp: change_def wf_put wf_del split: sum.splits)

lemma entry_change: "wf s \<Longrightarrow> entry (change c s) = change_map c (entry s)"
  by (auto simp: change_def change_map_def entry_put entry_del split: sum.splits)

lemma wf_changes: "wf s \<Longrightarrow> wf (fold change cs s)"
  by (induction cs arbitrary: s) (simp_all add: wf_change)

text \<open>Any sequence of changes acts on the table as on a finite map.\<close>

lemma entry_changes: "wf s \<Longrightarrow> entry (fold change cs s) = fold change_map cs (entry s)"
  by (induction cs arbitrary: s) (simp_all add: wf_change entry_change)

lemma keys_put: "wf s \<Longrightarrow> set (keys (put k v s)) = insert k (set (keys s))"
  by (auto simp: keys_dom wf_put entry_put)

lemma keys_del: "wf s \<Longrightarrow> set (keys (del k s)) = set (keys s) - {k}"
  by (auto simp: keys_dom wf_del entry_del split: if_splits)

lemma put_replaces: "wf s \<Longrightarrow> entry (put k v' (put k v s)) = entry (put k v' s)"
  by (simp add: entry_put wf_put)

lemma del_put: "wf s \<Longrightarrow> entry s k = None \<Longrightarrow> entry (del k (put k v s)) = entry s"
  by (auto simp: entry_put entry_del wf_put)

lemma count_keys: "wf s \<Longrightarrow> length (keys s) = card (dom (entry s))"
  by (metis keys_dom keys_distinct distinct_card)

end

end
