(* ===== verification/Broadcast.thy ===== *)
theory Broadcast
  imports Prelude "HOL-Library.Sublist"
begin

text \<open>
  The broadcaster of \<open>src/ractor_actors/src/sync/broadcast/mod.rs\<close>: an actor that
  forwards a clone of each message to a table of downstream targets.

  A target is a trait object; its two methods are arguments of the model: \<open>tid\<close> for
  \<open>BroadcastTarget::id\<close> (which the trait asks to be the id of the actor behind it)
  and the \<open>bc_send\<close> of the environment for \<open>BroadcastTarget::send\<close>, which may answer
  differently at every call. The environment of a call also holds the order in which
  the hash map is iterated.
\<close>

section \<open>State, messages and environment\<close>

record 't broadcaster_config =
  initial_targets :: "'t list"
  cfg_continue_with_dead_targets :: bool

record ('id, 't) broadcaster_state =
  targets :: "('id, 't) hashmap"
  continue_with_dead_targets :: bool

datatype ('id, 't, 'm) broadcaster_message =
    Broadcast 'm
  | AddTarget 't
  | RemoveTarget 'id
  | ListTargets

record ('id, 't, 'm) broadcast_env =
  bc_order :: "('id, 't) iter_order"
  bc_send :: "'t \<Rightarrow> 'm \<Rightarrow> unit result"

text \<open>
  What a call does to others: a send attempted on a target, with what it returned,
  and the reply to \<open>ListTargets\<close>. Log lines are not modelled.
\<close>

datatype ('id, 'm) broadcast_effect =
    Sent 'id 'm "unit result"
  | ReplyTargets "'id list"

section \<open>The unit-mapped target\<close>

text \<open>
  \<open>IdTarget\<close> wraps an actor reference. \<open>cast\<close> and the conversion of its error into an
  \<open>ActorProcessingErr\<close> (the \<open>?\<close> operator) belong to the actor runtime.
\<close>

record 'ar id_target =
  ar :: 'ar

definition get_unit_mapped_target :: "'ar \<Rightarrow> 'ar id_target" where
  "get_unit_mapped_target who = \<lparr>ar = who\<rparr>"

definition id_target_id :: "('ar \<Rightarrow> 'id) \<Rightarrow> 'ar id_target \<Rightarrow> 'id" where
  "id_target_id id_of t = id_of (ar t)"

definition id_target_send ::
    "('ar \<Rightarrow> 'm \<Rightarrow> 'err + unit) \<Rightarrow> ('err \<Rightarrow> fault) \<Rightarrow> 'ar id_target \<Rightarrow> 'm \<Rightarrow> unit result" where
  "id_target_send cast into t m = (case cast (ar t) m of Inl e \<Rightarrow> Inl (into e) | Inr _ \<Rightarrow> Ok_unit)"

section \<open>The handlers\<close>

definition broadcaster_pre_start :: "('t \<Rightarrow> 'id) \<Rightarrow> 't broadcaster_config
    \<Rightarrow> ('id, 't) broadcaster_state" where
  "broadcaster_pre_start tid cfg =
    \<lparr>targets = hm_from_iter (map (\<lambda>target. (tid target, target)) (initial_targets cfg)),
     continue_with_dead_targets = cfg_continue_with_dead_targets cfg\<rparr>"

text \<open>The loop of \<open>broadcast\<close>: an error ends it unless dead targets are tolerated.\<close>

fun broadcast_loop :: "('t \<Rightarrow> 'm \<Rightarrow> unit result) \<Rightarrow> bool \<Rightarrow> 'm \<Rightarrow> ('id \<times> 't) list
    \<Rightarrow> ('id, 'm) broadcast_effect list \<times> unit result" where
  "broadcast_loop send cont m [] = ([], Ok_unit)"
| "broadcast_loop send cont m ((who, target) # rest) =
    (case send target m of
       Inl err \<Rightarrow>
         if \<not> cont then ([Sent who m (Inl err)], Inl err)
         else (let (es, r) = broadcast_loop send cont m rest in (Sent who m (Inl err) # es, r))
     | Inr u \<Rightarrow>
         (let (es, r) = broadcast_loop send cont m rest in (Sent who m (Inr u) # es, r)))"

definition broadcast :: "('id, 't, 'm) broadcast_env \<Rightarrow> 'm \<Rightarrow> ('id, 't) broadcaster_state
    \<Rightarrow> (('id, 't) broadcaster_state, ('id, 'm) broadcast_effect) outcome" where
  "broadcast env m s =
    (let (es, r) = broadcast_loop (bc_send env) (continue_with_dead_targets s) m
                     (bc_order env (targets s))
     in Outcome s es r)"

definition add_target :: "('t \<Rightarrow> 'id) \<Rightarrow> 't \<Rightarrow> ('id, 't) broadcaster_state
    \<Rightarrow> ('id, 't) broadcaster_state" where
  "add_target tid target s = s\<lparr>targets := hm_insert (tid target) target (targets s)\<rparr>"

definition remove_target :: "'id \<Rightarrow> ('id, 't) broadcaster_state
    \<Rightarrow> ('id, 't) broadcaster_state" where
  "remove_target target s = s\<lparr>targets := hm_remove target (targets s)\<rparr>"

definition list_targets :: "('id, 't) iter_order \<Rightarrow> ('id, 't) broadcaster_state \<Rightarrow> 'id list" where
  "list_targets ord s = map fst (ord (targets s))"

fun handle_broadcaster :: "('t \<Rightarrow> 'id) \<Rightarrow> ('id, 't, 'm) broadcast_env \<times> ('id, 't, 'm) broadcaster_message
    \<Rightarrow> ('id, 't) broadcaster_state
    \<Rightarrow> (('id, 't) broadcaster_state, ('id, 'm) broadcast_effect) outcome" where
  "handle_broadcaster tid (env, Broadcast m) s = broadcast env m s"
| "handle_broadcaster tid (env, AddTarget target) s = Outcome (add_target tid target s) [] Ok_unit"
| "handle_broadcaster tid (env, RemoveTarget target) s = Outcome (remove_target target s) [] Ok_unit"
| "handle_broadcaster tid (env, ListTargets) s =
    Outcome s [ReplyTargets (list_targets (bc_order env) s)] Ok_unit"

text \<open>The broadcaster never asks to be stopped: only an error ends its run.\<close>

definition run_broadcaster :: "('t \<Rightarrow> 'id)
    \<Rightarrow> ('id, 't) broadcaster_state
    \<Rightarrow> (('id, 't, 'm) broadcast_env \<times> ('id, 't, 'm) broadcaster_message) list
    \<Rightarrow> (('id, 't) broadcaster_state, ('id, 'm) broadcast_effect) outcome" where
  "run_broadcaster tid = run_actor (handle_broadcaster tid) (\<lambda>_. False)"

lemmas broadcaster_defs = broadcast_def add_target_def remove_target_def list_targets_def
  broadcaster_pre_start_def

section \<open>The broadcast loop\<close>

definition attempt :: "('t \<Rightarrow> 'm \<Rightarrow> unit result) \<Rightarrow> 'm \<Rightarrow> 'id \<times> 't \<Rightarrow> ('id, 'm) broadcast_effect" where
  "attempt send m e = Sent (fst e) m (send (snd e) m)"

lemma broadcast_loop_continue:
  "broadcast_loop send True m es = (map (attempt send m) es, Ok_unit)"
  by (induction es) (auto simp: attempt_def split: sum.splits)

lemma broadcast_loop_halt:
  "broadcast_loop send False m es =
    (case dropWhile (\<lambda>e. \<not> is_err (send (snd e) m)) es of
       [] \<Rightarrow> (map (attempt send m) es, Ok_unit)
     | f # _ \<Rightarrow> (map (attempt send m) (takeWhile (\<lambda>e. \<not> is_err (send (snd e) m)) es)
                  @ [attempt send m f], send (snd f) m))"
proof (induction es)
  case Nil
  then show ?case by simp
next
  case (Cons e es)
  then show ?case
    by (cases e; cases "send (snd e) m"; cases "dropWhile (\<lambda>e. \<not> is_err (send (snd e) m)) es")
      (simp_all add: attempt_def del: dropWhile_eq_Nil_conv)
qed

lemma broadcast_loop_error:
  "snd (broadcast_loop send cont m es) = Inl e \<Longrightarrow> \<not> cont"
  by (cases cont) (simp_all add: broadcast_loop_continue)

lemma broadcast_frame [simp]: "state_of (broadcast env m s) = s"
  by (simp add: broadcast_def split: prod.splits)

section \<open>The table of targets\<close>

text \<open>
  Well-formed: one entry per id, and an entry's key is the id of its target.
\<close>

definition broadcaster_wf :: "('t \<Rightarrow> 'id) \<Rightarrow> ('id, 't) broadcaster_state \<Rightarrow> bool" where
  "broadcaster_wf tid s \<longleftrightarrow>
     hm_ok (targets s) \<and> (\<forall>(who, target) \<in> set (targets s). tid target = who)"

lemma in_foldl_insert:
  "e \<in> set (foldl (\<lambda>m kv. hm_insert (fst kv) (snd kv) m) m kvs) \<Longrightarrow> e \<in> set m \<or> e \<in> set kvs"
  by (induction kvs arbitrary: m) (fastforce dest: in_hm_insertD)+

lemma broadcaster_wf_pre_start: "broadcaster_wf tid (broadcaster_pre_start tid cfg)"
  by (auto simp: broadcaster_wf_def broadcaster_pre_start_def hm_from_iter_def
      hm_ok_from_iter_aux dest!: in_foldl_insert)

lemma broadcaster_wf_step:
  assumes "broadcaster_wf tid s"
  shows "broadcaster_wf tid (state_of (handle_broadcaster tid i s))"
proof (cases i)
  case (Pair env msg)
  show ?thesis
    using assms unfolding Pair broadcaster_wf_def
    by (cases msg) (auto simp: add_target_def remove_target_def
        dest: in_hm_insertD in_hm_removeD)
qed

interpretation bcast: actor_invariant "handle_broadcaster tid" "\<lambda>_. True" "broadcaster_wf tid"
  for tid
  by unfold_locales (rule broadcaster_wf_step)

lemma run_broadcaster_wf:
  "broadcaster_wf tid s \<Longrightarrow> broadcaster_wf tid (state_of (run_broadcaster tid s is))"
  unfolding run_broadcaster_def by (rule bcast.run_inv) (simp_all add: list_all_iff)

interpretation bcast_table: registry
  "\<lambda>s. map_of (targets s)"
  "\<lambda>k. add_target (\<lambda>_. k)"
  remove_target
  "\<lambda>s. map fst (targets s)"
  "\<lambda>s. hm_ok (targets s)"
  by unfold_locales
    (auto simp: add_target_def remove_target_def hm_simps hm_ok_def dom_map_of_conv_image_fst
      intro: hm_ok_insert [unfolded hm_ok_def] hm_ok_remove [unfolded hm_ok_def])

text \<open>The ids a history of additions and removals leaves, as a set.\<close>

fun target_ids :: "('t \<Rightarrow> 'id) \<Rightarrow> ('id, 't, 'm) broadcaster_message \<Rightarrow> 'id set \<Rightarrow> 'id set" where
  "target_ids tid (AddTarget target) ids = insert (tid target) ids"
| "target_ids tid (RemoveTarget who) ids = ids - {who}"
| "target_ids tid _ ids = ids"

lemma keys_step:
  "hm_ok (targets s) \<Longrightarrow>
     set (map fst (targets (state_of (handle_broadcaster tid (env, msg) s)))) =
     target_ids tid msg (set (map fst (targets s)))"
  by (cases msg) (simp_all add: add_target_def remove_target_def hm_simps)

lemma flag_step [simp]:
  "continue_with_dead_targets (state_of (handle_broadcaster tid i s)) = continue_with_dead_targets s"
  by (cases "(tid, i, s)" rule: handle_broadcaster.cases)
    (simp_all add: add_target_def remove_target_def)

lemma tolerant_step_ok:
  "continue_with_dead_targets s \<Longrightarrow> returned (handle_broadcaster tid i s) = Ok_unit"
  by (cases "(tid, i, s)" rule: handle_broadcaster.cases)
    (simp_all add: broadcast_def broadcast_loop_continue)

lemma tolerant_run:
  assumes "continue_with_dead_targets s" "broadcaster_wf tid s"
  shows "returned (run_broadcaster tid s is) = Ok_unit
    \<and> set (map fst (targets (state_of (run_broadcaster tid s is))))
      = fold (target_ids tid) (map snd is) (set (map fst (targets s)))"
  using assms
proof (induction "is" arbitrary: s)
  case Nil
  then show ?case by (simp add: run_broadcaster_def)
next
  case (Cons i "is")
  let ?s = "state_of (handle_broadcaster tid i s)"
  have "set (map fst (targets ?s)) = target_ids tid (snd i) (set (map fst (targets s)))"
    using Cons.prems keys_step [of s tid "fst i" "snd i"] by (simp add: broadcaster_wf_def)
  moreover have "broadcaster_wf tid ?s" using Cons.prems by (intro broadcaster_wf_step)
  moreover have "returned (handle_broadcaster tid i s) = Ok_unit"
    using Cons.prems by (intro tolerant_step_ok)
  ultimately show ?case
    using Cons.IH [of ?s] Cons.prems
    by (simp add: run_broadcaster_def halts_def list_ex_iff)
qed

section \<open>What one target is sent\<close>

text \<open>
  A history read for the target under id \<open>k\<close>, \<open>cur\<close> being the target registered there now:
  the broadcasts it should be handed, each with what its own \<open>send\<close> answers.
\<close>

fun expected_sends :: "('t \<Rightarrow> 'id) \<Rightarrow> 'id \<Rightarrow> 't option
    \<Rightarrow> (('id, 't, 'm) broadcast_env \<times> ('id, 't, 'm) broadcaster_message) list
    \<Rightarrow> ('id, 'm) broadcast_effect list" where
  "expected_sends tid k cur [] = []"
| "expected_sends tid k cur ((env, Broadcast m) # is) =
    (case cur of
       None \<Rightarrow> expected_sends tid k None is
     | Some target \<Rightarrow> attempt (bc_send env) m (k, target) # expected_sends tid k cur is)"
| "expected_sends tid k cur ((env, AddTarget target) # is) =
    expected_sends tid k (if tid target = k then Some target else cur) is"
| "expected_sends tid k cur ((env, RemoveTarget who) # is) =
    expected_sends tid k (if who = k then None else cur) is"
| "expected_sends tid k cur ((env, ListTargets) # is) = expected_sends tid k cur is"

definition sends_to :: "'id \<Rightarrow> ('id, 'm) broadcast_effect list \<Rightarrow> ('id, 'm) broadcast_effect list" where
  "sends_to k = filter (\<lambda>e. case e of Sent who m r \<Rightarrow> who = k | ReplyTargets ids \<Rightarrow> False)"

definition bc_orders_ok ::
    "(('id, 't, 'm) broadcast_env \<times> ('id, 't, 'm) broadcaster_message) list \<Rightarrow> bool" where
  "bc_orders_ok is \<longleftrightarrow> (\<forall>i \<in> set is. \<forall>t. visits (bc_order (fst i)) t)"

lemma sends_to_simps [simp]:
  "sends_to k [] = []"
  "sends_to k (es @ fs) = sends_to k es @ sends_to k fs"
  "sends_to k (attempt send m e # es) = (if fst e = k then [attempt send m e] else []) @ sends_to k es"
  "sends_to k (ReplyTargets ids # es) = sends_to k es"
  by (simp_all add: sends_to_def attempt_def)

lemma sends_to_attempts:
  "distinct (map fst es) \<Longrightarrow>
     sends_to k (map (attempt send m) es)
     = (case map_of es k of None \<Rightarrow> [] | Some target \<Rightarrow> [attempt send m (k, target)])"
  by (induction es) (force simp: map_of_eq_None_iff split: option.splits)+

lemma broadcast_loop_prefix:
  "\<exists>missed. map (attempt send m) es = fst (broadcast_loop send cont m es) @ missed
     \<and> (snd (broadcast_loop send cont m es) = Ok_unit \<longrightarrow> missed = [])"
proof (induction es)
  case Nil
  then show ?case by simp
next
  case (Cons e es)
  then show ?case
    by (cases e; cases "send (snd e) m"; cases cont)
      (auto simp: attempt_def broadcast_loop_continue split: prod.splits)
qed

lemma broadcast_sends_to:
  assumes "broadcaster_wf tid s" and "visits (bc_order env) (targets s)"
  shows "\<exists>missed. sends_to k (effects (broadcast env m s)) @ missed
      = (case map_of (targets s) k of None \<Rightarrow> []
         | Some target \<Rightarrow> [attempt (bc_send env) m (k, target)])
    \<and> (returned (broadcast env m s) = Ok_unit \<longrightarrow> missed = [])"
proof -
  let ?es = "bc_order env (targets s)"
  let ?out = "broadcast_loop (bc_send env) (continue_with_dead_targets s) m ?es"
  obtain missed where missed: "map (attempt (bc_send env) m) ?es = fst ?out @ missed"
      "snd ?out = Ok_unit \<longrightarrow> missed = []"
    using broadcast_loop_prefix by metis
  have es: "distinct (map fst ?es)" "map_of ?es = map_of (targets s)"
    using assms by (auto simp: broadcaster_wf_def visits_distinct visits_map_of)
  have "sends_to k (fst ?out) @ sends_to k missed
      = (case map_of (targets s) k of None \<Rightarrow> []
         | Some target \<Rightarrow> [attempt (bc_send env) m (k, target)])"
    using sends_to_attempts [OF es(1), of k "bc_send env" m] by (simp add: missed(1) es(2))
  then show ?thesis
    using missed(2) by (intro exI [of _ "sends_to k missed"])
      (simp add: broadcast_def case_prod_unfold Let_def)
qed

lemma run_sends_to:
  "broadcaster_wf tid s \<Longrightarrow> bc_orders_ok is \<Longrightarrow>
     \<exists>missed. sends_to k (effects (run_broadcaster tid s is)) @ missed
       = expected_sends tid k (map_of (targets s) k) is
     \<and> (returned (run_broadcaster tid s is) = Ok_unit \<longrightarrow> missed = [])"
proof (induction "is" arbitrary: s)
  case Nil
  then show ?case by (simp add: run_broadcaster_def)
next
  case (Cons i "is")
  obtain env msg where i: "i = (env, msg)" by (cases i)
  have wf: "broadcaster_wf tid (state_of (handle_broadcaster tid i s))"
    using Cons.prems by (intro broadcaster_wf_step)
  have ok: "bc_orders_ok is" and vis: "visits (bc_order env) (targets s)"
    using Cons.prems(2) by (simp_all add: bc_orders_ok_def i)
  note IH = Cons.IH [OF wf ok]
  show ?case
  proof (cases msg)
    case (Broadcast m)
    have now: "\<exists>missed. sends_to k (effects (broadcast env m s)) @ missed
        = (case map_of (targets s) k of None \<Rightarrow> []
           | Some target \<Rightarrow> [attempt (bc_send env) m (k, target)])
      \<and> (returned (broadcast env m s) = Ok_unit \<longrightarrow> missed = [])"
      using Cons.prems(1) vis by (rule broadcast_sends_to)
    show ?thesis
    proof (cases "returned (broadcast env m s)")
      case (Inl e)
      then show ?thesis
        using now unfolding i Broadcast
        by (cases "map_of (targets s) k")
          (simp_all add: run_broadcaster_def halts_def list_ex_iff, metis append_Cons append_assoc append_Nil)
    next
      case (Inr u)
      then show ?thesis
        using now IH unfolding i Broadcast
        by (auto simp: run_broadcaster_def halts_def list_ex_iff split: option.splits)
    qed
  qed (use IH in \<open>auto simp: i run_broadcaster_def halts_def list_ex_iff add_target_def
        remove_target_def hm_simps\<close>)
qed

section \<open>Properties\<close>

text \<open>
  With \<open>continue_with_dead_targets\<close>, a broadcast attempts exactly one send on every
  registered target, whatever the earlier sends returned, keeps the table and succeeds.
\<close>

theorem broadcast_reaches_every_target:
  assumes "continue_with_dead_targets s" and "visits (bc_order env) (targets s)"
  shows "returned (broadcast env m s) = Ok_unit
    \<and> mset (effects (broadcast env m s)) = image_mset (attempt (bc_send env) m) (mset (targets s))
    \<and> state_of (broadcast env m s) = s"
  using assms by (simp add: broadcast_def broadcast_loop_continue visits_def)

theorem broadcast_reaches_every_target_witness:
  "mset (effects (broadcast
      \<lparr>bc_order = rev, bc_send = (\<lambda>t m. if t = 1 then Inl (Error ''dead'') else Ok_unit)\<rparr> ''hi''
      \<lparr>targets = [(0, 0), (1::nat, 1::nat)], continue_with_dead_targets = True\<rparr>))
   = {#Sent 0 ''hi'' Ok_unit, Sent 1 ''hi'' (Inl (Error ''dead''))#}"
  by (subst broadcast_reaches_every_target [THEN conjunct2, THEN conjunct1])
    (simp_all add: attempt_def)

text \<open>
  Without that flag, a broadcast sends to the targets in iteration order up to and
  including the first one whose send fails, sends to none after it, and returns that
  target's error; with no failing target it sends to all and succeeds.
\<close>

theorem broadcast_halts_at_first_failure:
  assumes "\<not> continue_with_dead_targets s"
  shows "let es = bc_order env (targets s); lives = (\<lambda>e. \<not> is_err (bc_send env (snd e) m))
    in case dropWhile lives es of
      [] \<Rightarrow> effects (broadcast env m s) = map (attempt (bc_send env) m) es
            \<and> returned (broadcast env m s) = Ok_unit
    | f # unreached \<Rightarrow>
            effects (broadcast env m s) = map (attempt (bc_send env) m) (takeWhile lives es @ [f])
            \<and> returned (broadcast env m s) = bc_send env (snd f) m"
  using assms unfolding Let_def
  by (simp add: broadcast_def broadcast_loop_halt split: list.split del: dropWhile_eq_Nil_conv)

theorem broadcast_halts_at_first_failure_witness:
  "effects (broadcast
      \<lparr>bc_order = rev, bc_send = (\<lambda>t m. if t = 1 then Inl (Error ''dead'') else Ok_unit)\<rparr> ''hi''
      \<lparr>targets = [(0, 0), (1, 1), (2::nat, 2::nat)], continue_with_dead_targets = False\<rparr>)
   = [Sent 2 ''hi'' Ok_unit, Sent 1 ''hi'' (Inl (Error ''dead''))]"
  using broadcast_halts_at_first_failure
    [of "\<lparr>targets = [(0, 0), (1, 1), (2::nat, 2::nat)], continue_with_dead_targets = False\<rparr>"
        "\<lparr>bc_order = rev, bc_send = (\<lambda>t m. if t = 1 then Inl (Error ''dead'') else Ok_unit)\<rparr>" "''hi''"]
  by (simp add: attempt_def)

text \<open>
  C39. Whatever messages the broadcaster takes, and even when it fails, its table holds one
  target per id, and the id a target is filed under is the target's own id.
\<close>

theorem broadcaster_run_wf:
  "broadcaster_wf tid (state_of (run_broadcaster tid (broadcaster_pre_start tid cfg) is))"
  by (rule run_broadcaster_wf [OF broadcaster_wf_pre_start])

text \<open>
  C29. A broadcaster that tolerates dead targets never fails, and after any history the reply
  to \<open>ListTargets\<close> names, once each, exactly the ids of the initial targets changed by the
  additions and removals in the order they came.
\<close>

theorem list_targets_reports_registered:
  assumes "cfg_continue_with_dead_targets cfg"
    and "out = run_broadcaster tid (broadcaster_pre_start tid cfg) is"
    and "visits ord (targets (state_of out))"
  shows "returned out = Ok_unit
    \<and> distinct (list_targets ord (state_of out))
    \<and> set (list_targets ord (state_of out))
      = fold (target_ids tid) (map snd is) (tid ` set (initial_targets cfg))"
proof -
  let ?s = "broadcaster_pre_start tid cfg"
  have init: "set (map fst (targets ?s)) = tid ` set (initial_targets cfg)"
    by (simp add: broadcaster_pre_start_def hm_simps image_image)
  have wf: "hm_ok (targets (state_of out))"
    using run_broadcaster_wf [OF broadcaster_wf_pre_start, of tid cfg "is"]
    by (simp add: assms(2) broadcaster_wf_def)
  have run: "returned out = Ok_unit
      \<and> set (map fst (targets (state_of out))) = fold (target_ids tid) (map snd is) (set (map fst (targets ?s)))"
    unfolding assms(2)
  proof (rule tolerant_run)
    show "continue_with_dead_targets ?s" using assms(1) by (simp add: broadcaster_pre_start_def)
  qed (rule broadcaster_wf_pre_start)
  then show ?thesis
    using assms(3) wf init
    by (simp add: list_targets_def visits_distinct visits_set)
qed

theorem list_targets_reports_registered_witness:
  "set (list_targets rev (state_of (run_broadcaster (\<lambda>t. t)
      (broadcaster_pre_start (\<lambda>t. t)
        \<lparr>initial_targets = [1::nat, 2], cfg_continue_with_dead_targets = True\<rparr>)
      [(\<lparr>bc_order = rev, bc_send = (\<lambda>t m. Ok_unit)\<rparr>, RemoveTarget 1),
       (\<lparr>bc_order = rev, bc_send = (\<lambda>t m. Inl (Error ''x''))\<rparr>, Broadcast ''hi''),
       (\<lparr>bc_order = rev, bc_send = (\<lambda>t m. Ok_unit)\<rparr>, AddTarget 3)])))
   = {2, 3}"
  by (subst list_targets_reports_registered [OF _ refl, THEN conjunct2, THEN conjunct2]) auto

text \<open>
  C28. A target is sent what was broadcast while it was registered. In every run of the
  broadcaster, the sends attempted on the target of an id are the broadcasts that came while
  a target was registered under that id, in their order, once each, on the target last
  registered; a run that has failed has made a first part of them. A broadcaster that
  tolerates dead targets does not fail, so there a target never misses a message because of
  another target.
\<close>

theorem target_is_sent_its_broadcasts:
  assumes "bc_orders_ok is" and "out = run_broadcaster tid (broadcaster_pre_start tid cfg) is"
    and "expected = expected_sends tid k (List.find (\<lambda>t. tid t = k) (rev (initial_targets cfg))) is"
  shows "prefix (sends_to k (effects out)) expected
    \<and> (returned out = Ok_unit \<longrightarrow> sends_to k (effects out) = expected)
    \<and> (cfg_continue_with_dead_targets cfg \<longrightarrow> returned out = Ok_unit)"
proof -
  let ?s = "broadcaster_pre_start tid cfg"
  have "map_of (map (\<lambda>t. (tid t, t)) ts) k = List.find (\<lambda>t. tid t = k) ts" for ts
    by (induction ts) auto
  then have init: "map_of (targets ?s) k = List.find (\<lambda>t. tid t = k) (rev (initial_targets cfg))"
    by (simp add: broadcaster_pre_start_def hm_simps rev_map)
  have "cfg_continue_with_dead_targets cfg \<Longrightarrow> returned out = Ok_unit"
    using tolerant_run [of ?s tid "is"] broadcaster_wf_pre_start [of tid cfg]
    by (simp add: assms(2)) (simp add: broadcaster_pre_start_def)
  moreover obtain missed where "sends_to k (effects out) @ missed = expected"
      "returned out = Ok_unit \<longrightarrow> missed = []"
    using run_sends_to [OF broadcaster_wf_pre_start [of tid cfg] assms(1), of k] by (auto simp: assms(2,3) init)
  ultimately show ?thesis by auto
qed

theorem target_is_sent_its_broadcasts_witness:
  "sends_to 2 (effects (run_broadcaster (\<lambda>t. t)
      (broadcaster_pre_start (\<lambda>t. t) \<lparr>initial_targets = [1::nat], cfg_continue_with_dead_targets = True\<rparr>)
      [(\<lparr>bc_order = rev, bc_send = (\<lambda>t m. Ok_unit)\<rparr>, Broadcast ''early''),
       (\<lparr>bc_order = rev, bc_send = (\<lambda>t m. Ok_unit)\<rparr>, AddTarget 2),
       (\<lparr>bc_order = rev, bc_send = (\<lambda>t m. if t = 1 then Inl (Error ''dead'') else Ok_unit)\<rparr>, Broadcast ''m1''),
       (\<lparr>bc_order = rev, bc_send = (\<lambda>t m. Inl (Error ''dead''))\<rparr>, Broadcast ''m2''),
       (\<lparr>bc_order = rev, bc_send = (\<lambda>t m. Ok_unit)\<rparr>, RemoveTarget 2),
       (\<lparr>bc_order = rev, bc_send = (\<lambda>t m. Ok_unit)\<rparr>, Broadcast ''late'')]))
   = [Sent 2 ''m1'' Ok_unit, Sent 2 ''m2'' (Inl (Error ''dead''))]"
proof -
  let ?cfg = "\<lparr>initial_targets = [1::nat], cfg_continue_with_dead_targets = True\<rparr>"
  let ?is = "[(\<lparr>bc_order = rev, bc_send = (\<lambda>t m. Ok_unit)\<rparr>, Broadcast ''early''),
       (\<lparr>bc_order = rev, bc_send = (\<lambda>t m. Ok_unit)\<rparr>, AddTarget 2),
       (\<lparr>bc_order = rev, bc_send = (\<lambda>t m. if t = 1 then Inl (Error ''dead'') else Ok_unit)\<rparr>, Broadcast ''m1''),
       (\<lparr>bc_order = rev, bc_send = (\<lambda>t m. Inl (Error ''dead''))\<rparr>, Broadcast ''m2''),
       (\<lparr>bc_order = rev, bc_send = (\<lambda>t m. Ok_unit)\<rparr>, RemoveTarget 2),
       (\<lparr>bc_order = rev, bc_send = (\<lambda>t m. Ok_unit)\<rparr>, Broadcast ''late'')]"
  have ok: "bc_orders_ok ?is" by (auto simp: bc_orders_ok_def)
  show ?thesis
    using target_is_sent_its_broadcasts [OF ok refl refl, where tid = "\<lambda>t. t" and cfg = ?cfg and k = 2]
    by (simp add: attempt_def)
qed

end
