(* ===== verification/File_Watcher.thy ===== *)
theory File_Watcher
  imports Prelude
begin

text \<open>
  The file watcher of \<open>src/ractor_actors/src/filewatcher/mod.rs\<close>: an actor that owns a
  watcher of the \<open>notify\<close> crate and fans its events out to subscribers.

  The \<open>notify\<close> crate is a parameter: its constructor's result and its \<open>watch\<close> method,
  which updates the watcher and may fail, are arguments of the start-up. A subscriber is
  a trait object whose \<open>event_received\<close> returns nothing; the call is an effect. An input
  pairs a message with the order in which the handler iterates the subscriptions.
\<close>

section \<open>State and messages\<close>

datatype subscription_result = SubOk | Duplicate | NotFound

datatype recursive_mode = NonRecursive | Recursive

record 'p file_watcher_config =
  files :: "'p list"
  directories :: "'p list"

record ('w, 'id, 'sub) file_watcher_state =
  watcher :: "'w option"
  subscriptions :: "('id, 'sub) hashmap"

datatype ('id, 'sub, 'ev) file_watcher_message =
    Event 'ev
  | FwError fault
  | Subscribe 'id 'sub
  | Unsubscribe 'id

datatype ('id, 'sub, 'ev) file_watcher_effect =
    EventReceived 'id 'sub 'ev
  | ReplySubscription subscription_result

section \<open>Start-up and shut-down\<close>

text \<open>The callback handed to the watcher turns its results into messages.\<close>

definition watcher_callback :: "fault + 'ev \<Rightarrow> ('id, 'sub, 'ev) file_watcher_message" where
  "watcher_callback res = (case res of Inr event \<Rightarrow> Event event | Inl e \<Rightarrow> FwError e)"

text \<open>One \<open>for\<close> loop over paths, with its \<open>?\<close>.\<close>

fun watch_loop :: "('w \<Rightarrow> 'p \<Rightarrow> recursive_mode \<Rightarrow> unit result \<times> 'w) \<Rightarrow> recursive_mode
    \<Rightarrow> 'w \<Rightarrow> 'p list \<Rightarrow> 'w result" where
  "watch_loop watch mode w [] = Inr w"
| "watch_loop watch mode w (p # ps) =
    (case watch w p mode of
       (Inl e, w') \<Rightarrow> Inl e
     | (Inr _, w') \<Rightarrow> watch_loop watch mode w' ps)"

definition file_watcher_pre_start :: "'w result
    \<Rightarrow> ('w \<Rightarrow> 'p \<Rightarrow> recursive_mode \<Rightarrow> unit result \<times> 'w) \<Rightarrow> 'p file_watcher_config
    \<Rightarrow> ('w, 'id, 'sub) file_watcher_state result" where
  "file_watcher_pre_start recommended watch cfg =
    (case recommended of
       Inl e \<Rightarrow> Inl e
     | Inr w \<Rightarrow>
         (case watch_loop watch NonRecursive w (files cfg) of
            Inl e \<Rightarrow> Inl e
          | Inr w' \<Rightarrow>
              (case watch_loop watch Recursive w' (directories cfg) of
                 Inl e \<Rightarrow> Inl e
               | Inr w'' \<Rightarrow> Inr \<lparr>watcher = Some w'', subscriptions = []\<rparr>)))"

definition file_watcher_post_stop :: "('w, 'id, 'sub) file_watcher_state
    \<Rightarrow> ('w, 'id, 'sub) file_watcher_state" where
  "file_watcher_post_stop s = (case watcher s of Some w \<Rightarrow> s\<lparr>watcher := None\<rparr> | None \<Rightarrow> s)"

section \<open>The handlers\<close>

definition fw_event :: "('id, 'sub) iter_order \<Rightarrow> 'ev \<Rightarrow> ('w, 'id, 'sub) file_watcher_state
    \<Rightarrow> ('id, 'sub, 'ev) file_watcher_effect list" where
  "fw_event ord watcher_event s =
    map (\<lambda>(who, sub). EventReceived who sub watcher_event) (ord (subscriptions s))"

definition fw_subscribe :: "'id \<Rightarrow> 'sub \<Rightarrow> ('w, 'id, 'sub) file_watcher_state
    \<Rightarrow> ('w, 'id, 'sub) file_watcher_state \<times> subscription_result" where
  "fw_subscribe who sub s =
    (s\<lparr>subscriptions := hm_insert who sub (subscriptions s)\<rparr>,
     if map_of (subscriptions s) who = None then SubOk else Duplicate)"

definition fw_unsubscribe :: "'id \<Rightarrow> ('w, 'id, 'sub) file_watcher_state
    \<Rightarrow> ('w, 'id, 'sub) file_watcher_state \<times> subscription_result" where
  "fw_unsubscribe who s =
    (s\<lparr>subscriptions := hm_remove who (subscriptions s)\<rparr>,
     if map_of (subscriptions s) who \<noteq> None then SubOk else NotFound)"

fun handle_file_watcher ::
    "('id, 'sub) iter_order \<times> ('id, 'sub, 'ev) file_watcher_message
    \<Rightarrow> ('w, 'id, 'sub) file_watcher_state
    \<Rightarrow> (('w, 'id, 'sub) file_watcher_state, ('id, 'sub, 'ev) file_watcher_effect) outcome" where
  "handle_file_watcher (ord, Event ev) s = Outcome s (fw_event ord ev s) Ok_unit"
| "handle_file_watcher (ord, FwError e) s = Outcome s [] (Inl e)"
| "handle_file_watcher (ord, Subscribe who sub) s =
    (let (s', reply) = fw_subscribe who sub s in Outcome s' [ReplySubscription reply] Ok_unit)"
| "handle_file_watcher (ord, Unsubscribe who) s =
    (let (s', reply) = fw_unsubscribe who s in Outcome s' [ReplySubscription reply] Ok_unit)"

definition run_file_watcher ::
    "('w, 'id, 'sub) file_watcher_state
    \<Rightarrow> (('id, 'sub) iter_order \<times> ('id, 'sub, 'ev) file_watcher_message) list
    \<Rightarrow> (('w, 'id, 'sub) file_watcher_state, ('id, 'sub, 'ev) file_watcher_effect) outcome" where
  "run_file_watcher = run_actor handle_file_watcher (\<lambda>_. False)"

definition file_watcher_wf :: "('w, 'id, 'sub) file_watcher_state \<Rightarrow> bool" where
  "file_watcher_wf s = hm_ok (subscriptions s)"

lemma file_watcher_wf_step:
  "file_watcher_wf s \<Longrightarrow> file_watcher_wf (state_of (handle_file_watcher i s))"
  by (cases "(i, s)" rule: handle_file_watcher.cases)
    (auto simp: file_watcher_wf_def fw_subscribe_def fw_unsubscribe_def)

interpretation fw: actor_invariant handle_file_watcher "\<lambda>_. True" file_watcher_wf
  by unfold_locales (rule file_watcher_wf_step)

interpretation fw_table: registry
  "\<lambda>s. map_of (subscriptions s)"
  "\<lambda>k v s. fst (fw_subscribe k v s)"
  "\<lambda>k s. fst (fw_unsubscribe k s)"
  "\<lambda>s. map fst (subscriptions s)"
  file_watcher_wf
  by unfold_locales
    (auto simp: fw_subscribe_def fw_unsubscribe_def hm_simps hm_ok_def file_watcher_wf_def
      dom_map_of_conv_image_fst
      intro: hm_ok_insert [unfolded hm_ok_def] hm_ok_remove [unfolded hm_ok_def])

section \<open>What one subscriber sees\<close>

fun events_to :: "'id \<Rightarrow> ('id, 'sub, 'ev) file_watcher_effect list \<Rightarrow> 'ev list" where
  "events_to k [] = []"
| "events_to k (EventReceived who sub ev # es) =
    (if who = k then ev # events_to k es else events_to k es)"
| "events_to k (ReplySubscription r # es) = events_to k es"

text \<open>
  The specification, over the messages alone: while subscribed, one copy of each event,
  in order, until a watcher error ends the actor.
\<close>

fun expected_events :: "'id \<Rightarrow> bool \<Rightarrow> ('id, 'sub, 'ev) file_watcher_message list \<Rightarrow> 'ev list" where
  "expected_events k subscribed [] = []"
| "expected_events k subscribed (Event ev # ms) =
    (if subscribed then ev # expected_events k subscribed ms else expected_events k subscribed ms)"
| "expected_events k subscribed (FwError e # ms) = []"
| "expected_events k subscribed (Subscribe who sub # ms) =
    expected_events k (subscribed \<or> who = k) ms"
| "expected_events k subscribed (Unsubscribe who # ms) =
    expected_events k (subscribed \<and> who \<noteq> k) ms"

lemma events_to_append [simp]: "events_to k (xs @ ys) = events_to k xs @ events_to k ys"
  by (induction k xs rule: events_to.induct) simp_all

lemma events_to_fan_out:
  "distinct (map fst es) \<Longrightarrow>
     events_to k (map (\<lambda>(who, sub). EventReceived who sub ev) es)
     = (if k \<in> fst ` set es then [ev] else [])"
  by (induction es) force+

lemma events_to_fw_event:
  "file_watcher_wf s \<Longrightarrow> visits ord (subscriptions s) \<Longrightarrow>
     events_to k (fw_event ord ev s) = (if map_of (subscriptions s) k \<noteq> None then [ev] else [])"
  using events_to_fan_out [of "ord (subscriptions s)" k ev]
  by (simp add: fw_event_def file_watcher_wf_def visits_distinct visits_set map_of_eq_None_iff)

text \<open>Every order of a list of inputs visits the table, whatever it holds.\<close>

definition orders_ok :: "(('id, 'sub) iter_order \<times> 'm) list \<Rightarrow> bool" where
  "orders_ok is \<longleftrightarrow> (\<forall>i \<in> set is. \<forall>t. visits (fst i) t)"

lemma run_events_to:
  "file_watcher_wf s \<Longrightarrow> orders_ok is \<Longrightarrow>
     events_to k (effects (run_file_watcher s is))
     = expected_events k (map_of (subscriptions s) k \<noteq> None) (map snd is)"
proof (induction "is" arbitrary: s)
  case Nil
  then show ?case by (simp add: run_file_watcher_def)
next
  case (Cons i "is")
  obtain ord msg where i: "i = (ord, msg)" by (cases i)
  have wf: "file_watcher_wf (state_of (handle_file_watcher i s))"
    using Cons.prems by (simp add: file_watcher_wf_step)
  note IH = Cons.IH [OF wf]
  show ?case
    using IH Cons.prems unfolding i
    by (cases msg)
      (auto simp: run_file_watcher_def halts_def list_ex_iff orders_ok_def events_to_fw_event
        fw_subscribe_def fw_unsubscribe_def hm_simps)
qed

section \<open>The start-up\<close>

lemma watch_loop_append:
  "watch_loop watch mode w (ps @ qs) =
     (case watch_loop watch mode w ps of Inl e \<Rightarrow> Inl e | Inr w' \<Rightarrow> watch_loop watch mode w' qs)"
  by (induction ps arbitrary: w) (auto split: sum.splits prod.splits)

text \<open>
  A watcher that keeps the list of its watches and refuses some paths; for such a
  watcher, the loop succeeds exactly when no path is refused.
\<close>

definition keeps_watches :: "('w \<Rightarrow> 'p \<Rightarrow> recursive_mode \<Rightarrow> unit result \<times> 'w)
    \<Rightarrow> ('w \<Rightarrow> ('p \<times> recursive_mode) list) \<Rightarrow> ('p \<Rightarrow> recursive_mode \<Rightarrow> fault option) \<Rightarrow> bool" where
  "keeps_watches watch watched refuses \<longleftrightarrow>
     (\<forall>w p mode. case refuses p mode of
        Some e \<Rightarrow> fst (watch w p mode) = Inl e
      | None \<Rightarrow> fst (watch w p mode) = Ok_unit
          \<and> watched (snd (watch w p mode)) = watched w @ [(p, mode)])"

lemma watch_loop_kept:
  assumes "keeps_watches watch watched refuses"
  shows "case List.find (\<lambda>p. refuses p mode \<noteq> None) ps of
      Some p \<Rightarrow> watch_loop watch mode w ps = Inl (the (refuses p mode))
    | None \<Rightarrow> \<exists>w'. watch_loop watch mode w ps = Inr w'
        \<and> watched w' = watched w @ map (\<lambda>p. (p, mode)) ps"
proof (induction ps arbitrary: w)
  case Nil
  then show ?case by simp
next
  case (Cons p ps)
  obtain r w1 where r: "watch w p mode = (r, w1)" by (cases "watch w p mode")
  have step: "case refuses p mode of Some e \<Rightarrow> fst (watch w p mode) = Inl e
      | None \<Rightarrow> fst (watch w p mode) = Ok_unit
          \<and> watched (snd (watch w p mode)) = watched w @ [(p, mode)]"
    using assms unfolding keeps_watches_def by blast
  show ?case
    using step r Cons.IH [of w1]
    by (cases "refuses p mode"; cases "List.find (\<lambda>p. refuses p mode \<noteq> None) ps") auto
qed

section \<open>Properties\<close>

text \<open>
  C27. A subscriber sees exactly the events that arrive while it is subscribed: each once, in
  order of arrival, whatever the other subscribers do, whichever order the table is
  iterated in, and none after a watcher error, which ends the actor.
\<close>

theorem subscriber_sees_its_events:
  assumes "file_watcher_wf s" and "orders_ok is"
  shows "events_to k (effects (run_file_watcher s is))
    = expected_events k (map_of (subscriptions s) k \<noteq> None) (map snd is)"
  using assms by (rule run_events_to)

theorem subscriber_sees_its_events_witness:
  "events_to (2::nat) (effects (run_file_watcher
      \<lparr>watcher = Some (), subscriptions = [(1, ''a'')]\<rparr>
      [((\<lambda>t. t), Event ''e1''), (rev, Subscribe 2 ''b''), (rev, Event ''e2''),
       (rev, Subscribe 2 ''c''), (rev, Event ''e3''), (rev, Unsubscribe 2), (rev, Event ''e4'')]))
   = [''e2'', ''e3'']"
  by (subst subscriber_sees_its_events) (auto simp: orders_ok_def file_watcher_wf_def hm_ok_def)

text \<open>
  The reply to a subscription says whether the id was new, and in both cases the new
  subscriber is the one in force: a \<open>Duplicate\<close> reply comes with the old subscriber
  replaced. Removing the id again restores the table the first subscription found.
\<close>

theorem subscribe_reply_and_replacement:
  assumes "file_watcher_wf s"
  shows "snd (fw_subscribe who sub s)
      = (if who \<in> set (map fst (subscriptions s)) then Duplicate else SubOk)
    \<and> map_of (subscriptions (fst (fw_subscribe who sub s))) = (map_of (subscriptions s))(who \<mapsto> sub)
    \<and> snd (fw_unsubscribe who (fst (fw_subscribe who sub s))) = SubOk
    \<and> snd (fw_unsubscribe who (fst (fw_unsubscribe who s))) = NotFound"
  using assms fw_table.entry_put [OF assms, of who sub] fw_table.entry_del [OF assms, of who]
  by (auto simp: fw_unsubscribe_def fw_subscribe_def map_of_eq_None_iff hm_simps)

theorem subscribe_reply_and_replacement_witness:
  "let s = \<lparr>watcher = Some (), subscriptions = [(1::nat, ''a'')]\<rparr>
   in snd (fw_subscribe 1 ''b'' s) = Duplicate
    \<and> map_of (subscriptions (fst (fw_subscribe 1 ''b'' s))) 1 = Some ''b''"
  using subscribe_reply_and_replacement
    [of "\<lparr>watcher = Some (), subscriptions = [(1::nat, ''a'')]\<rparr>" 1 "''b''"]
  by (simp add: file_watcher_wf_def hm_ok_def)

text \<open>
  The start-up asks the watcher for the configured files without recursion, then for the
  directories with recursion, in that order; it succeeds, with no subscription, exactly
  when none of them is refused, and otherwise returns the error of the first refusal.
\<close>

theorem pre_start_watches_all_or_fails:
  assumes "keeps_watches watch watched refuses" and "watched w = []"
  shows "case List.find (\<lambda>p. refuses p NonRecursive \<noteq> None) (files cfg) of
      Some p \<Rightarrow> file_watcher_pre_start (Inr w) watch cfg = Inl (the (refuses p NonRecursive))
    | None \<Rightarrow>
        (case List.find (\<lambda>p. refuses p Recursive \<noteq> None) (directories cfg) of
           Some p \<Rightarrow> file_watcher_pre_start (Inr w) watch cfg = Inl (the (refuses p Recursive))
         | None \<Rightarrow> (\<exists>w'. file_watcher_pre_start (Inr w) watch cfg
                = Inr \<lparr>watcher = Some w', subscriptions = []\<rparr>
              \<and> watched w' = map (\<lambda>p. (p, NonRecursive)) (files cfg)
                            @ map (\<lambda>p. (p, Recursive)) (directories cfg)))"
proof (cases "List.find (\<lambda>p. refuses p NonRecursive \<noteq> None) (files cfg)")
  case None
  then obtain w' where w': "watch_loop watch NonRecursive w (files cfg) = Inr w'"
      "watched w' = map (\<lambda>p. (p, NonRecursive)) (files cfg)"
    using watch_loop_kept [OF assms(1), where mode = NonRecursive and ps = "files cfg" and w = w]
      assms(2) by auto
  show ?thesis
    using watch_loop_kept [OF assms(1), where mode = Recursive and ps = "directories cfg" and w = w']
      None w'
    by (auto simp: file_watcher_pre_start_def split: option.splits)
next
  case (Some p)
  then show ?thesis
    using watch_loop_kept [OF assms(1), where mode = NonRecursive and ps = "files cfg" and w = w]
    by (simp add: file_watcher_pre_start_def)
qed

theorem pre_start_watches_all_or_fails_witness:
  "file_watcher_pre_start (Inr [])
      (\<lambda>w p mode. if p = ''gone'' then (Inl (Error ''no such path''), w)
                  else (Ok_unit, w @ [(p, mode)]))
      \<lparr>files = [''a''], directories = [''d'', ''gone'', ''e'']\<rparr>
    = (Inl (Error ''no such path'') :: (_, nat, string) file_watcher_state result)"
proof -
  let ?watch = "\<lambda>w p mode. if p = ''gone'' then (Inl (Error ''no such path''), w)
                  else (Ok_unit, w @ [(p, mode)])"
  let ?refuses = "\<lambda>p (mode :: recursive_mode). if p = ''gone'' then Some (Error ''no such path'') else None"
  have "keeps_watches ?watch (\<lambda>w. w) ?refuses"
    by (simp add: keeps_watches_def)
  from pre_start_watches_all_or_fails [OF this, of "[]"
      "\<lparr>files = [''a''], directories = [''d'', ''gone'', ''e'']\<rparr>"]
  show ?thesis by simp
qed

end
