(* ===== verification/File_Watcher_System.thy ===== *)
theory File_Watcher_System
  imports File_Watcher "HOL-Library.Sublist"
begin

text \<open>
  The file watcher with the thread of the \<open>notify\<close> crate that calls its callback,
  \<open>src/ractor_actors/src/filewatcher/mod.rs\<close>, and the clients that subscribe. The callback only
  casts to the mailbox of the actor, and ignores what the cast returns: once the actor has
  ended, what the watcher reports goes nowhere. Reports, requests and turns of the actor come
  in any order.
\<close>

section \<open>The system\<close>

record ('w, 'id, 'sub, 'ev) fw_system =
  fw_actor :: "('w, 'id, 'sub) file_watcher_state"
  fw_up :: bool
  fw_box :: "('id, 'sub, 'ev) file_watcher_message list"
  fw_log :: "('id, 'sub, 'ev) file_watcher_effect list"
  reported :: "(fault + 'ev) list"   \<comment> \<open>the results the callback was called with\<close>
  fw_taken :: "('id, 'sub, 'ev) file_watcher_message list"   \<comment> \<open>the messages taken from the mailbox\<close>

definition fw_init :: "('w, 'id, 'sub) file_watcher_state \<Rightarrow> ('w, 'id, 'sub, 'ev) fw_system" where
  "fw_init st = \<lparr>fw_actor = st, fw_up = True, fw_box = [], fw_log = [], reported = [], fw_taken = []\<rparr>"

fun from_watcher :: "('id, 'sub, 'ev) file_watcher_message \<Rightarrow> bool" where
  "from_watcher (Event _) = True"
| "from_watcher (FwError _) = True"
| "from_watcher _ = False"

definition fw_cast :: "('id, 'sub, 'ev) file_watcher_message \<Rightarrow> ('w, 'id, 'sub, 'ev) fw_system
    \<Rightarrow> ('w, 'id, 'sub, 'ev) fw_system" where
  "fw_cast m s = (if fw_up s then s\<lparr>fw_box := fw_box s @ [m]\<rparr> else s)"

definition callback_runs :: "fault + 'ev \<Rightarrow> ('w, 'id, 'sub, 'ev) fw_system \<Rightarrow> ('w, 'id, 'sub, 'ev) fw_system" where
  "callback_runs res s = fw_cast (watcher_callback res) (s\<lparr>reported := reported s @ [res]\<rparr>)"

definition fw_turn :: "('id, 'sub) iter_order \<Rightarrow> ('id, 'sub, 'ev) file_watcher_message
    \<Rightarrow> ('w, 'id, 'sub, 'ev) fw_system \<Rightarrow> ('w, 'id, 'sub, 'ev) fw_system" where
  "fw_turn ord m s =
    (let out = handle_file_watcher (ord, m) (fw_actor s)
     in s\<lparr>fw_actor := state_of out, fw_up := \<not> is_err (returned out), fw_log := fw_log s @ effects out,
          fw_taken := fw_taken s @ [m]\<rparr>)"

inductive fw_step :: "('w, 'id, 'sub, 'ev) fw_system \<Rightarrow> ('w, 'id, 'sub, 'ev) fw_system \<Rightarrow> bool" where
  reports: "fw_step s (callback_runs res s)"
| asks: "\<not> from_watcher m \<Longrightarrow> fw_step s (fw_cast m s)"
| takes: "fw_up s \<Longrightarrow> fw_box s = m # ms \<Longrightarrow> (\<And>t. visits ord t) \<Longrightarrow> fw_step s (fw_turn ord m (s\<lparr>fw_box := ms\<rparr>))"
| stops: "fw_up s \<Longrightarrow> fw_step s (s\<lparr>fw_up := False, fw_actor := file_watcher_post_stop (fw_actor s)\<rparr>)"

section \<open>What was taken says who saw what\<close>

fun is_fw_error :: "('id, 'sub, 'ev) file_watcher_message \<Rightarrow> bool" where
  "is_fw_error (FwError _) = True"
| "is_fw_error _ = False"

fun subscribed_after :: "'id \<Rightarrow> bool \<Rightarrow> ('id, 'sub, 'ev) file_watcher_message list \<Rightarrow> bool" where
  "subscribed_after k b [] = b"
| "subscribed_after k b (Subscribe who sub # ms) = subscribed_after k (b \<or> who = k) ms"
| "subscribed_after k b (Unsubscribe who # ms) = subscribed_after k (b \<and> who \<noteq> k) ms"
| "subscribed_after k b (_ # ms) = subscribed_after k b ms"

lemma subscribed_after_append: "subscribed_after k b (xs @ ys) = subscribed_after k (subscribed_after k b xs) ys"
  by (induction k b xs rule: subscribed_after.induct) simp_all

lemma expected_events_append:
  "\<not> list_ex is_fw_error xs \<Longrightarrow>
   expected_events k b (xs @ ys) = expected_events k b xs @ expected_events k (subscribed_after k b xs) ys"
  by (induction k b xs rule: expected_events.induct) simp_all

definition fw_seen :: "('w, 'id, 'sub, 'ev) fw_system \<Rightarrow> bool" where
  "fw_seen s \<longleftrightarrow> file_watcher_wf (fw_actor s)
     \<and> (fw_up s \<longrightarrow> \<not> list_ex is_fw_error (fw_taken s)
          \<and> (\<forall>k. map_of (subscriptions (fw_actor s)) k \<noteq> None \<longleftrightarrow> subscribed_after k False (fw_taken s)))
     \<and> (\<forall>k. events_to k (fw_log s) = expected_events k False (fw_taken s))"

definition fw_queued :: "('w, 'id, 'sub, 'ev) fw_system \<Rightarrow> bool" where
  "fw_queued s \<longleftrightarrow> prefix (filter from_watcher (fw_taken s @ fw_box s)) (map watcher_callback (reported s))
     \<and> (fw_up s \<longrightarrow> filter from_watcher (fw_taken s @ fw_box s) = map watcher_callback (reported s))"

definition fw_inv :: "('w, 'id, 'sub, 'ev) fw_system \<Rightarrow> bool" where
  "fw_inv s \<longleftrightarrow> fw_seen s \<and> fw_queued s"

lemma fw_turn_seen:
  assumes "fw_seen s" and "fw_up s" and "\<And>t. visits ord t"
  shows "fw_seen (fw_turn ord m (s\<lparr>fw_box := ms\<rparr>))"
proof -
  have wf: "file_watcher_wf (fw_actor s)" and up: "\<not> list_ex is_fw_error (fw_taken s)"
    and subs: "\<And>k. map_of (subscriptions (fw_actor s)) k \<noteq> None \<longleftrightarrow> subscribed_after k False (fw_taken s)"
    and log: "\<And>k. events_to k (fw_log s) = expected_events k False (fw_taken s)"
    using assms(1,2) by (simp_all add: fw_seen_def)
  have taken: "expected_events k False (fw_taken s @ [m])
      = expected_events k False (fw_taken s) @ expected_events k (map_of (subscriptions (fw_actor s)) k \<noteq> None) [m]" for k
    using expected_events_append [OF up, of k False "[m]"] subs [of k] by simp
  have "events_to k (effects (handle_file_watcher (ord, m) (fw_actor s)))
      = expected_events k (map_of (subscriptions (fw_actor s)) k \<noteq> None) [m]" for k
    using run_events_to [of "fw_actor s" "[(ord, m)]" k] wf assms(3)
    by (simp add: run_file_watcher_def orders_ok_def followed_by_def split: if_splits)
  then show ?thesis
    using wf up subs log taken file_watcher_wf_step [OF wf, of "(ord, m)"]
    by (cases m)
      (auto simp: fw_seen_def fw_turn_def subscribed_after_append fw_subscribe_def fw_unsubscribe_def hm_simps)
qed

lemma fw_inv_step: "fw_step s s' \<Longrightarrow> fw_inv s \<Longrightarrow> fw_inv s'"
proof (induction rule: fw_step.induct)
  case (reports s res)
  then show ?case
    by (cases res) (auto simp: fw_inv_def fw_seen_def fw_queued_def callback_runs_def fw_cast_def watcher_callback_def)
next
  case (asks m s)
  then show ?case by (auto simp: fw_inv_def fw_seen_def fw_queued_def fw_cast_def)
next
  case (takes s m ms ord)
  moreover from this have "fw_queued (fw_turn ord m (s\<lparr>fw_box := ms\<rparr>))"
    by (simp add: fw_inv_def fw_queued_def fw_turn_def Let_def)
  ultimately show ?case by (simp add: fw_inv_def fw_turn_seen)
next
  case (stops s)
  then show ?case
    by (auto simp: fw_inv_def fw_seen_def fw_queued_def file_watcher_post_stop_def file_watcher_wf_def split: option.splits)
qed

interpretation fw_sys: step_invariant fw_step fw_inv
  by unfold_locales (rule fw_inv_step)

section \<open>Events before the first error\<close>

fun before_error :: "(fault + 'ev) list \<Rightarrow> 'ev list" where
  "before_error [] = []"
| "before_error (Inr ev # rs) = ev # before_error rs"
| "before_error (Inl e # rs) = []"

fun events_before :: "('id, 'sub, 'ev) file_watcher_message list \<Rightarrow> 'ev list" where
  "events_before [] = []"
| "events_before (Event ev # ms) = ev # events_before ms"
| "events_before (FwError e # ms) = []"
| "events_before (_ # ms) = events_before ms"

lemma events_before_callback: "events_before (map watcher_callback rs) = before_error rs"
  by (induction rs rule: before_error.induct) (simp_all add: watcher_callback_def)

lemma events_before_filter: "events_before (filter from_watcher ms) = events_before ms"
  by (induction ms rule: events_before.induct) simp_all

lemma events_before_prefix: "prefix xs ys \<Longrightarrow> prefix (events_before xs) (events_before ys)"
proof (induction xs arbitrary: ys)
  case (Cons x xs)
  then show ?case by (cases ys; cases x) auto
qed simp

lemma expected_subseq: "subseq (expected_events k b ms) (events_before ms)"
  by (induction k b ms rule: expected_events.induct) auto

lemma expected_subscribed:
  "Unsubscribe k \<notin> set ms \<Longrightarrow> expected_events k True ms = events_before ms"
  by (induction k "True" ms rule: expected_events.induct) auto

section \<open>Properties\<close>

text \<open>
  C26. What a subscriber sees. However the callback, the clients and the actor interleave: an
  id is handed a subsequence of the events the watcher reported before its first error, in
  the order of the reports and each at most once. If its subscription was the first message
  the actor took, and it never unsubscribed, it was handed a prefix of them, and all of them
  once the mailbox is empty, unless the actor has ended. And an actor that has taken an error
  has ended.
\<close>

theorem subscriber_sees_what_was_reported:
  assumes "file_watcher_pre_start recommended watch cfg = Inr st" and "reaches fw_step (fw_init st) s"
  shows "subseq (events_to k (fw_log s)) (before_error (reported s))
    \<and> (fw_taken s \<noteq> [] \<and> hd (fw_taken s) = Subscribe k sub \<and> Unsubscribe k \<notin> set (fw_taken s) \<longrightarrow>
         prefix (events_to k (fw_log s)) (before_error (reported s))
         \<and> (fw_up s \<and> fw_box s = [] \<longrightarrow> events_to k (fw_log s) = before_error (reported s)))
    \<and> (list_ex is_fw_error (fw_taken s) \<longrightarrow> \<not> fw_up s)"
proof -
  have "fw_inv (fw_init st)"
    using assms(1)
    by (auto simp: fw_inv_def fw_seen_def fw_queued_def fw_init_def file_watcher_pre_start_def file_watcher_wf_def
        split: sum.splits)
  from fw_sys.inv_reaches [OF assms(2) this] have inv: "fw_seen s" "fw_queued s" by (simp_all add: fw_inv_def)
  have log: "events_to k (fw_log s) = expected_events k False (fw_taken s)" using inv(1) by (simp add: fw_seen_def)
  have "prefix (filter from_watcher (fw_taken s)) (map watcher_callback (reported s))"
    using inv(2) by (auto simp: fw_queued_def dest: append_prefixD)
  from events_before_prefix [OF this] have taken: "prefix (events_before (fw_taken s)) (before_error (reported s))"
    by (simp add: events_before_filter events_before_callback)
  have all: "events_before (fw_taken s) = before_error (reported s)" if "fw_up s" "fw_box s = []"
  proof -
    have "filter from_watcher (fw_taken s) = map watcher_callback (reported s)"
      using inv(2) that by (simp add: fw_queued_def)
    then show ?thesis by (metis events_before_filter events_before_callback)
  qed
  have first: "events_to k (fw_log s) = events_before (fw_taken s)"
    if "fw_taken s \<noteq> []" "hd (fw_taken s) = Subscribe k sub" "Unsubscribe k \<notin> set (fw_taken s)"
    using that expected_subscribed [of k "tl (fw_taken s)"] by (cases "fw_taken s") (simp_all add: log)
  have "subseq (events_to k (fw_log s)) (before_error (reported s))"
    using expected_subseq [of k False "fw_taken s"] taken unfolding log
    by (blast intro: subseq_order.trans prefix_imp_subseq)
  then show ?thesis using first taken all inv(1) by (auto simp: fw_seen_def)
qed

lemma fw_reaches_more:
  "reaches fw_step s0 s \<Longrightarrow> reaches fw_step s0 (callback_runs res s)"
  "reaches fw_step s0 s \<Longrightarrow> \<not> from_watcher m \<Longrightarrow> reaches fw_step s0 (fw_cast m s)"
  "reaches fw_step s0 s \<Longrightarrow> fw_up s \<Longrightarrow> fw_box s \<noteq> []
    \<Longrightarrow> reaches fw_step s0 (fw_turn (\<lambda>t. t) (hd (fw_box s)) (s\<lparr>fw_box := tl (fw_box s)\<rparr>))"
proof -
  show "reaches fw_step s0 s \<Longrightarrow> reaches fw_step s0 (callback_runs res s)"
    by (erule reaches.next_step) (rule fw_step.reports)
  show "reaches fw_step s0 s \<Longrightarrow> \<not> from_watcher m \<Longrightarrow> reaches fw_step s0 (fw_cast m s)"
    by (erule reaches.next_step) (rule fw_step.asks)
  show "reaches fw_step s0 s \<Longrightarrow> fw_up s \<Longrightarrow> fw_box s \<noteq> []
    \<Longrightarrow> reaches fw_step s0 (fw_turn (\<lambda>t. t) (hd (fw_box s)) (s\<lparr>fw_box := tl (fw_box s)\<rparr>))"
    by (erule reaches.next_step) (rule fw_step.takes, simp_all add: visits_def)
qed

text \<open>Two reports before the subscription is taken, one after it, then an error.\<close>

theorem subscriber_sees_what_was_reported_witness:
  "\<exists>s. reaches fw_step (fw_init (\<lparr>watcher = Some (), subscriptions = []\<rparr> :: (unit, nat, string) file_watcher_state)) s
    \<and> reported s = [Inr ''a'', Inr ''b'', Inl (Error ''gone''), Inr ''c''] \<and> \<not> fw_up s
    \<and> events_to 1 (fw_log s) = [''b''] \<and> subseq [''b''] [''a'', ''b'']"
proof -
  let ?st = "\<lparr>watcher = Some (), subscriptions = []\<rparr> :: (unit, nat, string) file_watcher_state"
  let ?rep = "callback_runs :: fault + string \<Rightarrow> (unit, nat, string, string) fw_system \<Rightarrow> _"
  let ?take = "\<lambda>s. fw_turn (\<lambda>t. t) (hd (fw_box s)) (s\<lparr>fw_box := tl (fw_box s)\<rparr>)"
  let ?s = "?rep (Inr ''c'') (?take (?rep (Inl (Error ''gone'')) (?take (?take (?rep (Inr ''b'')
    (?take (fw_cast (Subscribe 1 ''x'') (?rep (Inr ''a'') (fw_init ?st)))))))))"
  note run_defs = callback_runs_def fw_turn_def fw_cast_def fw_init_def watcher_callback_def fw_event_def
    fw_subscribe_def hm_insert_def Let_def
  have "reaches fw_step (fw_init ?st) ?s"
    by (intro fw_reaches_more reaches.start) (simp_all add: run_defs)
  moreover have "events_to 1 (fw_log ?s) = [''b'']" "\<not> fw_up ?s"
      "reported ?s = [Inr ''a'', Inr ''b'', Inl (Error ''gone''), Inr ''c'']"
    by (simp_all add: run_defs)
  ultimately obtain s where s: "reaches fw_step (fw_init ?st) s" "events_to 1 (fw_log s) = [''b'']" "\<not> fw_up s"
      "reported s = [Inr ''a'', Inr ''b'', Inl (Error ''gone''), Inr ''c'']"
    by blast
  have "file_watcher_pre_start (Inr ()) (\<lambda>w p m. (Ok_unit, w)) \<lparr>files = [''f''], directories = []\<rparr> = Inr ?st"
    by (simp add: file_watcher_pre_start_def)
  from subscriber_sees_what_was_reported [OF this s(1), of 1 "''x''"] have "subseq [''b''] [''a'', ''b'']"
    using s(2,4) by simp
  then show ?thesis using s by blast
qed

end
