(* ===== verification/Timers.thy ===== *)
theory Timers
  imports Prelude
begin

text \<open>
  Actors with one-shot timers. The watchdog and the cron worker both ask the actor
  runtime to send them a message after a delay (\<open>send_after\<close>), keep the join handle of
  the timer, and may abort it later. The runtime is outside the repository; the model
  of its surroundings uses what it documents of these calls: a timer that is not aborted
  sends its message once, no earlier than its delay, and aborting one that is gone has no effect.

  A configuration is the actor's state with a clock, the pending timers, the inbox and
  a log of what the actor did to others. The scheduler chooses every move: time passing,
  a message arriving, a due timer firing (it may be late by any amount), the actor
  taking the next message of its inbox. Handlers get the token of the timer they may
  start, the join handle that \<open>send_after\<close> returns.
\<close>

section \<open>Timers and their effects\<close>

record 'm timer =
  token :: nat
  due :: nat
  payload :: 'm

datatype ('m, 'o) timed_effect =
    SendAfter nat nat 'm   \<comment> \<open>token, delay, message\<close>
  | Abort nat
  | Act 'o

record ('s, 'm, 'o) timed =
  clock :: nat
  actor :: 's
  timers :: "'m timer list"
  inbox :: "'m list"
  fresh :: nat
  alive :: bool
  log :: "'o list"

fun pool_effect :: "nat \<Rightarrow> ('m, 'o) timed_effect \<Rightarrow> 'm timer list \<Rightarrow> 'm timer list" where
  "pool_effect now (SendAfter tok delay m) pool =
    pool @ [\<lparr>token = tok, due = now + delay, payload = m\<rparr>]"
| "pool_effect now (Abort tok) pool = filter (\<lambda>t. token t \<noteq> tok) pool"
| "pool_effect now (Act a) pool = pool"

fun acts :: "('m, 'o) timed_effect list \<Rightarrow> 'o list" where
  "acts [] = []"
| "acts (Act a # es) = a # acts es"
| "acts (_ # es) = acts es"

section \<open>Moves of the scheduler\<close>

datatype ('env, 'm) move = Tick | Arrive 'm | Fire nat | Take 'env

text \<open>The effects of one handler call, committed in the order it made them.\<close>

definition commit :: "('s, ('m, 'o) timed_effect) outcome \<Rightarrow> ('s, 'm, 'o) timed \<Rightarrow> ('s, 'm, 'o) timed" where
  "commit out c = c\<lparr>actor := state_of out,
     timers := fold (pool_effect (clock c)) (effects out) (timers c),
     fresh := Suc (fresh c),
     alive := \<not> is_err (returned out),
     log := log c @ acts (effects out)\<rparr>"

type_synonym ('env, 's, 'm, 'o) timed_handler =
  "'env \<Rightarrow> nat \<Rightarrow> 'm \<Rightarrow> 's \<Rightarrow> ('s, ('m, 'o) timed_effect) outcome"

text \<open>\<open>None\<close>: the move is not enabled. Only the messages of \<open>external\<close> arrive from outside.\<close>

fun timed_exec :: "('env, 's, 'm, 'o) timed_handler \<Rightarrow> ('m \<Rightarrow> bool) \<Rightarrow> ('env, 'm) move
    \<Rightarrow> ('s, 'm, 'o) timed \<Rightarrow> ('s, 'm, 'o) timed option" where
  "timed_exec h external Tick c = Some (c\<lparr>clock := Suc (clock c)\<rparr>)"
| "timed_exec h external (Arrive m) c =
    (if external m then Some (c\<lparr>inbox := inbox c @ [m]\<rparr>) else None)"
| "timed_exec h external (Fire tok) c =
    (case List.find (\<lambda>t. token t = tok \<and> due t \<le> clock c) (timers c) of
       None \<Rightarrow> None
     | Some t \<Rightarrow> Some (c\<lparr>timers := remove1 t (timers c), inbox := inbox c @ [payload t]\<rparr>))"
| "timed_exec h external (Take env) c =
    (if \<not> alive c then None
     else (case inbox c of
             [] \<Rightarrow> None
           | m # ms \<Rightarrow> Some (commit (h env (fresh c) m (actor c)) (c\<lparr>inbox := ms\<rparr>))))"

fun timed_run :: "('env, 's, 'm, 'o) timed_handler \<Rightarrow> ('m \<Rightarrow> bool) \<Rightarrow> ('env, 'm) move list
    \<Rightarrow> ('s, 'm, 'o) timed \<Rightarrow> ('s, 'm, 'o) timed option" where
  "timed_run h external [] c = Some c"
| "timed_run h external (a # as) c =
    (case timed_exec h external a c of None \<Rightarrow> None | Some c' \<Rightarrow> timed_run h external as c')"

inductive timed_reachable :: "('env, 's, 'm, 'o) timed_handler \<Rightarrow> ('m \<Rightarrow> bool)
    \<Rightarrow> ('s, 'm, 'o) timed \<Rightarrow> ('s, 'm, 'o) timed \<Rightarrow> bool"
  for h external c0 where
  start: "timed_reachable h external c0 c0"
| move: "timed_reachable h external c0 c \<Longrightarrow> timed_exec h external a c = Some c'
    \<Longrightarrow> timed_reachable h external c0 c'"

lemma timed_run_reachable:
  "timed_reachable h external c0 c \<Longrightarrow> timed_run h external as c = Some c'
    \<Longrightarrow> timed_reachable h external c0 c'"
  by (induction "as" arbitrary: c) (auto split: option.splits intro: timed_reachable.move)

text \<open>Letting time pass.\<close>

definition wait :: "nat \<Rightarrow> ('env, 'm) move list" where
  "wait n = replicate n Tick"

lemma timed_run_wait [simp]:
  "timed_run h external (wait n @ as) c = timed_run h external as (c\<lparr>clock := clock c + n\<rparr>)"
  unfolding wait_def by (induction n arbitrary: c) simp_all

definition timed_init :: "'s \<Rightarrow> ('s, 'm, 'o) timed" where
  "timed_init s = \<lparr>clock = 0, actor = s, timers = [], inbox = [], fresh = 0, alive = True, log = []\<rparr>"

lemma acts_append [simp]: "acts (xs @ ys) = acts xs @ acts ys"
  by (induction xs rule: acts.induct) simp_all

lemma commit_sel [simp]:
  "clock (commit out c) = clock c"
  "actor (commit out c) = state_of out"
  "timers (commit out c) = fold (pool_effect (clock c)) (effects out) (timers c)"
  "inbox (commit out c) = inbox c"
  "fresh (commit out c) = Suc (fresh c)"
  "alive (commit out c) = (\<not> is_err (returned out))"
  "log (commit out c) = log c @ acts (effects out)"
  by (simp_all add: commit_def)

lemma timed_init_sel [simp]:
  "clock (timed_init s) = 0" "actor (timed_init s) = s" "timers (timed_init s) = []"
  "inbox (timed_init s) = []" "fresh (timed_init s) = 0" "alive (timed_init s)"
  "log (timed_init s) = []"
  by (simp_all add: timed_init_def)

section \<open>Invariants of a timed actor\<close>

text \<open>
  A component gives an invariant of its configurations and shows that the four moves keep
  it; it then holds in every reachable configuration.
\<close>

locale timed_invariant =
  fixes h :: "('env, 's, 'm, 'o) timed_handler"
    and external :: "'m \<Rightarrow> bool"
    and Inv :: "('s, 'm, 'o) timed \<Rightarrow> bool"
  assumes inv_tick: "Inv c \<Longrightarrow> Inv (c\<lparr>clock := Suc (clock c)\<rparr>)"
    and inv_arrive: "Inv c \<Longrightarrow> external m \<Longrightarrow> Inv (c\<lparr>inbox := inbox c @ [m]\<rparr>)"
    and inv_fire: "Inv c \<Longrightarrow> t \<in> set (timers c) \<Longrightarrow> due t \<le> clock c
      \<Longrightarrow> Inv (c\<lparr>timers := remove1 t (timers c), inbox := inbox c @ [payload t]\<rparr>)"
    and inv_take: "Inv c \<Longrightarrow> alive c \<Longrightarrow> inbox c = m # ms
      \<Longrightarrow> Inv (commit (h env (fresh c) m (actor c)) (c\<lparr>inbox := ms\<rparr>))"
begin

lemma inv_exec: "Inv c \<Longrightarrow> timed_exec h external a c = Some c' \<Longrightarrow> Inv c'"
proof (cases a)
  case Tick
  then show "Inv c \<Longrightarrow> timed_exec h external a c = Some c' \<Longrightarrow> Inv c'"
    by (auto intro: inv_tick)
next
  case (Arrive m)
  then show "Inv c \<Longrightarrow> timed_exec h external a c = Some c' \<Longrightarrow> Inv c'"
    by (auto intro: inv_arrive split: if_splits)
next
  case (Fire tok)
  then show "Inv c \<Longrightarrow> timed_exec h external a c = Some c' \<Longrightarrow> Inv c'"
    by (auto intro!: inv_fire split: option.splits simp: find_Some_iff)
next
  case (Take env)
  then show "Inv c \<Longrightarrow> timed_exec h external a c = Some c' \<Longrightarrow> Inv c'"
    by (auto intro: inv_take split: list.splits if_splits)
qed

lemma inv_reachable:
  assumes "timed_reachable h external c0 c" and "Inv c0"
  shows "Inv c"
  using assms by (induction rule: timed_reachable.induct) (auto intro: inv_exec)

lemma inv_run: "Inv c \<Longrightarrow> timed_run h external as c = Some c' \<Longrightarrow> Inv c'"
  by (induction "as" arbitrary: c) (auto split: option.splits dest: inv_exec)

end

text \<open>An actor that has failed takes no further message: its state and its log are final.\<close>

lemma dead_is_final:
  assumes "timed_reachable h external c0 c" and "\<not> alive c0"
  shows "\<not> alive c \<and> actor c = actor c0 \<and> log c = log c0"
  using assms
proof (induction rule: timed_reachable.induct)
  case (move c a c')
  then show ?case by (cases a) (auto split: option.splits if_splits)
qed simp

end
