(* ===== verification/Watchdog.thy ===== *)
theory Watchdog
  imports Timers "HOL-Library.Word"
begin

text \<open>
  The watchdog of \<open>src/ractor_actors/src/watchdog/impl.rs\<close> and its front end in
  \<open>watchdog/mod.rs\<close>: an actor that terminates registered actors which do not ping it
  in time.

  A registration holds the actor, its timeout, what to do on a timeout and the join
  handle of a timer; the handle is the token of the timer in \<open>Timers\<close>. Messages and
  supervision events share the inbox. Counters are \<open>usize\<close>, 64-bit words here.
\<close>

section \<open>State and messages\<close>

datatype timeout_strategy = Kill | Stop

definition WATCHDOG_TIMEOUT :: string where
  "WATCHDOG_TIMEOUT = ''watchdog_timeout''"

type_synonym usize = "64 word"

record 'id registration =
  reg_actor :: "'id actor_cell"
  timeout :: nat
  timeout_strategy :: timeout_strategy
  reg_timer :: nat

record 'id watchdog_state =
  subjects :: "('id, 'id registration) hashmap"
  kills :: usize
  stops :: usize

datatype 'id watchdog_msg =
    Register "'id actor_cell" nat timeout_strategy
  | Unregister "'id actor_cell"
  | Ping 'id
  | Timeout 'id
  | Stats

datatype 'id watchdog_input = Msg "'id watchdog_msg" | Supervision "'id supervision_event"

datatype 'id watchdog_act =
    KillActor "'id actor_cell"
  | StopActor "'id actor_cell" string
  | ReplyPing 'id
  | ReplyStats usize

section \<open>The handlers\<close>

definition watchdog_pre_start :: "'id watchdog_state" where
  "watchdog_pre_start = \<lparr>subjects = [], kills = 0, stops = 0\<rparr>"

definition wd_register :: "nat \<Rightarrow> 'id actor_cell \<Rightarrow> nat \<Rightarrow> timeout_strategy \<Rightarrow> 'id watchdog_state
    \<Rightarrow> ('id watchdog_state, ('id watchdog_input, 'id watchdog_act) timed_effect) outcome" where
  "wd_register tok actor_ref period strategy s =
    (let who = get_id actor_ref
     in Outcome
          (s\<lparr>subjects := hm_insert who
               \<lparr>reg_actor = actor_ref, timeout = period, timeout_strategy = strategy,
                reg_timer = tok\<rparr> (subjects s)\<rparr>)
          [SendAfter tok period (Msg (Timeout who))] Ok_unit)"

text \<open>\<open>WatchdogState::unregister\<close>; the cell it returns is not used by its callers.\<close>

definition wd_state_unregister :: "'id actor_cell \<Rightarrow> 'id watchdog_state
    \<Rightarrow> 'id watchdog_state \<times> ('id watchdog_input, 'id watchdog_act) timed_effect list
       \<times> 'id actor_cell option" where
  "wd_state_unregister cell s =
    (s\<lparr>subjects := hm_remove (get_id cell) (subjects s)\<rparr>,
     case map_of (subjects s) (get_id cell) of
       None \<Rightarrow> ([], None)
     | Some r \<Rightarrow> ([Abort (reg_timer r)], Some (reg_actor r)))"

definition wd_unregister :: "'id actor_cell \<Rightarrow> 'id watchdog_state
    \<Rightarrow> ('id watchdog_state, ('id watchdog_input, 'id watchdog_act) timed_effect) outcome" where
  "wd_unregister cell s = (let (s', es, _) = wd_state_unregister cell s in Outcome s' es Ok_unit)"

definition wd_ping :: "nat \<Rightarrow> 'id \<Rightarrow> 'id watchdog_state
    \<Rightarrow> ('id watchdog_state, ('id watchdog_input, 'id watchdog_act) timed_effect) outcome" where
  "wd_ping tok who s =
    (case map_of (subjects s) who of
       Some r \<Rightarrow> Outcome s
         [Abort (reg_timer r), SendAfter tok (timeout r) (Msg (Timeout who)), Act (ReplyPing who)] Ok_unit
     | None \<Rightarrow> Outcome (s\<lparr>subjects := hm_remove who (subjects s)\<rparr>) [] Ok_unit)"

definition wd_timeout :: "'id \<Rightarrow> 'id watchdog_state
    \<Rightarrow> ('id watchdog_state, ('id watchdog_input, 'id watchdog_act) timed_effect) outcome" where
  "wd_timeout who s =
    (let s' = s\<lparr>subjects := hm_remove who (subjects s)\<rparr>
     in case map_of (subjects s) who of
          None \<Rightarrow> Outcome s' [] Ok_unit
        | Some r \<Rightarrow>
            (case timeout_strategy r of
               Kill \<Rightarrow> Outcome (s'\<lparr>kills := kills s' + 1\<rparr>) [Act (KillActor (reg_actor r))] Ok_unit
             | Stop \<Rightarrow> Outcome (s'\<lparr>stops := stops s' + 1\<rparr>)
                 [Act (StopActor (reg_actor r) WATCHDOG_TIMEOUT)] Ok_unit))"

text \<open>The reply port of \<open>Stats\<close> may be closed; then the handler returns the error.\<close>

definition wd_stats :: "unit result \<Rightarrow> 'id watchdog_state
    \<Rightarrow> ('id watchdog_state, ('id watchdog_input, 'id watchdog_act) timed_effect) outcome" where
  "wd_stats sent s = Outcome s [Act (ReplyStats (kills s))] sent"

fun wd_handle_supervisor_evt :: "'id supervision_event \<Rightarrow> 'id watchdog_state
    \<Rightarrow> ('id watchdog_state, ('id watchdog_input, 'id watchdog_act) timed_effect) outcome" where
  "wd_handle_supervisor_evt (ActorTerminated cell _) s = wd_unregister cell s"
| "wd_handle_supervisor_evt (ActorFailed cell _) s = wd_unregister cell s"
| "wd_handle_supervisor_evt _ s = Outcome s [] Ok_unit"

fun handle_watchdog :: "(unit result, 'id watchdog_state, 'id watchdog_input, 'id watchdog_act) timed_handler"
  where
  "handle_watchdog sent tok (Msg (Register actor_ref period strategy)) s =
    wd_register tok actor_ref period strategy s"
| "handle_watchdog sent tok (Msg (Unregister cell)) s = wd_unregister cell s"
| "handle_watchdog sent tok (Msg (Ping who)) s = wd_ping tok who s"
| "handle_watchdog sent tok (Msg (Timeout who)) s = wd_timeout who s"
| "handle_watchdog sent tok (Msg Stats) s = wd_stats sent s"
| "handle_watchdog sent tok (Supervision evt) s = wd_handle_supervisor_evt evt s"

text \<open>
  The message type is private to the crate and the front end sends no \<open>Timeout\<close>: a
  timeout comes from a timer only.
\<close>

fun wd_external :: "'id watchdog_input \<Rightarrow> bool" where
  "wd_external (Msg (Timeout _)) = False"
| "wd_external _ = True"

lemmas wd_handler_defs = wd_register_def wd_unregister_def wd_state_unregister_def wd_ping_def
  wd_timeout_def wd_stats_def

section \<open>The front end\<close>

text \<open>
  \<open>WATCHDOG.get_or_init(spawn)\<close> gives the same result at every call: the watchdog, or the
  error of its only spawn. \<open>cast\<close> and \<open>call\<close> of the runtime are arguments; the payload of
  their errors is dropped.
\<close>

datatype messaging_err = SendErr

datatype 'r call_result = Success 'r | CallTimeout | SenderError

definition wd_spawn :: "fault + ('ref \<times> 'handle) \<Rightarrow> 'ref result" where
  "wd_spawn spawned = (case spawned of Inl e \<Rightarrow> Inl e | Inr (watchdog, _) \<Rightarrow> Inr watchdog)"

definition wd_cast :: "'ref result \<Rightarrow> ('ref \<Rightarrow> 'msg \<Rightarrow> 'e + unit) \<Rightarrow> 'msg \<Rightarrow> messaging_err + unit" where
  "wd_cast cell send msg =
    (case cell of
       Inr watchdog \<Rightarrow> (case send watchdog msg of Inl _ \<Rightarrow> Inl SendErr | Inr u \<Rightarrow> Inr u)
     | Inl _ \<Rightarrow> Inl SendErr)"

definition wd_call :: "'ref result \<Rightarrow> ('ref \<Rightarrow> 'msg \<Rightarrow> 'e + 'r call_result) \<Rightarrow> 'msg
    \<Rightarrow> messaging_err + 'r" where
  "wd_call cell send msg =
    (case cell of
       Inr watchdog \<Rightarrow>
         (case send watchdog msg of
            Inl _ \<Rightarrow> Inl SendErr
          | Inr (Success result) \<Rightarrow> Inr result
          | Inr _ \<Rightarrow> Inl SendErr)
     | Inl _ \<Rightarrow> Inl SendErr)"

definition watchdog_register where
  "watchdog_register cell send actor_ref duration strategy =
    wd_cast cell send (Register actor_ref duration strategy)"

definition watchdog_unregister where
  "watchdog_unregister cell send actor_ref = wd_cast cell send (Unregister actor_ref)"

definition watchdog_ping where
  "watchdog_ping cell send who = wd_call cell send (Ping who)"

definition watchdog_stats where
  "watchdog_stats cell send = wd_call cell send Stats"

section \<open>The table of subjects\<close>

interpretation wd_table: registry
  "\<lambda>s. map_of (subjects s)"
  "\<lambda>k r s. s\<lparr>subjects := hm_insert k r (subjects s)\<rparr>"
  "\<lambda>k s. fst (wd_state_unregister \<lparr>get_id = k, get_name = None\<rparr> s)"
  "\<lambda>s. map fst (subjects s)"
  "\<lambda>s. hm_ok (subjects s)"
  by unfold_locales
    (auto simp: wd_state_unregister_def hm_simps hm_ok_def dom_map_of_conv_image_fst
      intro: hm_ok_insert [unfolded hm_ok_def] hm_ok_remove [unfolded hm_ok_def])

text \<open>Keys are the ids of the registered actors, and tables have one entry per key.\<close>

definition watchdog_wf :: "'id watchdog_state \<Rightarrow> bool" where
  "watchdog_wf s \<longleftrightarrow> hm_ok (subjects s)
     \<and> (\<forall>who r. map_of (subjects s) who = Some r \<longrightarrow> get_id (reg_actor r) = who)"

lemma handle_watchdog_wf:
  "watchdog_wf s \<Longrightarrow> watchdog_wf (state_of (handle_watchdog sent tok m s))"
  by (cases "(sent, tok, m, s)" rule: handle_watchdog.cases;
      cases "(case m of Supervision e \<Rightarrow> e | _ \<Rightarrow> OtherSupervisionEvent, s)" rule: wd_handle_supervisor_evt.cases)
    (auto simp: watchdog_wf_def wd_handler_defs hm_simps Let_def
      split: option.splits timeout_strategy.splits)

section \<open>The invariant of the running watchdog\<close>

text \<open>
  Configurations of the watchdog. Every timer carries a timeout; the timer a registration
  points to, if it is still pending, is a timer of that registration's actor; and every
  registered actor has a timer pending or a timeout waiting in the inbox.
\<close>

type_synonym 'id watchdog_config = "('id watchdog_state, 'id watchdog_input, 'id watchdog_act) timed"

definition covered :: "'id \<Rightarrow> 'id watchdog_config \<Rightarrow> bool" where
  "covered who c \<longleftrightarrow>
     (\<exists>t \<in> set (timers c). payload t = Msg (Timeout who)) \<or> Msg (Timeout who) \<in> set (inbox c)"

definition timers_wf :: "'id watchdog_config \<Rightarrow> bool" where
  "timers_wf c \<longleftrightarrow>
     (\<forall>t \<in> set (timers c). token t < fresh c \<and> (\<exists>who. payload t = Msg (Timeout who)))"

definition handles_wf :: "'id watchdog_config \<Rightarrow> bool" where
  "handles_wf c \<longleftrightarrow>
     (\<forall>who r. map_of (subjects (actor c)) who = Some r \<longrightarrow>
        reg_timer r < fresh c
        \<and> (\<forall>t \<in> set (timers c). token t = reg_timer r \<longrightarrow> payload t = Msg (Timeout who)))"

definition all_covered :: "'id watchdog_config \<Rightarrow> bool" where
  "all_covered c \<longleftrightarrow> (\<forall>who. map_of (subjects (actor c)) who \<noteq> None \<longrightarrow> covered who c)"

definition wd_inv :: "'id watchdog_config \<Rightarrow> bool" where
  "wd_inv c \<longleftrightarrow> watchdog_wf (actor c) \<and> timers_wf c \<and> handles_wf c \<and> all_covered c"

lemma pool_fold_subset:
  "t \<in> set (fold (pool_effect now) es pool) \<Longrightarrow>
     t \<in> set pool \<or> (\<exists>tok delay m. SendAfter tok delay m \<in> set es
       \<and> t = \<lparr>token = tok, due = now + delay, payload = m\<rparr>)"
proof (induction es arbitrary: pool)
  case (Cons e es)
  then show ?case by (cases e) fastforce+
qed simp

text \<open>The shape of what a handler asks of the timers, one equation per message.\<close>

lemma wd_pool [simp]:
  "fold (pool_effect now) (effects (wd_register tok a d k s)) pool =
     pool @ [\<lparr>token = tok, due = now + d, payload = Msg (Timeout (get_id a))\<rparr>]"
  "fold (pool_effect now) (effects (wd_ping tok who s)) pool =
     (case map_of (subjects s) who of None \<Rightarrow> pool
      | Some r \<Rightarrow> filter (\<lambda>t. token t \<noteq> reg_timer r) pool
          @ [\<lparr>token = tok, due = now + timeout r, payload = Msg (Timeout who)\<rparr>])"
  "fold (pool_effect now) (effects (wd_unregister a s)) pool =
     (case map_of (subjects s) (get_id a) of None \<Rightarrow> pool
      | Some r \<Rightarrow> filter (\<lambda>t. token t \<noteq> reg_timer r) pool)"
  "fold (pool_effect now) (effects (wd_timeout who s)) pool = pool"
  "fold (pool_effect now) (effects (wd_stats sent s)) pool = pool"
  by (auto simp: wd_handler_defs Let_def split: option.splits timeout_strategy.splits)

text \<open>A supervision event either does nothing or acts as the message \<open>Unregister\<close>.\<close>

lemma sup_as_unregister:
  "(\<exists>cell. handle_watchdog sent tok (Supervision evt) s = handle_watchdog sent tok (Msg (Unregister cell)) s)
   \<or> handle_watchdog sent tok (Supervision evt) s = Outcome s [] Ok_unit"
  by (cases evt) auto

lemma wd_subjects [simp]:
  "map_of (subjects (state_of (wd_register tok a d k s))) =
     (map_of (subjects s))(get_id a \<mapsto>
       \<lparr>reg_actor = a, timeout = d, timeout_strategy = k, reg_timer = tok\<rparr>)"
  "map_of (subjects (state_of (wd_ping tok who s))) = map_of (subjects s)"
  "map_of (subjects (state_of (wd_unregister a s))) = (map_of (subjects s))(get_id a := None)"
  "map_of (subjects (state_of (wd_timeout who s))) = (map_of (subjects s))(who := None)"
  "map_of (subjects (state_of (wd_stats sent s))) = map_of (subjects s)"
  by (auto simp: wd_handler_defs hm_simps Let_def fun_eq_iff split: option.splits timeout_strategy.splits)

lemma wd_inv_init: "wd_inv (timed_init watchdog_pre_start)"
  by (simp add: wd_inv_def watchdog_pre_start_def watchdog_wf_def timers_wf_def handles_wf_def
      all_covered_def)

lemma wd_inv_take_msg:
  assumes inv: "wd_inv c" and inbox: "inbox c = Msg m # ms"
  shows "wd_inv (commit (handle_watchdog sent (fresh c) (Msg m) (actor c)) (c\<lparr>inbox := ms\<rparr>))"
    (is "wd_inv (commit ?out ?c)")
proof -
  have wf: "watchdog_wf (state_of ?out)"
    using inv by (simp add: wd_inv_def handle_watchdog_wf)
  have t: "timers_wf (commit ?out ?c)"
    using inv unfolding wd_inv_def timers_wf_def
    by (cases m) (auto split: option.splits intro: less_SucI)
  have h: "handles_wf (commit ?out ?c)"
    using inv unfolding wd_inv_def timers_wf_def handles_wf_def
    by (cases m, auto split: option.splits if_splits intro: less_SucI) (metis less_irrefl)+
  have "all_covered (commit ?out ?c)"
    using inv inbox unfolding wd_inv_def all_covered_def handles_wf_def covered_def
    by (cases m, auto split: option.splits if_splits)
      (metis watchdog_input.inject(1) watchdog_msg.inject(4))+
  with wf t h show ?thesis by (simp add: wd_inv_def)
qed

lemma wd_inv_idle:
  "wd_inv c \<Longrightarrow> wd_inv (commit (Outcome (actor c) [] r) c)"
  by (auto simp: wd_inv_def timers_wf_def handles_wf_def all_covered_def covered_def less_SucI)

lemma wd_inv_take:
  assumes inv: "wd_inv c" and inbox: "inbox c = m # ms"
  shows "wd_inv (commit (handle_watchdog sent (fresh c) m (actor c)) (c\<lparr>inbox := ms\<rparr>))"
proof (cases m)
  case (Msg msg)
  then show ?thesis using wd_inv_take_msg [OF inv] inbox by simp
next
  case (Supervision evt)
  have inv': "wd_inv (c\<lparr>inbox := Msg Stats # ms\<rparr>)" and inv'': "wd_inv (c\<lparr>inbox := ms\<rparr>)"
    using inv inbox Supervision
    by (auto simp: wd_inv_def timers_wf_def handles_wf_def all_covered_def covered_def)
  have unreg: "wd_inv (commit (handle_watchdog sent (fresh c) (Msg (Unregister cell)) (actor c))
      (c\<lparr>inbox := ms\<rparr>))" for cell
  proof -
    have "wd_inv (c\<lparr>inbox := Msg (Unregister cell) # ms\<rparr>)"
      using inv' by (auto simp: wd_inv_def timers_wf_def handles_wf_def all_covered_def covered_def)
    from wd_inv_take_msg [OF this, of "Unregister cell" ms sent] show ?thesis by simp
  qed
  show ?thesis
    using sup_as_unregister [of sent "fresh c" evt "actor c"]
  proof
    assume "\<exists>cell. handle_watchdog sent (fresh c) (Supervision evt) (actor c)
        = handle_watchdog sent (fresh c) (Msg (Unregister cell)) (actor c)"
    then show ?thesis using unreg Supervision by metis
  next
    assume "handle_watchdog sent (fresh c) (Supervision evt) (actor c) = Outcome (actor c) [] Ok_unit"
    then show ?thesis using wd_inv_idle [OF inv''] Supervision by simp
  qed
qed

interpretation wd: timed_invariant handle_watchdog wd_external wd_inv
proof unfold_locales
  fix c :: "'id watchdog_config" and m t ms sent
  show "wd_inv c \<Longrightarrow> wd_inv (c\<lparr>clock := Suc (clock c)\<rparr>)"
    by (simp add: wd_inv_def timers_wf_def handles_wf_def all_covered_def covered_def)
  show "wd_inv c \<Longrightarrow> wd_external m \<Longrightarrow> wd_inv (c\<lparr>inbox := inbox c @ [m]\<rparr>)"
    by (auto simp: wd_inv_def timers_wf_def handles_wf_def all_covered_def covered_def)
  show "wd_inv c \<Longrightarrow> t \<in> set (timers c) \<Longrightarrow> due t \<le> clock c
      \<Longrightarrow> wd_inv (c\<lparr>timers := remove1 t (timers c), inbox := inbox c @ [payload t]\<rparr>)"
    unfolding wd_inv_def timers_wf_def handles_wf_def all_covered_def covered_def
    by (auto dest: notin_set_remove1 [rotated] set_remove1_subset [THEN subsetD])
      (metis in_set_remove1)+
  show "wd_inv c \<Longrightarrow> alive c \<Longrightarrow> inbox c = m # ms
      \<Longrightarrow> wd_inv (commit (handle_watchdog sent (fresh c) m (actor c)) (c\<lparr>inbox := ms\<rparr>))"
    by (rule wd_inv_take)
qed

section \<open>The log of terminations\<close>

fun terminates :: "'id \<Rightarrow> 'id watchdog_act \<Rightarrow> bool" where
  "terminates who (KillActor cell) = (get_id cell = who)"
| "terminates who (StopActor cell _) = (get_id cell = who)"
| "terminates who _ = False"

fun is_kill :: "'id watchdog_act \<Rightarrow> bool" where
  "is_kill (KillActor _) = True"
| "is_kill _ = False"

fun is_stop :: "'id watchdog_act \<Rightarrow> bool" where
  "is_stop (StopActor _ _) = True"
| "is_stop _ = False"

definition terminations :: "'id \<Rightarrow> 'id watchdog_act list \<Rightarrow> 'id watchdog_act list" where
  "terminations who l = filter (terminates who) l"

fun registers :: "'id \<Rightarrow> 'id watchdog_input \<Rightarrow> bool" where
  "registers who (Msg (Register a _ _)) = (get_id a = who)"
| "registers who _ = False"

lemma wd_acts [simp]:
  "acts (effects (wd_register tok a d k s)) = []"
  "acts (effects (wd_unregister a s)) = []"
  "acts (effects (wd_ping tok who s)) =
     (if map_of (subjects s) who = None then [] else [ReplyPing who])"
  "acts (effects (wd_timeout who s)) =
     (case map_of (subjects s) who of None \<Rightarrow> []
      | Some r \<Rightarrow> (case timeout_strategy r of Kill \<Rightarrow> [KillActor (reg_actor r)]
                  | Stop \<Rightarrow> [StopActor (reg_actor r) WATCHDOG_TIMEOUT]))"
  "acts (effects (wd_stats sent s)) = [ReplyStats (kills s)]"
  by (auto simp: wd_handler_defs Let_def split: option.splits timeout_strategy.splits)

lemma wd_sup_acts [simp]: "acts (effects (wd_handle_supervisor_evt evt s)) = []"
  by (cases evt) simp_all

lemma wd_sup_pool:
  "set (fold (pool_effect now) (effects (wd_handle_supervisor_evt evt s)) pool) \<subseteq> set pool"
  by (cases evt) (auto split: option.splits)

lemma wd_sup_subjects:
  "map_of (subjects (state_of (wd_handle_supervisor_evt evt s))) k = Some r \<Longrightarrow>
     map_of (subjects s) k = Some r"
  by (cases evt) (auto split: if_splits)

lemma wd_sup_subjects_None:
  "map_of (subjects s) k = None \<Longrightarrow> map_of (subjects (state_of (wd_handle_supervisor_evt evt s))) k = None"
  by (cases evt) simp_all

subsection \<open>An actor that is not registered\<close>

text \<open>
  From the point of view of one actor: it is not registered, no registration of it is on
  the way, and it has been terminated as often as before.
\<close>

definition unregistered_inv :: "'id \<Rightarrow> 'id watchdog_act list \<Rightarrow> 'id watchdog_config \<Rightarrow> bool" where
  "unregistered_inv who past c \<longleftrightarrow>
     watchdog_wf (actor c) \<and> timers_wf c
     \<and> map_of (subjects (actor c)) who = None
     \<and> (\<forall>m \<in> set (inbox c). \<not> registers who m)
     \<and> terminations who (log c) = past"

lemma timers_wf_take:
  "timers_wf c \<Longrightarrow> timers_wf (commit (handle_watchdog sent (fresh c) m (actor c)) (c\<lparr>inbox := ms\<rparr>))"
  unfolding timers_wf_def
  by (cases "(sent, fresh c, m, actor c)" rule: handle_watchdog.cases)
    (auto split: option.splits intro: less_SucI dest: wd_sup_pool [THEN subsetD])

lemma unregistered_inv_take:
  assumes inv: "unregistered_inv who past c" and inbox: "inbox c = m # ms"
  shows "unregistered_inv who past
    (commit (handle_watchdog sent (fresh c) m (actor c)) (c\<lparr>inbox := ms\<rparr>))"
proof -
  have "map_of (subjects (state_of (handle_watchdog sent (fresh c) m (actor c)))) who = None"
    using inv inbox unfolding unregistered_inv_def
    by (cases "(sent, fresh c, m, actor c)" rule: handle_watchdog.cases)
      (auto simp: wd_sup_subjects_None)
  moreover have "terminations who (acts (effects (handle_watchdog sent (fresh c) m (actor c)))) = []"
    using inv unfolding unregistered_inv_def watchdog_wf_def terminations_def
    by (cases "(sent, fresh c, m, actor c)" rule: handle_watchdog.cases)
      (auto split: option.splits timeout_strategy.splits)
  ultimately show ?thesis
    using inv inbox
    by (simp add: unregistered_inv_def handle_watchdog_wf timers_wf_take terminations_def)
qed

interpretation unreg: timed_invariant handle_watchdog "\<lambda>m. wd_external m \<and> \<not> registers who m"
  "unregistered_inv who past" for who past
proof unfold_locales
  fix c :: "'a watchdog_config" and t :: "'a watchdog_input timer"
  show "unregistered_inv who past c \<Longrightarrow> t \<in> set (timers c) \<Longrightarrow> due t \<le> clock c
      \<Longrightarrow> unregistered_inv who past (c\<lparr>timers := remove1 t (timers c), inbox := inbox c @ [payload t]\<rparr>)"
    by (auto simp: unregistered_inv_def timers_wf_def dest: set_remove1_subset [THEN subsetD])
qed (auto simp: unregistered_inv_take, auto simp: unregistered_inv_def timers_wf_def)

subsection \<open>Not before its timeout\<close>

text \<open>
  \<open>since\<close> is a time at which the actor was unknown to the watchdog, \<open>d\<close> a lower bound of
  the timeouts it is registered with. Nothing terminates it before \<open>since + d\<close>.
\<close>

fun registers_below :: "'id \<Rightarrow> nat \<Rightarrow> 'id watchdog_input \<Rightarrow> bool" where
  "registers_below who d (Msg (Register a d' _)) = (get_id a = who \<and> d' < d)"
| "registers_below who d _ = False"

definition not_early_inv :: "'id \<Rightarrow> nat \<Rightarrow> nat \<Rightarrow> 'id watchdog_act list \<Rightarrow> 'id watchdog_config \<Rightarrow> bool" where
  "not_early_inv who since d past c \<longleftrightarrow>
     watchdog_wf (actor c) \<and> timers_wf c \<and> since \<le> clock c
     \<and> (\<forall>r. map_of (subjects (actor c)) who = Some r \<longrightarrow> d \<le> timeout r)
     \<and> (\<forall>t \<in> set (timers c). payload t = Msg (Timeout who) \<longrightarrow> since + d \<le> due t)
     \<and> (\<forall>m \<in> set (inbox c). \<not> registers_below who d m
          \<and> (m = Msg (Timeout who) \<longrightarrow> since + d \<le> clock c))
     \<and> (terminations who (log c) \<noteq> past \<longrightarrow> since + d \<le> clock c)"

lemma not_early_take:
  assumes inv: "not_early_inv who since d past c" and inbox: "inbox c = m # ms"
  shows "not_early_inv who since d past
    (commit (handle_watchdog sent (fresh c) m (actor c)) (c\<lparr>inbox := ms\<rparr>))"
    (is "not_early_inv _ _ _ _ (commit ?out ?c)")
proof -
  have subj: "map_of (subjects (state_of ?out)) who = Some r \<Longrightarrow> d \<le> timeout r" for r
    using inv inbox unfolding not_early_inv_def
    by (cases "(sent, fresh c, m, actor c)" rule: handle_watchdog.cases)
      (auto dest: wd_sup_subjects split: if_splits)
  have pool: "t \<in> set (timers (commit ?out ?c)) \<Longrightarrow> payload t = Msg (Timeout who)
      \<Longrightarrow> since + d \<le> due t" for t
    using inv inbox unfolding not_early_inv_def
    by (cases "(sent, fresh c, m, actor c)" rule: handle_watchdog.cases)
      (auto split: option.splits if_splits dest: wd_sup_pool [THEN subsetD])
  have acts: "terminations who (acts (effects ?out)) \<noteq> [] \<Longrightarrow> since + d \<le> clock c"
    using inv inbox unfolding not_early_inv_def watchdog_wf_def terminations_def
    by (cases "(sent, fresh c, m, actor c)" rule: handle_watchdog.cases)
      (auto split: option.splits timeout_strategy.splits if_splits)
  show ?thesis
    using inv inbox subj pool acts
    by (auto simp: not_early_inv_def handle_watchdog_wf timers_wf_take terminations_def)
qed

interpretation not_early: timed_invariant handle_watchdog
  "\<lambda>m. wd_external m \<and> \<not> registers_below who d m" "not_early_inv who since d past"
  for who since d past
proof unfold_locales
  fix c :: "'a watchdog_config" and t :: "'a watchdog_input timer"
  assume inv: "not_early_inv who since d past c" and t: "t \<in> set (timers c)" "due t \<le> clock c"
  then obtain w where w: "payload t = Msg (Timeout w)"
    by (auto simp: not_early_inv_def timers_wf_def)
  have sub: "\<And>t'. t' \<in> set (remove1 t (timers c)) \<Longrightarrow> t' \<in> set (timers c)"
    by (rule set_remove1_subset [THEN subsetD])
  have "w = who \<longrightarrow> since + d \<le> clock c"
    using inv t w by (force simp: not_early_inv_def)
  then show "not_early_inv who since d past
      (c\<lparr>timers := remove1 t (timers c), inbox := inbox c @ [payload t]\<rparr>)"
    using inv sub w by (auto simp: not_early_inv_def timers_wf_def)
next
  fix c :: "'a watchdog_config" and m
  assume "not_early_inv who since d past c" "wd_external m \<and> \<not> registers_below who d m"
  then show "not_early_inv who since d past (c\<lparr>inbox := inbox c @ [m]\<rparr>)"
    by (auto simp: not_early_inv_def timers_wf_def)
qed (simp_all add: not_early_take, auto simp: not_early_inv_def timers_wf_def intro: le_SucI)

subsection \<open>The counters\<close>

definition counters_inv :: "'id watchdog_config \<Rightarrow> bool" where
  "counters_inv c \<longleftrightarrow>
     kills (actor c) = of_nat (length (filter is_kill (log c)))
     \<and> stops (actor c) = of_nat (length (filter is_stop (log c)))"

lemma counters_take:
  "counters_inv c \<Longrightarrow>
     counters_inv (commit (handle_watchdog sent (fresh c) m (actor c)) (c\<lparr>inbox := ms\<rparr>))"
  by (cases "(sent, fresh c, m, actor c)" rule: handle_watchdog.cases;
      cases "(case m of Supervision e \<Rightarrow> e | _ \<Rightarrow> OtherSupervisionEvent, actor c)"
        rule: wd_handle_supervisor_evt.cases)
    (auto simp: counters_inv_def wd_handler_defs Let_def split: option.splits timeout_strategy.splits)

interpretation counters: timed_invariant handle_watchdog wd_external counters_inv
  by unfold_locales (auto simp: counters_take, auto simp: counters_inv_def)

subsection \<open>Timers of pings\<close>

text \<open>
  The handler of \<open>Ping\<close> aborts the timer of the registration and starts another, whose
  handle it does not keep: the registration still points to the aborted one. The timers
  of the pings are those of the actor that its registration does not point to.
\<close>

definition ping_timers :: "'id \<Rightarrow> 'id registration \<Rightarrow> 'id watchdog_config \<Rightarrow> 'id watchdog_input timer list"
  where
  "ping_timers who r c =
    filter (\<lambda>t. payload t = Msg (Timeout who) \<and> token t \<noteq> reg_timer r) (timers c)"

text \<open>The watchdog takes a ping of \<open>who\<close>, and pings after the given delays.\<close>

definition take_ping :: "'id \<Rightarrow> 'id watchdog_config \<Rightarrow> 'id watchdog_config" where
  "take_ping who c = commit (handle_watchdog Ok_unit (fresh c) (Msg (Ping who)) (actor c)) c"

fun take_pings :: "'id \<Rightarrow> nat list \<Rightarrow> 'id watchdog_config \<Rightarrow> 'id watchdog_config" where
  "take_pings who [] c = c"
| "take_pings who (k # ks) c = take_pings who ks (take_ping who (c\<lparr>clock := clock c + k\<rparr>))"

fun ping_dues :: "nat \<Rightarrow> nat \<Rightarrow> nat list \<Rightarrow> nat list" where
  "ping_dues now d [] = []"
| "ping_dues now d (k # ks) = (now + k + d) # ping_dues (now + k) d ks"

lemma take_ping_registered:
  assumes "wd_inv c" and "map_of (subjects (actor c)) who = Some r"
  shows "wd_inv (take_ping who c)
    \<and> map_of (subjects (actor (take_ping who c))) who = Some r
    \<and> clock (take_ping who c) = clock c
    \<and> ping_timers who r (take_ping who c) = ping_timers who r c
        @ [\<lparr>token = fresh c, due = clock c + timeout r, payload = Msg (Timeout who)\<rparr>]"
proof -
  let ?c = "c\<lparr>inbox := Msg (Ping who) # inbox c\<rparr>"
  have "wd_inv ?c"
    using assms by (auto simp: wd_inv_def timers_wf_def handles_wf_def all_covered_def covered_def)
  from wd_inv_take [OF this, of "Msg (Ping who)" "inbox c" Ok_unit]
  have "wd_inv (take_ping who c)" by (simp add: take_ping_def)
  moreover have "reg_timer r \<noteq> fresh c"
    using assms unfolding wd_inv_def handles_wf_def by (metis less_irrefl)
  ultimately show ?thesis
    using assms by (simp add: take_ping_def ping_timers_def conj_comms)
qed

lemma take_pings_timers:
  assumes "wd_inv c" and "map_of (subjects (actor c)) who = Some r"
  shows "map_of (subjects (actor (take_pings who ks c))) who = Some r
    \<and> map due (ping_timers who r (take_pings who ks c))
      = map due (ping_timers who r c) @ ping_dues (clock c) (timeout r) ks"
  using assms
proof (induction ks arbitrary: c)
  case Nil
  then show ?case by simp
next
  case (Cons k ks)
  let ?c = "c\<lparr>clock := clock c + k\<rparr>"
  have inv: "wd_inv ?c" and reg: "map_of (subjects (actor ?c)) who = Some r"
    using Cons.prems
    by (simp_all add: wd_inv_def timers_wf_def handles_wf_def all_covered_def covered_def)
  have frame: "ping_timers who r ?c = ping_timers who r c"
    by (simp add: ping_timers_def)
  show ?case
    using take_ping_registered [OF inv reg] Cons.IH [of "take_ping who ?c"] frame by simp
qed

section \<open>Properties\<close>

abbreviation watchdog_reachable :: "'id watchdog_config \<Rightarrow> bool" where
  "watchdog_reachable \<equiv> timed_reachable handle_watchdog wd_external (timed_init watchdog_pre_start)"

lemma watchdog_reachable_inv: "watchdog_reachable c \<Longrightarrow> wd_inv c"
  by (erule wd.inv_reachable) (rule wd_inv_init)

text \<open>
  C4. No registered actor is forgotten: in every reachable configuration, every registered
  actor has a timer pending that will send its timeout, or the timeout is already in the
  inbox; pings, re-registrations and the end of other actors never lose it.
\<close>

theorem registered_actor_has_a_timeout:
  assumes "watchdog_reachable c" and "map_of (subjects (actor c)) who = Some r"
  shows "covered who c"
  using watchdog_reachable_inv [OF assms(1)] assms(2) by (simp add: wd_inv_def all_covered_def)

theorem registered_actor_has_a_timeout_witness:
  "\<exists>c. timed_run handle_watchdog wd_external
        [Arrive (Msg (Register \<lparr>get_id = 1::nat, get_name = None\<rparr> 10 Kill)), Take Ok_unit, Tick,
         Arrive (Msg (Ping 1)), Take Ok_unit] (timed_init watchdog_pre_start) = Some c
     \<and> covered 1 c"
proof -
  let ?moves = "[Arrive (Msg (Register \<lparr>get_id = 1::nat, get_name = None\<rparr> 10 Kill)), Take Ok_unit, Tick,
         Arrive (Msg (Ping 1)), Take Ok_unit]"
  obtain c where c: "timed_run handle_watchdog wd_external ?moves (timed_init watchdog_pre_start) = Some c"
      "map_of (subjects (actor c)) 1 = Some \<lparr>reg_actor = \<lparr>get_id = 1, get_name = None\<rparr>,
         timeout = 10, timeout_strategy = Kill, reg_timer = 0\<rparr>"
    by (simp add: timed_init_def watchdog_pre_start_def wd_handler_defs commit_def hm_insert_def)
  have "watchdog_reachable c"
    by (rule timed_run_reachable [OF timed_reachable.start c(1)])
  from registered_actor_has_a_timeout [OF this c(2)] c(1) show ?thesis by blast
qed

text \<open>
  C17. Nobody is terminated early: from a configuration in which the watchdog knows nothing of
  an actor, if the actor is only ever registered with timeouts of at least \<open>d\<close>, the
  watchdog does not terminate it until \<open>d\<close> has passed.
\<close>

theorem not_terminated_before_timeout:
  assumes "watchdog_reachable c0"
    and "map_of (subjects (actor c0)) who = None" and "\<not> covered who c0"
    and "\<forall>m \<in> set (inbox c0). \<not> registers_below who d m"
    and "timed_reachable handle_watchdog (\<lambda>m. wd_external m \<and> \<not> registers_below who d m) c0 c"
    and "clock c < clock c0 + d"
  shows "terminations who (log c) = terminations who (log c0)"
proof -
  have "not_early_inv who (clock c0) d (terminations who (log c0)) c0"
    using watchdog_reachable_inv [OF assms(1)] assms(2-4)
    by (auto simp: not_early_inv_def wd_inv_def covered_def)
  from not_early.inv_reachable [OF assms(5) this] assms(6) show ?thesis
    by (simp add: not_early_inv_def)
qed

theorem not_terminated_before_timeout_witness:
  "\<exists>c. timed_run handle_watchdog (\<lambda>m. wd_external m \<and> \<not> registers_below (1::nat) 3 m)
        [Arrive (Msg (Register \<lparr>get_id = 1::nat, get_name = None\<rparr> 3 Kill)), Take Ok_unit, Tick, Tick]
        (timed_init watchdog_pre_start) = Some c
     \<and> terminations 1 (log c) = []"
proof -
  let ?moves = "[Arrive (Msg (Register \<lparr>get_id = 1::nat, get_name = None\<rparr> 3 Kill)), Take Ok_unit, Tick, Tick]"
  let ?c0 = "timed_init watchdog_pre_start :: nat watchdog_config"
  obtain c where c: "timed_run handle_watchdog (\<lambda>m. wd_external m \<and> \<not> registers_below (1::nat) 3 m)
      ?moves ?c0 = Some c" "clock c = 2"
    by (simp add: timed_init_def watchdog_pre_start_def wd_handler_defs commit_def hm_insert_def)
  have "terminations 1 (log c) = terminations 1 (log ?c0)"
    by (rule not_terminated_before_timeout [OF timed_reachable.start _ _ _
          timed_run_reachable [OF timed_reachable.start c(1)]])
      (simp_all add: watchdog_pre_start_def covered_def c(2))
  then show ?thesis using c(1) by (simp add: terminations_def)
qed

text \<open>
  C18. An actor that is not registered is safe: whatever timers are still pending for it, and
  whatever happens to the other actors, the watchdog does not terminate it as long as no
  new registration of it arrives.
\<close>

theorem unregistered_actor_is_safe:
  assumes "watchdog_reachable c0" and "map_of (subjects (actor c0)) who = None"
    and "\<forall>m \<in> set (inbox c0). \<not> registers who m"
    and "timed_reachable handle_watchdog (\<lambda>m. wd_external m \<and> \<not> registers who m) c0 c"
  shows "terminations who (log c) = terminations who (log c0)"
proof -
  have "unregistered_inv who (terminations who (log c0)) c0"
    using watchdog_reachable_inv [OF assms(1)] assms(2,3)
    by (simp add: unregistered_inv_def wd_inv_def)
  from unreg.inv_reachable [OF assms(4) this] show ?thesis
    by (simp add: unregistered_inv_def)
qed

theorem unregistered_actor_is_safe_witness:
  "\<exists>c0 c. timed_run handle_watchdog wd_external
        [Arrive (Msg (Register \<lparr>get_id = 1::nat, get_name = None\<rparr> 2 Kill)), Take Ok_unit,
         Arrive (Msg (Ping 1)), Take Ok_unit,
         Arrive (Msg (Unregister \<lparr>get_id = 1, get_name = None\<rparr>)), Take Ok_unit]
        (timed_init watchdog_pre_start) = Some c0
     \<and> timed_run handle_watchdog (\<lambda>m. wd_external m \<and> \<not> registers 1 m)
        [Tick, Tick, Fire 1, Take Ok_unit] c0 = Some c
     \<and> terminations 1 (log c) = []"
proof -
  let ?moves = "[Arrive (Msg (Register \<lparr>get_id = 1::nat, get_name = None\<rparr> 2 Kill)), Take Ok_unit,
         Arrive (Msg (Ping 1)), Take Ok_unit,
         Arrive (Msg (Unregister \<lparr>get_id = 1, get_name = None\<rparr>)), Take Ok_unit]"
  obtain c0 where c0: "timed_run handle_watchdog wd_external ?moves (timed_init watchdog_pre_start) = Some c0"
    and c0': "c0 = \<lparr>clock = 0, actor = watchdog_pre_start,
      timers = [\<lparr>token = 1, due = 2, payload = Msg (Timeout 1)\<rparr>], inbox = [], fresh = 3,
      alive = True, log = [ReplyPing 1]\<rparr>"
    by (simp add: timed_init_def watchdog_pre_start_def wd_handler_defs commit_def hm_insert_def
        hm_remove_def)
  obtain c where c: "timed_run handle_watchdog (\<lambda>m. wd_external m \<and> \<not> registers 1 m)
      [Tick, Tick, Fire 1, Take Ok_unit] c0 = Some c"
    by (simp add: c0' watchdog_pre_start_def wd_handler_defs commit_def hm_remove_def)
  have "terminations 1 (log c) = terminations 1 (log c0)"
    by (rule unregistered_actor_is_safe [OF timed_run_reachable [OF timed_reachable.start c0] _ _
          timed_run_reachable [OF timed_reachable.start c]])
      (simp_all add: c0' watchdog_pre_start_def)
  then show ?thesis using c0 c by (auto simp: c0' terminations_def)
qed

text \<open>
  A ping does not cancel the timers of earlier pings. The registration keeps pointing to
  the timer it was made with, so \<open>n\<close> pings leave \<open>n\<close> timers pending, each due one timeout
  after its ping: the first of them fires one timeout after the first ping.
\<close>

theorem pings_accumulate_timers:
  assumes "watchdog_reachable c" and "map_of (subjects (actor c)) who = Some r"
    and "ping_timers who r c = []"
  shows "map due (ping_timers who r (take_pings who ks c)) = ping_dues (clock c) (timeout r) ks
    \<and> map_of (subjects (actor (take_pings who ks c))) who = Some r"
  using take_pings_timers [OF watchdog_reachable_inv [OF assms(1)] assms(2)] assms(3) by simp

theorem pings_accumulate_timers_witness:
  "\<exists>c r. timed_run handle_watchdog wd_external
        [Arrive (Msg (Register \<lparr>get_id = 1::nat, get_name = None\<rparr> 10 Kill)), Take Ok_unit]
        (timed_init watchdog_pre_start) = Some c
     \<and> map due (ping_timers 1 r (take_pings 1 [5, 5, 4] c)) = [15, 20, 24]"
proof -
  let ?moves = "[Arrive (Msg (Register \<lparr>get_id = 1::nat, get_name = None\<rparr> 10 Kill)), Take Ok_unit]"
  let ?r = "\<lparr>reg_actor = \<lparr>get_id = 1::nat, get_name = None\<rparr>,
         timeout = 10, timeout_strategy = Kill, reg_timer = 0\<rparr>"
  obtain c where c: "timed_run handle_watchdog wd_external ?moves (timed_init watchdog_pre_start) = Some c"
      "map_of (subjects (actor c)) 1 = Some ?r" "clock c = 0" "ping_timers 1 ?r c = []"
    by (simp add: timed_init_def watchdog_pre_start_def wd_handler_defs commit_def hm_insert_def
        ping_timers_def)
  have "map due (ping_timers 1 ?r (take_pings 1 [5, 5, 4] c)) = [15, 20, 24]"
    using pings_accumulate_timers [OF timed_run_reachable [OF timed_reachable.start c(1)] c(2) c(4),
        of "[5, 5, 4]"] c(3)
    by simp
  then show ?thesis using c(1) by (intro exI conjI)
qed

text \<open>Pings after the first leave its timer alone.\<close>

definition ping_every :: "'id \<Rightarrow> nat list \<Rightarrow> (unit result, 'id watchdog_input) move list" where
  "ping_every who gaps = concat (map (\<lambda>g. wait g @ [Arrive (Msg (Ping who)), Take Ok_unit]) gaps)"

lemma pings_keep_the_first:
  assumes "map_of (subjects s) who = Some r" and "reg_timer r = 0" and "token t \<noteq> 0"
  shows "\<exists>rest n log'. timed_run handle_watchdog wd_external (ping_every who gaps @ as)
      \<lparr>clock = k, actor = s, timers = t # rest0, inbox = [], fresh = n0, alive = True, log = log0\<rparr>
    = timed_run handle_watchdog wd_external as
      \<lparr>clock = k + sum_list gaps, actor = s, timers = t # rest, inbox = [],
       fresh = n, alive = True, log = log'\<rparr>"
proof (induction gaps arbitrary: k rest0 n0 log0)
  case Nil
  then show ?case by (auto simp: ping_every_def)
next
  case (Cons g gaps)
  let ?rest = "filter (\<lambda>t. token t \<noteq> 0) rest0 @ [\<lparr>token = n0, due = k + g + timeout r, payload = Msg (Timeout who)\<rparr>]"
  have "timed_run handle_watchdog wd_external (ping_every who (g # gaps) @ as)
      \<lparr>clock = k, actor = s, timers = t # rest0, inbox = [], fresh = n0, alive = True, log = log0\<rparr>
    = timed_run handle_watchdog wd_external (ping_every who gaps @ as)
      \<lparr>clock = k + g, actor = s, timers = t # ?rest, inbox = [], fresh = Suc n0, alive = True,
       log = log0 @ [ReplyPing who]\<rparr>"
    using assms by (simp add: ping_every_def wd_ping_def commit_def)
  then show ?case
    using Cons [of "k + g" ?rest "Suc n0" "log0 @ [ReplyPing who]"] by (simp add: add.assoc)
qed

text \<open>
  The first ping fixes the end of an actor. Registered with a timeout \<open>d\<close>, and pinging for
  the first time before it has passed, the actor is terminated \<open>d\<close> after that first ping,
  however often and however regularly it goes on pinging: every further ping aborts the timer
  of the registration, which is gone, and not the one the first ping has started.
\<close>

theorem first_ping_fixes_the_end:
  assumes "e \<le> d" and "sum_list gaps \<le> d"
  shows "\<exists>c. timed_run handle_watchdog wd_external
        ([Arrive (Msg (Register cell d strategy)), Take Ok_unit] @ wait e
         @ [Arrive (Msg (Ping (get_id cell))), Take Ok_unit] @ ping_every (get_id cell) gaps
         @ wait (d - sum_list gaps) @ [Fire 1, Take Ok_unit])
        (timed_init watchdog_pre_start) = Some c
      \<and> clock c = e + d \<and> terminations (get_id cell) (log c) \<noteq> []
      \<and> map_of (subjects (actor c)) (get_id cell) = None"
proof -
  let ?who = "get_id cell" and ?as = "wait (d - sum_list gaps) @ [Fire 1, Take Ok_unit]"
  let ?s = "watchdog_pre_start\<lparr>subjects := hm_insert (get_id cell)
      \<lparr>reg_actor = cell, timeout = d, timeout_strategy = strategy, reg_timer = 0\<rparr> []\<rparr>"
  let ?t = "\<lparr>token = 1, due = e + d, payload = Msg (Timeout ?who)\<rparr>"
  have first: "timed_run handle_watchdog wd_external
        ([Arrive (Msg (Register cell d strategy)), Take Ok_unit] @ wait e
         @ [Arrive (Msg (Ping ?who)), Take Ok_unit] @ ping_every ?who gaps @ ?as) (timed_init watchdog_pre_start)
      = timed_run handle_watchdog wd_external (ping_every ?who gaps @ ?as)
          \<lparr>clock = e, actor = ?s, timers = [?t], inbox = [], fresh = 2, alive = True, log = [ReplyPing ?who]\<rparr>"
    by (simp add: timed_init_def watchdog_pre_start_def wd_handler_defs commit_def hm_simps numeral_2_eq_2 Let_def)
  obtain rest n lg where run: "timed_run handle_watchdog wd_external (ping_every ?who gaps @ ?as)
          \<lparr>clock = e, actor = ?s, timers = [?t], inbox = [], fresh = 2, alive = True, log = [ReplyPing ?who]\<rparr>
      = timed_run handle_watchdog wd_external ?as
          \<lparr>clock = e + sum_list gaps, actor = ?s, timers = ?t # rest, inbox = [], fresh = n, alive = True, log = lg\<rparr>"
    using pings_keep_the_first [of ?s ?who "\<lparr>reg_actor = cell, timeout = d, timeout_strategy = strategy, reg_timer = 0\<rparr>"
        ?t gaps ?as e "[]" 2 "[ReplyPing ?who]"]
    by (auto simp: hm_simps)
  show ?thesis
    unfolding first run
    using assms
    by (cases strategy) (auto simp: wd_handler_defs commit_def terminations_def hm_simps Let_def)
qed

text \<open>
  A session of the example server, which registers with three seconds and pings at every frame:
  it is stopped four seconds after its start, with a frame in every second.
\<close>

theorem first_ping_fixes_the_end_witness:
  "\<exists>c. timed_run handle_watchdog wd_external
        ([Arrive (Msg (Register \<lparr>get_id = 1 :: nat, get_name = None\<rparr> 3 Stop)), Take Ok_unit] @ wait 1
         @ [Arrive (Msg (Ping 1)), Take Ok_unit] @ ping_every 1 [1, 1] @ wait (3 - 2) @ [Fire 1, Take Ok_unit])
        (timed_init watchdog_pre_start) = Some c
      \<and> clock c = 4 \<and> terminations 1 (log c) \<noteq> []"
  using first_ping_fixes_the_end [of 1 3 "[1, 1]" "\<lparr>get_id = 1 :: nat, get_name = None\<rparr>" Stop]
  by (auto simp del: timed_run.simps timed_run_wait append.simps)

text \<open>
  Registering again does not extend the time an actor has. An actor registered with a timeout,
  and registered again before that timeout has passed, with any timeout and any strategy, is
  terminated when the first timeout has passed: the timer of the first registration is never
  aborted. Its unit test re-registers after 400 of 500 milliseconds, and the actor is killed
  at 500, not at 900.
\<close>

theorem reregistering_does_not_extend:
  assumes "e \<le> d"
  shows "\<exists>c. timed_run handle_watchdog wd_external
        ([Arrive (Msg (Register cell d strategy)), Take Ok_unit] @ wait e
         @ [Arrive (Msg (Register cell d' strategy')), Take Ok_unit] @ wait (d - e) @ [Fire 0, Take Ok_unit])
        (timed_init watchdog_pre_start) = Some c
      \<and> clock c = d \<and> terminations (get_id cell) (log c) \<noteq> []
      \<and> map_of (subjects (actor c)) (get_id cell) = None"
  using assms
  by (cases strategy')
    (auto simp: timed_init_def watchdog_pre_start_def wd_handler_defs commit_def terminations_def hm_simps Let_def
      split: timeout_strategy.split)

theorem reregistering_does_not_extend_witness:
  "\<exists>c. timed_run handle_watchdog wd_external
        ([Arrive (Msg (Register \<lparr>get_id = 7 :: nat, get_name = None\<rparr> 500 Kill)), Take Ok_unit] @ wait 400
         @ [Arrive (Msg (Register \<lparr>get_id = 7, get_name = None\<rparr> 500 Kill)), Take Ok_unit] @ wait (500 - 400)
         @ [Fire 0, Take Ok_unit])
        (timed_init watchdog_pre_start) = Some c
      \<and> clock c = 500 \<and> terminations 7 (log c) \<noteq> []"
  using reregistering_does_not_extend [of 400 500 "\<lparr>get_id = 7 :: nat, get_name = None\<rparr>" Kill 500 Kill]
  by (auto simp del: timed_run.simps timed_run_wait append.simps)

text \<open>
  The counters tell the truth modulo the width of \<open>usize\<close>: in every reachable
  configuration \<open>kills\<close> and \<open>stops\<close> are the numbers of actors killed and stopped so far.
\<close>

theorem counters_match_terminations:
  assumes "watchdog_reachable c"
  shows "kills (actor c) = of_nat (length (filter is_kill (log c)))
    \<and> stops (actor c) = of_nat (length (filter is_stop (log c)))"
  using counters.inv_reachable [OF assms]
  by (simp add: counters_inv_def watchdog_pre_start_def)

theorem counters_match_terminations_witness:
  "\<exists>c. timed_run handle_watchdog wd_external
        [Arrive (Msg (Register \<lparr>get_id = 1::nat, get_name = None\<rparr> 0 Stop)), Take Ok_unit,
         Fire 0, Take Ok_unit] (timed_init watchdog_pre_start) = Some c
     \<and> stops (actor c) = 1 \<and> kills (actor c) = 0"
proof -
  obtain c where c: "timed_run handle_watchdog wd_external
        [Arrive (Msg (Register \<lparr>get_id = 1::nat, get_name = None\<rparr> 0 Stop)), Take Ok_unit,
         Fire 0, Take Ok_unit] (timed_init watchdog_pre_start) = Some c"
      "log c = [StopActor \<lparr>get_id = 1, get_name = None\<rparr> WATCHDOG_TIMEOUT]"
    by (simp add: timed_init_def watchdog_pre_start_def wd_handler_defs commit_def hm_insert_def
        hm_remove_def)
  from counters_match_terminations [OF timed_run_reachable [OF timed_reachable.start c(1)]] c
  show ?thesis by auto
qed

text \<open>
  A caller of \<open>stats\<close> that has gone away takes the watchdog down: when the reply to
  \<open>Stats\<close> cannot be sent, the handler fails, and from then on nothing happens to any
  registered actor, whatever its timers do.
\<close>

theorem failed_stats_reply_ends_the_watchdog:
  assumes "alive c0" and "inbox c0 = Msg Stats # ms" and "is_err sent"
    and "timed_exec handle_watchdog wd_external (Take sent) c0 = Some c1"
    and "timed_reachable handle_watchdog wd_external c1 c"
  shows "\<not> alive c \<and> subjects (actor c) = subjects (actor c0)
    \<and> terminations who (log c) = terminations who (log c0)"
proof -
  have c1: "c1 = commit (wd_stats sent (actor c0)) (c0\<lparr>inbox := ms\<rparr>)"
    using assms(1,2,4) by simp
  have "\<not> alive c1" using assms(3) by (simp add: c1 wd_stats_def)
  from dead_is_final [OF assms(5) this] show ?thesis
    by (simp add: c1 wd_stats_def terminations_def)
qed

theorem failed_stats_reply_ends_the_watchdog_witness:
  "\<exists>c1 c. timed_exec handle_watchdog wd_external (Take (Inl (Error ''closed'')))
        (timed_init watchdog_pre_start \<lparr>inbox := [Msg Stats]\<rparr>) = Some c1
     \<and> timed_run handle_watchdog wd_external [Tick, Arrive (Msg (Ping (1::nat)))] c1 = Some c
     \<and> \<not> alive c"
proof -
  let ?c0 = "timed_init watchdog_pre_start \<lparr>inbox := [Msg Stats]\<rparr> :: nat watchdog_config"
  obtain c1 where c1: "timed_exec handle_watchdog wd_external (Take (Inl (Error ''closed''))) ?c0 = Some c1"
    by simp
  obtain c where c: "timed_run handle_watchdog wd_external [Tick, Arrive (Msg (Ping (1::nat)))] c1 = Some c"
    by simp
  have "\<not> alive c"
    using failed_stats_reply_ends_the_watchdog [OF _ _ _ c1
        timed_run_reachable [OF timed_reachable.start c]] by simp
  then show ?thesis using c1 c by blast
qed

text \<open>
  \<open>ping\<close> tells its caller whether the actor is registered. The runtime answers a call
  with the reply of the handler, or with a sender error when the handler dropped the
  port without replying; then \<open>ping\<close> succeeds exactly when the actor is registered, and
  every failure, a watchdog that could not be spawned included, is the same \<open>SendErr\<close>.
\<close>

theorem ping_reports_registration:
  assumes "\<And>watchdog. send watchdog (Ping who) = Inr
      (if ReplyPing who \<in> set (acts (effects (handle_watchdog sent tok (Msg (Ping who)) s)))
       then Success () else SenderError)"
  shows "watchdog_ping cell send who
    = (if is_err cell \<or> map_of (subjects s) who = None then Inl SendErr else Inr ())"
  using assms by (cases cell) (simp_all add: watchdog_ping_def wd_call_def)

theorem ping_reports_registration_witness:
  "watchdog_ping (Inr ()) (\<lambda>watchdog m. Inr SenderError :: unit + unit call_result) (7::nat)
    = Inl SendErr"
  by (subst ping_reports_registration [where s = watchdog_pre_start and sent = Ok_unit and tok = 0])
    (simp_all add: watchdog_pre_start_def)

end
