(* ===== verification/Watchdog_Timers.thy ===== *)
theory Watchdog_Timers
  imports Watchdog
begin

text \<open>
  What becomes of the timers the watchdog forgets, \<open>src/ractor_actors/src/watchdog/impl.rs\<close>.

  The handlers of \<open>Ping\<close> and \<open>Register\<close> both start a timer; only \<open>Register\<close> files its handle,
  and it does not abort the timer of the registration it replaces. So a timer of an actor
  that its registration does not point to can no longer be aborted by anybody. This theory
  follows such a timer through every history of the watchdog.
\<close>

section \<open>A timer nobody points to\<close>

text \<open>The messages that take an actor out of the table.\<close>

fun drops :: "'id \<Rightarrow> 'id watchdog_input \<Rightarrow> bool" where
  "drops who (Msg (Unregister cell)) = (get_id cell = who)"
| "drops who (Supervision (ActorTerminated cell _)) = (get_id cell = who)"
| "drops who (Supervision (ActorFailed cell _)) = (get_id cell = who)"
| "drops who _ = False"

text \<open>
  The timer \<open>tok\<close> of \<open>who\<close>, due at \<open>end\<close>: it is pending and not the one of the registration, or
  it has fired and its timeout waits in the inbox, or \<open>who\<close> has been terminated more than
  \<open>n\<close> times. Until the last, \<open>who\<close> is registered.
\<close>

definition orphan_pending :: "'id \<Rightarrow> nat \<Rightarrow> nat \<Rightarrow> 'id watchdog_config \<Rightarrow> bool" where
  "orphan_pending who tok end_at c \<longleftrightarrow> (\<exists>r t. map_of (subjects (actor c)) who = Some r
     \<and> reg_timer r \<noteq> tok \<and> t \<in> set (timers c) \<and> token t = tok \<and> due t = end_at
     \<and> payload t = Msg (Timeout who))"

definition timeout_waits :: "'id \<Rightarrow> 'id watchdog_config \<Rightarrow> bool" where
  "timeout_waits who c \<longleftrightarrow>
     map_of (subjects (actor c)) who \<noteq> None \<and> Msg (Timeout who) \<in> set (inbox c)"

definition orphan_inv :: "'id \<Rightarrow> nat \<Rightarrow> nat \<Rightarrow> nat \<Rightarrow> 'id watchdog_config \<Rightarrow> bool" where
  "orphan_inv who tok end_at n c \<longleftrightarrow>
     wd_inv c \<and> tok < fresh c \<and> (\<forall>m \<in> set (inbox c). \<not> drops who m)
     \<and> n \<le> length (terminations who (log c))
     \<and> (orphan_pending who tok end_at c \<or> timeout_waits who c \<or> n < length (terminations who (log c)))"

lemma sup_not_dropping:
  "\<not> drops who (Supervision evt)
    \<Longrightarrow> map_of (subjects (state_of (wd_handle_supervisor_evt evt s))) who = map_of (subjects s) who"
  by (cases evt) auto

text \<open>Whom a message does not drop or time out stays registered; at most under a new handle.\<close>

lemma stays_registered:
  assumes "\<not> drops who m" and "m \<noteq> Msg (Timeout who)" and "map_of (subjects s) who = Some r"
  shows "\<exists>r'. map_of (subjects (state_of (handle_watchdog sent tok m s))) who = Some r'
    \<and> (reg_timer r' = reg_timer r \<or> reg_timer r' = tok)"
  using assms
  by (cases "(sent, tok, m, s)" rule: handle_watchdog.cases) (auto simp: sup_not_dropping)

text \<open>Only the timer of a registration is ever aborted.\<close>

lemma stays_pending:
  assumes "wd_inv c" and "\<not> drops who m"
    and "t \<in> set (timers c)" and "payload t = Msg (Timeout who)"
    and "map_of (subjects (actor c)) who = Some r" and "reg_timer r \<noteq> token t"
  shows "t \<in> set (fold (pool_effect now) (effects (handle_watchdog sent tok m (actor c))) (timers c))"
proof -
  have other: "reg_timer r' \<noteq> token t" if "map_of (subjects (actor c)) w = Some r'" for w r'
    using assms(1,3-6) that unfolding wd_inv_def handles_wf_def by (cases "w = who") force+
  show ?thesis
  proof (cases m)
    case (Msg msg)
    then show ?thesis using assms(2,3) other by (cases msg) (auto split: option.splits dest: other)
  next
    case (Supervision evt)
    then show ?thesis using assms(2,3) other by (cases evt) (auto split: option.splits dest: other)
  qed
qed

lemma timeout_terminates:
  assumes "watchdog_wf s" and "map_of (subjects s) who = Some r"
  shows "length (terminations who (acts (effects (handle_watchdog sent tok (Msg (Timeout who)) s)))) = 1"
  using assms by (auto simp: watchdog_wf_def terminations_def split: timeout_strategy.splits)

text \<open>Any other message than the timeout leaves what is pending pending.\<close>

lemma orphan_stays:
  assumes wd: "wd_inv c" and inbox: "inbox c = m # ms" and drop: "\<not> drops who m"
    and other: "m \<noteq> Msg (Timeout who)" and tok: "tok < fresh c"
    and pending: "orphan_pending who tok end_at c \<or> timeout_waits who c"
  shows "orphan_pending who tok end_at (commit (handle_watchdog sent (fresh c) m (actor c)) (c\<lparr>inbox := ms\<rparr>))
    \<or> timeout_waits who (commit (handle_watchdog sent (fresh c) m (actor c)) (c\<lparr>inbox := ms\<rparr>))"
    (is "orphan_pending _ _ _ ?c \<or> _")
proof -
  obtain r where r: "map_of (subjects (actor c)) who = Some r"
    using pending by (auto simp: orphan_pending_def timeout_waits_def)
  obtain r' where r': "map_of (subjects (actor ?c)) who = Some r'"
      "reg_timer r' = reg_timer r \<or> reg_timer r' = fresh c"
    using stays_registered [OF drop other r, of sent "fresh c"] by auto
  from pending show ?thesis
  proof
    assume "orphan_pending who tok end_at c"
    then obtain t where t: "t \<in> set (timers c)" "token t = tok" "due t = end_at"
        "payload t = Msg (Timeout who)" "reg_timer r \<noteq> token t"
      using r by (auto simp: orphan_pending_def)
    have "t \<in> set (timers ?c)" using stays_pending [OF wd drop t(1,4) r t(5)] by simp
    then show ?thesis using r' t tok by (auto simp: orphan_pending_def)
  next
    assume "timeout_waits who c"
    then show ?thesis using r' inbox other by (auto simp: timeout_waits_def)
  qed
qed

lemma orphan_inv_take:
  assumes inv: "orphan_inv who tok end_at n c" and inbox: "inbox c = m # ms"
  shows "orphan_inv who tok end_at n
    (commit (handle_watchdog sent (fresh c) m (actor c)) (c\<lparr>inbox := ms\<rparr>))"
    (is "orphan_inv _ _ _ _ ?c")
proof -
  have base: "wd_inv ?c" "tok < fresh ?c" "\<forall>m \<in> set (inbox ?c). \<not> drops who m"
    "n \<le> length (terminations who (log ?c))"
    using inv inbox by (auto simp: orphan_inv_def wd_inv_take terminations_def)
  have log: "length (terminations who (log ?c)) = length (terminations who (log c))
      + length (terminations who (acts (effects (handle_watchdog sent (fresh c) m (actor c)))))"
    by (simp add: terminations_def)
  consider (already) "n < length (terminations who (log c))"
    | (now) "m = Msg (Timeout who)" "orphan_pending who tok end_at c \<or> timeout_waits who c"
    | (later) "m \<noteq> Msg (Timeout who)" "orphan_pending who tok end_at c \<or> timeout_waits who c"
    using inv by (auto simp: orphan_inv_def)
  then have "orphan_pending who tok end_at ?c \<or> timeout_waits who ?c \<or> n < length (terminations who (log ?c))"
  proof cases
    case now
    then obtain r where r: "map_of (subjects (actor c)) who = Some r"
      by (auto simp: orphan_pending_def timeout_waits_def)
    have "watchdog_wf (actor c)" using inv by (simp add: orphan_inv_def wd_inv_def)
    from timeout_terminates [OF this r] show ?thesis using log inv now(1) by (simp add: orphan_inv_def)
  next
    case later
    have "wd_inv c" "\<not> drops who m" "tok < fresh c" using inv inbox by (auto simp: orphan_inv_def)
    then show ?thesis using orphan_stays [OF _ inbox _ later(1) _ later(2), of sent] by blast
  qed (use log in simp)
  with base show ?thesis by (simp add: orphan_inv_def)
qed

interpretation orphan: timed_invariant handle_watchdog "\<lambda>m. wd_external m \<and> \<not> drops who m"
  "orphan_inv who tok end_at n" for who tok end_at n
proof unfold_locales
  fix c :: "'a watchdog_config" and t :: "'a watchdog_input timer"
  assume inv: "orphan_inv who tok end_at n c" and t: "t \<in> set (timers c)" "due t \<le> clock c"
  let ?c = "c\<lparr>timers := remove1 t (timers c), inbox := inbox c @ [payload t]\<rparr>"
  have "wd_inv ?c" using inv t by (simp add: orphan_inv_def wd.inv_fire)
  moreover have "\<not> drops who (payload t)"
    using inv t by (auto simp: orphan_inv_def wd_inv_def timers_wf_def)
  moreover have "orphan_pending who tok end_at c \<Longrightarrow> orphan_pending who tok end_at ?c \<or> timeout_waits who ?c"
  proof -
    assume "orphan_pending who tok end_at c"
    then obtain r u where u: "map_of (subjects (actor c)) who = Some r" "reg_timer r \<noteq> tok"
        "u \<in> set (timers c)" "token u = tok" "due u = end_at" "payload u = Msg (Timeout who)"
      by (auto simp: orphan_pending_def)
    then show ?thesis
      by (cases "u = t") (auto simp: orphan_pending_def timeout_waits_def in_set_remove1)
  qed
  ultimately show "orphan_inv who tok end_at n ?c"
    using inv by (auto simp: orphan_inv_def timeout_waits_def)
qed (auto simp: orphan_inv_take wd.inv_tick wd.inv_arrive,
    auto simp: orphan_inv_def orphan_pending_def timeout_waits_def wd.inv_tick wd.inv_arrive)

section \<open>It ends the actor\<close>

text \<open>The watchdog has nothing left to do: every due timer has fired and every message was taken.\<close>

definition caught_up :: "'id watchdog_config \<Rightarrow> bool" where
  "caught_up c \<longleftrightarrow> inbox c = [] \<and> list_all (\<lambda>t. clock c < due t) (timers c)"

lemma orphan_terminates:
  assumes "orphan_inv who tok end_at n c" and "end_at \<le> clock c" and "caught_up c"
  shows "n < length (terminations who (log c))"
proof -
  have "\<not> timeout_waits who c" using assms(3) by (simp add: timeout_waits_def caught_up_def)
  moreover have "\<not> orphan_pending who tok end_at c"
    using assms(2,3) by (auto simp: orphan_pending_def caught_up_def list_all_iff)
  ultimately show ?thesis using assms(1) by (simp add: orphan_inv_def)
qed

text \<open>A ping and a new registration both leave such a timer.\<close>

lemma ping_leaves_orphan:
  assumes "wd_inv c" and "map_of (subjects (actor c)) who = Some r"
    and "inbox c = Msg (Ping who) # ms" and "\<forall>m \<in> set ms. \<not> drops who m"
  shows "orphan_inv who (fresh c) (clock c + timeout r) (length (terminations who (log c)))
    (commit (handle_watchdog sent (fresh c) (Msg (Ping who)) (actor c)) (c\<lparr>inbox := ms\<rparr>))"
proof -
  have "reg_timer r \<noteq> fresh c"
    using assms(1,2) unfolding wd_inv_def handles_wf_def by (metis less_irrefl)
  then show ?thesis
    using assms wd_inv_take [OF assms(1,3), of sent]
    by (auto simp: orphan_inv_def orphan_pending_def terminations_def)
qed

lemma registration_leaves_orphan:
  assumes "wd_inv c" and "map_of (subjects (actor c)) (get_id cell) = Some r"
    and "t \<in> set (timers c)" and "token t = reg_timer r"
    and "inbox c = Msg (Register cell d strategy) # ms" and "\<forall>m \<in> set ms. \<not> drops (get_id cell) m"
  shows "orphan_inv (get_id cell) (reg_timer r) (due t) (length (terminations (get_id cell) (log c)))
    (commit (handle_watchdog sent (fresh c) (Msg (Register cell d strategy)) (actor c)) (c\<lparr>inbox := ms\<rparr>))"
proof -
  have "reg_timer r < fresh c" "payload t = Msg (Timeout (get_id cell))"
    using assms(1-4) unfolding wd_inv_def handles_wf_def by auto
  then show ?thesis
    using assms wd_inv_take [OF assms(1,5), of sent]
    by (auto simp: orphan_inv_def orphan_pending_def terminations_def)
qed

section \<open>An actor registered with one timeout\<close>

text \<open>The messages about an actor.\<close>

fun mentions :: "'id \<Rightarrow> 'id watchdog_input \<Rightarrow> bool" where
  "mentions who (Msg (Ping w)) = (w = who)"
| "mentions who (Msg (Timeout w)) = (w = who)"
| "mentions who m = (registers who m \<or> drops who m)"

fun registers_otherwise :: "'id \<Rightarrow> nat \<Rightarrow> 'id watchdog_input \<Rightarrow> bool" where
  "registers_otherwise who d (Msg (Register a d' _)) = (get_id a = who \<and> d' \<noteq> d)"
| "registers_otherwise who d _ = False"

definition harmless :: "'id \<Rightarrow> nat \<Rightarrow> 'id watchdog_input \<Rightarrow> bool" where
  "harmless who d m \<longleftrightarrow> \<not> drops who m \<and> \<not> registers_otherwise who d m"

definition guard_inv :: "'id \<Rightarrow> nat \<Rightarrow> nat \<Rightarrow> 'id watchdog_config \<Rightarrow> bool" where
  "guard_inv who since d c \<longleftrightarrow> wd_inv c \<and> not_early_inv who since d [] c
    \<and> (\<forall>m \<in> set (inbox c). harmless who d m)
    \<and> (\<forall>r. map_of (subjects (actor c)) who = Some r \<longrightarrow> timeout r = d)"

lemma harmless_timeout [simp]: "harmless who d (Msg (Timeout w))" "harmless who d (Msg (Ping w))"
  by (simp_all add: harmless_def)

lemma not_mentioned: "\<not> mentions who m \<Longrightarrow> harmless who d m \<and> \<not> registers_below who d m"
  by (cases "(who, m)" rule: mentions.cases) (auto simp: harmless_def)

lemma harmless_below: "harmless who d m \<Longrightarrow> \<not> registers_below who d m"
  by (cases "(who, d, m)" rule: registers_below.cases) (auto simp: harmless_def)

lemma timeout_kept:
  assumes "\<forall>r. map_of (subjects s) who = Some r \<longrightarrow> timeout r = d" and "harmless who d m"
    and "map_of (subjects (state_of (handle_watchdog sent tok m s))) who = Some r"
  shows "timeout r = d"
  using assms by (cases "(sent, tok, m, s)" rule: handle_watchdog.cases)
    (auto simp: harmless_def dest: wd_sup_subjects split: if_splits)

interpretation guarded: timed_invariant handle_watchdog "\<lambda>m. wd_external m \<and> harmless who d m"
  "guard_inv who since d" for who since d
proof unfold_locales
  fix c :: "'a watchdog_config" and t :: "'a watchdog_input timer"
  assume inv: "guard_inv who since d c" and t: "t \<in> set (timers c)" "due t \<le> clock c"
  obtain w where "payload t = Msg (Timeout w)"
    using inv t(1) by (auto simp: guard_inv_def wd_inv_def timers_wf_def)
  then show "guard_inv who since d (c\<lparr>timers := remove1 t (timers c), inbox := inbox c @ [payload t]\<rparr>)"
    using inv t wd.inv_fire [of c t] not_early.inv_fire [of who since d "[]" c t]
    by (auto simp: guard_inv_def)
next
  fix c :: "'a watchdog_config" and m ms sent
  assume inv: "guard_inv who since d c" and live: "alive c" and m: "inbox c = m # ms"
  have now: "harmless who d m" and later: "\<forall>m \<in> set ms. harmless who d m"
    using inv m by (simp_all add: guard_inv_def)
  have "timeout r = d"
    if "map_of (subjects (state_of (handle_watchdog sent (fresh c) m (actor c)))) who = Some r" for r
    using timeout_kept [OF _ now that] inv by (simp add: guard_inv_def)
  moreover have "wd_inv (commit (handle_watchdog sent (fresh c) m (actor c)) (c\<lparr>inbox := ms\<rparr>))"
      "not_early_inv who since d [] (commit (handle_watchdog sent (fresh c) m (actor c)) (c\<lparr>inbox := ms\<rparr>))"
    using inv wd.inv_take [OF _ live m] not_early.inv_take [OF _ live m] by (simp_all add: guard_inv_def)
  ultimately show "guard_inv who since d (commit (handle_watchdog sent (fresh c) m (actor c)) (c\<lparr>inbox := ms\<rparr>))"
    using later by (simp add: guard_inv_def)
next
  fix c :: "'a watchdog_config"
  show "guard_inv who since d c \<Longrightarrow> guard_inv who since d (c\<lparr>clock := Suc (clock c)\<rparr>)"
    using wd.inv_tick [of c] not_early.inv_tick [of who since d "[]" c] by (simp add: guard_inv_def)
next
  fix c :: "'a watchdog_config" and m
  assume inv: "guard_inv who since d c" and m: "wd_external m \<and> harmless who d m"
  show "guard_inv who since d (c\<lparr>inbox := inbox c @ [m]\<rparr>)"
    using inv m wd.inv_arrive [of c m] not_early.inv_arrive [of who since d "[]" c m] harmless_below [of who d m]
    by (simp add: guard_inv_def)
qed

lemma timed_exec_weaken:
  "timed_exec h external a c = Some c' \<Longrightarrow> (\<And>m. external m \<Longrightarrow> external' m)
    \<Longrightarrow> timed_exec h external' a c = Some c'"
  by (cases a) (auto split: if_splits)

section \<open>Properties\<close>

text \<open>
  C16. No ping saves an actor. When a registered actor pings, then from the end of its timeout
  after that ping on, in every history, with all the pings and registrations anybody may
  send, the watchdog has terminated it as soon as it is up to date; only a message that
  takes the actor out of the table, of which there is none here, could save it.
\<close>

theorem no_ping_saves_an_actor:
  assumes "watchdog_reachable c0" and "map_of (subjects (actor c0)) who = Some r"
    and "inbox c0 = Msg (Ping who) # ms" and "\<forall>m \<in> set ms. \<not> drops who m"
    and "timed_exec handle_watchdog wd_external (Take sent) c0 = Some c1"
    and "timed_reachable handle_watchdog (\<lambda>m. wd_external m \<and> \<not> drops who m) c1 c"
    and "clock c0 + timeout r \<le> clock c" and "caught_up c"
  shows "length (terminations who (log c0)) < length (terminations who (log c))"
proof -
  have "c1 = commit (handle_watchdog sent (fresh c0) (Msg (Ping who)) (actor c0)) (c0\<lparr>inbox := ms\<rparr>)"
    using assms(3,5) by (simp split: if_splits)
  then show ?thesis
    using ping_leaves_orphan [OF watchdog_reachable_inv [OF assms(1)] assms(2-4), of sent]
      orphan.inv_reachable [OF assms(6)] orphan_terminates assms(7,8)
    by metis
qed

theorem no_ping_saves_an_actor_witness:
  "\<exists>c0 c. timed_run handle_watchdog wd_external
        [Arrive (Msg (Register \<lparr>get_id = 1 :: nat, get_name = None\<rparr> 3 Stop)), Take Ok_unit, Tick,
         Arrive (Msg (Ping 1))] (timed_init watchdog_pre_start) = Some c0
     \<and> timed_run handle_watchdog (\<lambda>m. wd_external m \<and> \<not> drops 1 m)
        [Take Ok_unit, Tick, Arrive (Msg (Ping 1)), Take Ok_unit, Tick, Tick, Fire 1, Take Ok_unit] c0 = Some c
     \<and> terminations 1 (log c) \<noteq> []"
proof -
  let ?a = "\<lparr>get_id = 1 :: nat, get_name = None\<rparr>" and ?ext = "\<lambda>m. wd_external m \<and> \<not> drops (1 :: nat) m"
  let ?r = "\<lparr>reg_actor = ?a, timeout = 3, timeout_strategy = Stop, reg_timer = 0\<rparr>"
  let ?before = "[Arrive (Msg (Register ?a 3 Stop)), Take Ok_unit, Tick, Arrive (Msg (Ping 1))]"
  let ?after = "[Tick, Arrive (Msg (Ping 1)), Take Ok_unit, Tick, Tick, Fire 1, Take Ok_unit]"
  note run = timed_init_def watchdog_pre_start_def wd_handler_defs commit_def hm_insert_def hm_remove_def Let_def
  obtain c0 where c0: "timed_run handle_watchdog wd_external ?before (timed_init watchdog_pre_start) = Some c0"
      "map_of (subjects (actor c0)) 1 = Some ?r" "inbox c0 = [Msg (Ping 1)]" "clock c0 = 1"
    and c0': "c0 = \<lparr>clock = 1, actor = \<lparr>subjects = [(1, ?r)], kills = 0, stops = 0\<rparr>,
      timers = [\<lparr>token = 0, due = 3, payload = Msg (Timeout 1)\<rparr>], inbox = [Msg (Ping 1)], fresh = 1,
      alive = True, log = []\<rparr>"
    by (simp add: run)
  obtain c1 where c1: "timed_exec handle_watchdog wd_external (Take Ok_unit) c0 = Some c1"
    and c1': "timed_exec handle_watchdog ?ext (Take Ok_unit) c0 = Some c1"
    by (simp add: c0')
  have c1'': "c1 = \<lparr>clock = 1, actor = \<lparr>subjects = [(1, ?r)], kills = 0, stops = 0\<rparr>,
      timers = [\<lparr>token = 1, due = 4, payload = Msg (Timeout 1)\<rparr>], inbox = [], fresh = 2,
      alive = True, log = [ReplyPing 1]\<rparr>"
    using c1 by (simp add: c0' run numeral_2_eq_2)
  obtain c where c: "timed_run handle_watchdog ?ext ?after c1 = Some c" "clock c = 4" "caught_up c"
    by (simp add: c1'' run caught_up_def)
  have "length (terminations 1 (log c0)) < length (terminations 1 (log c))"
    by (rule no_ping_saves_an_actor [OF timed_run_reachable [OF timed_reachable.start c0(1)] c0(2,3) _ c1
          timed_run_reachable [OF timed_reachable.start c(1)] _ c(3)])
      (simp_all add: c0(4) c(2))
  then show ?thesis using c0(1) c1' c(1) by (intro exI conjI) auto
qed

text \<open>
  C36. Registering again saves no actor. An actor whose registration has its timer pending is
  registered again, with whatever timeout and strategy; then from the time that timer was due
  on, in every history without a message that takes the actor out of the table, the
  watchdog has terminated it as soon as it is up to date. So a longer timeout, or a
  registration in time, is in vain. Its unit test re-registers after 400 of 500
  milliseconds, and the actor is killed at 500, not at 900.
\<close>

theorem registering_again_saves_no_actor:
  assumes "watchdog_reachable c0" and "map_of (subjects (actor c0)) (get_id cell) = Some r"
    and "t \<in> set (timers c0)" and "token t = reg_timer r"
    and "inbox c0 = Msg (Register cell d strategy) # ms" and "\<forall>m \<in> set ms. \<not> drops (get_id cell) m"
    and "timed_exec handle_watchdog wd_external (Take sent) c0 = Some c1"
    and "timed_reachable handle_watchdog (\<lambda>m. wd_external m \<and> \<not> drops (get_id cell) m) c1 c"
    and "due t \<le> clock c" and "caught_up c"
  shows "length (terminations (get_id cell) (log c0)) < length (terminations (get_id cell) (log c))"
proof -
  have "c1 = commit (handle_watchdog sent (fresh c0) (Msg (Register cell d strategy)) (actor c0))
      (c0\<lparr>inbox := ms\<rparr>)"
    using assms(5,7) by (simp split: if_splits)
  then show ?thesis
    using registration_leaves_orphan [OF watchdog_reachable_inv [OF assms(1)] assms(2-6), of sent]
      orphan.inv_reachable [OF assms(8)] orphan_terminates assms(9,10)
    by metis
qed

theorem registering_again_saves_no_actor_witness:
  "\<exists>c0 c. timed_run handle_watchdog wd_external
        [Arrive (Msg (Register \<lparr>get_id = 7 :: nat, get_name = None\<rparr> 5 Kill)), Take Ok_unit]
        (timed_init watchdog_pre_start) = Some c0
     \<and> timed_run handle_watchdog (\<lambda>m. wd_external m \<and> \<not> drops 7 m)
        [Take Ok_unit, Tick, Fire 0, Take Ok_unit]
        (c0\<lparr>clock := 4, inbox := [Msg (Register \<lparr>get_id = 7, get_name = None\<rparr> 50 Stop)]\<rparr>) = Some c
     \<and> terminations 7 (log c) \<noteq> []"
proof -
  let ?a = "\<lparr>get_id = 7 :: nat, get_name = None\<rparr>" and ?ext = "\<lambda>m. wd_external m \<and> \<not> drops (7 :: nat) m"
  let ?r = "\<lparr>reg_actor = ?a, timeout = 5, timeout_strategy = Kill, reg_timer = 0\<rparr>"
  let ?t = "\<lparr>token = 0, due = 5, payload = Msg (Timeout 7)\<rparr>"
  let ?again = "Msg (Register ?a 50 Stop)"
  note run = timed_init_def watchdog_pre_start_def wd_handler_defs commit_def hm_insert_def hm_remove_def Let_def
  let ?moves = "[Arrive (Msg (Register ?a 5 Kill)), Take Ok_unit]"
  obtain c00 where c00: "timed_run handle_watchdog wd_external ?moves (timed_init watchdog_pre_start) = Some c00"
    and c00': "c00 = \<lparr>clock = 0, actor = \<lparr>subjects = [(7, ?r)], kills = 0, stops = 0\<rparr>,
      timers = [?t], inbox = [], fresh = 1, alive = True, log = []\<rparr>"
    by (simp add: run)
  obtain c0 where c0: "timed_run handle_watchdog wd_external (?moves @ [Tick, Tick, Tick, Tick, Arrive ?again])
      (timed_init watchdog_pre_start) = Some c0" and c0': "c0 = c00\<lparr>clock := 4, inbox := [?again]\<rparr>"
    by (simp add: run c00')
  have reg: "map_of (subjects (actor c0)) (get_id ?a) = Some ?r" "?t \<in> set (timers c0)"
      "inbox c0 = ?again # []" by (simp_all add: c0' c00')
  obtain c1 where c1: "timed_exec handle_watchdog wd_external (Take Ok_unit) c0 = Some c1"
    and c1': "timed_exec handle_watchdog ?ext (Take Ok_unit) c0 = Some c1"
    by (simp add: c0' c00')
  have c1'': "c1 = \<lparr>clock = 4, actor = \<lparr>subjects = [(7, ?r\<lparr>timeout := 50, timeout_strategy := Stop, reg_timer := 1\<rparr>)],
        kills = 0, stops = 0\<rparr>, timers = [?t, \<lparr>token = 1, due = 54, payload = Msg (Timeout 7)\<rparr>],
      inbox = [], fresh = 2, alive = True, log = []\<rparr>"
    using c1 by (simp add: c0' c00' run numeral_2_eq_2)
  obtain c where c: "timed_run handle_watchdog ?ext [Tick, Fire 0, Take Ok_unit] c1 = Some c"
      "clock c = 5" "caught_up c"
    by (simp add: c1'' run caught_up_def)
  have ext: "timed_reachable handle_watchdog (\<lambda>m. wd_external m \<and> \<not> drops (get_id ?a) m) c1 c"
    using timed_run_reachable [OF timed_reachable.start c(1)] by simp
  have "length (terminations (get_id ?a) (log c0)) < length (terminations (get_id ?a) (log c))"
    by (rule registering_again_saves_no_actor [OF timed_run_reachable [OF timed_reachable.start c0] reg(1,2) _ reg(3) _ c1
          ext _ c(3)])
      (simp_all add: c(2))
  then show ?thesis using c00 c1' c(1) c0' by (intro exI [of _ c00] exI [of _ c] conjI) auto
qed

end
