(* ===== verification/Watchdog_Front.thy ===== *)
theory Watchdog_Front
  imports Watchdog
begin

text \<open>
  The front end of the watchdog, \<open>src/ractor_actors/src/watchdog/mod.rs\<close>, in front of the
  watchdog it spawns: the process-wide \<open>OnceCell\<close>, the four functions programs call, and the
  actor with its timers, as one state that a program and the scheduler change in turns.

  The cell holds the \<open>Result\<close> of the one spawn, an error included. A cast or a call to an
  actor that has ended fails; what a call is answered with otherwise is an argument.
\<close>

section \<open>The cell and the actor behind it\<close>

record 'id front =
  once_cell :: "unit result option"
  dog :: "'id watchdog_config option"
  spawns :: nat   \<comment> \<open>how often the watchdog was spawned\<close>

definition front_init :: "'id front" where
  "front_init = \<lparr>once_cell = None, dog = None, spawns = 0\<rparr>"

text \<open>\<open>WATCHDOG.get_or_init(spawn)\<close>; \<open>spawned\<close> is what a spawn would give now.\<close>

definition get_or_init :: "fault + (unit \<times> unit) \<Rightarrow> 'id front \<Rightarrow> unit result \<times> 'id front" where
  "get_or_init spawned f =
    (case once_cell f of
       Some cell \<Rightarrow> (cell, f)
     | None \<Rightarrow>
       (let cell = wd_spawn spawned
        in (cell, f\<lparr>once_cell := Some cell, spawns := Suc (spawns f),
                    dog := (case cell of Inr _ \<Rightarrow> Some (timed_init watchdog_pre_start) | Inl _ \<Rightarrow> None)\<rparr>)))"

text \<open>Whether a message sent now is enqueued, and the actor with the message in its inbox.\<close>

definition mailbox :: "'id front \<Rightarrow> unit \<Rightarrow> 'id watchdog_msg \<Rightarrow> string + unit" where
  "mailbox f watchdog msg =
    (case dog f of
       Some c \<Rightarrow> if alive c then Inr () else Inl ''Messaging failed to enqueue the message''
     | None \<Rightarrow> Inl ''Messaging failed to enqueue the message'')"

definition enqueue :: "'id watchdog_msg \<Rightarrow> 'id front \<Rightarrow> 'id front" where
  "enqueue msg f =
    (case (mailbox f () msg, dog f) of
       (Inr _, Some c) \<Rightarrow> f\<lparr>dog := Some (c\<lparr>inbox := inbox c @ [Msg msg]\<rparr>)\<rparr>
     | _ \<Rightarrow> f)"

definition answered :: "'id front \<Rightarrow> 'r call_result \<Rightarrow> unit \<Rightarrow> 'id watchdog_msg \<Rightarrow> string + 'r call_result" where
  "answered f answer watchdog msg = map_sum id (\<lambda>_. answer) (mailbox f watchdog msg)"

section \<open>What a program and the scheduler do\<close>

datatype 'id front_op =
    DoRegister "'id actor_cell" nat timeout_strategy
  | DoUnregister "'id actor_cell"
  | DoPing 'id "unit call_result"
  | DoStats "usize call_result"
  | DogMoves "(unit result, 'id watchdog_input) move"

text \<open>The result of the function called, without its value, and the new state.\<close>

fun front_exec :: "fault + (unit \<times> unit) \<Rightarrow> 'id front_op \<Rightarrow> 'id front
    \<Rightarrow> (messaging_err + unit) option \<times> 'id front" where
  "front_exec spawned (DoRegister cell period strategy) f =
    (case get_or_init spawned f of (once, f1) \<Rightarrow>
       (Some (watchdog_register once (mailbox f1) cell period strategy),
        enqueue (Register cell period strategy) f1))"
| "front_exec spawned (DoUnregister cell) f =
    (case get_or_init spawned f of (once, f1) \<Rightarrow>
       (Some (watchdog_unregister once (mailbox f1) cell), enqueue (Unregister cell) f1))"
| "front_exec spawned (DoPing who answer) f =
    (case get_or_init spawned f of (once, f1) \<Rightarrow>
       (Some (map_sum id (\<lambda>_. ()) (watchdog_ping once (answered f1 answer) who)), enqueue (Ping who) f1))"
| "front_exec spawned (DoStats answer) f =
    (case get_or_init spawned f of (once, f1) \<Rightarrow>
       (Some (map_sum id (\<lambda>_. ()) (watchdog_stats once (answered f1 answer))), enqueue Stats f1))"
| "front_exec spawned (DogMoves a) f =
    (None, case dog f of
       None \<Rightarrow> f
     | Some c \<Rightarrow> (case timed_exec handle_watchdog wd_external a c of
                     None \<Rightarrow> f | Some c' \<Rightarrow> f\<lparr>dog := Some c'\<rparr>))"

text \<open>A history: each operation with what a spawn would give at that time.\<close>

fun front_run :: "((fault + (unit \<times> unit)) \<times> 'id front_op) list \<Rightarrow> 'id front
    \<Rightarrow> (messaging_err + unit) list \<times> 'id front" where
  "front_run [] f = ([], f)"
| "front_run ((spawned, op) # ops) f =
    (case front_exec spawned op f of (r, f1) \<Rightarrow>
       case front_run ops f1 of (rs, f2) \<Rightarrow> ((case r of None \<Rightarrow> rs | Some x \<Rightarrow> x # rs), f2))"

section \<open>The invariant of the front end\<close>

text \<open>
  The actor exists exactly when its spawn succeeded; it was spawned once, when the first
  function was called; and it is a watchdog its theory knows.
\<close>

definition front_inv :: "'id front \<Rightarrow> bool" where
  "front_inv f \<longleftrightarrow>
    (case once_cell f of None \<Rightarrow> dog f = None | Some cell \<Rightarrow> is_err cell \<longleftrightarrow> dog f = None)
    \<and> spawns f = (if once_cell f = None then 0 else 1)
    \<and> (\<forall>c. dog f = Some c \<longrightarrow> timed_reachable handle_watchdog wd_external (timed_init watchdog_pre_start) c)"

lemma front_inv_init: "front_inv front_init"
  by (simp add: front_inv_def front_init_def)

lemma get_or_init_inv:
  assumes "front_inv f" and "get_or_init spawned f = (once, f1)"
  shows "front_inv f1 \<and> once_cell f1 = Some once"
  using assms
  by (auto simp: front_inv_def get_or_init_def wd_spawn_def Let_def intro: timed_reachable.start
      split: option.splits sum.splits prod.splits)

lemma enqueue_inv:
  assumes "front_inv f" and "\<And>who. msg \<noteq> Timeout who"
  shows "front_inv (enqueue msg f)"
proof (cases "dog f")
  case (Some c)
  have "wd_external (Msg msg)" using assms(2) by (cases msg) auto
  then have "timed_exec handle_watchdog wd_external (Arrive (Msg msg)) c = Some (c\<lparr>inbox := inbox c @ [Msg msg]\<rparr>)"
    by simp
  then show ?thesis
    using assms(1) Some timed_reachable.move [of handle_watchdog wd_external "timed_init watchdog_pre_start" c]
    by (fastforce simp: front_inv_def enqueue_def mailbox_def split: option.splits)
qed (use assms in \<open>simp add: enqueue_def split: sum.splits\<close>)

lemma front_exec_inv:
  assumes "front_inv f"
  shows "front_inv (snd (front_exec spawned op f))"
proof (cases op)
  case (DogMoves a)
  then show ?thesis
    using assms by (auto simp: front_inv_def intro: timed_reachable.move split: option.splits)
qed (auto intro!: enqueue_inv dest: get_or_init_inv [OF assms] split: prod.splits)

lemma front_run_inv: "front_inv f \<Longrightarrow> front_inv (snd (front_run ops f))"
proof (induction ops arbitrary: f)
  case (Cons op ops)
  obtain spawned o' where op: "op = (spawned, o')" by fastforce
  have "front_inv (snd (front_run ops (snd (front_exec spawned o' f))))"
    using Cons.IH front_exec_inv [OF Cons.prems] .
  then show ?case by (simp add: op case_prod_unfold)
qed simp

section \<open>A front end that cannot recover\<close>

definition unreachable_dog :: "'id front \<Rightarrow> bool" where
  "unreachable_dog f \<longleftrightarrow> once_cell f \<noteq> None
     \<and> (case dog f of None \<Rightarrow> is_err (the (once_cell f)) | Some c \<Rightarrow> \<not> alive c)"

lemma unreachable_exec:
  assumes "unreachable_dog f"
  shows "unreachable_dog (snd (front_exec spawned op f))
    \<and> fst (front_exec spawned op f) \<in> {None, Some (Inl SendErr)}"
proof -
  obtain cell where once: "once_cell f = Some cell" using assms by (auto simp: unreachable_dog_def)
  have init: "get_or_init spawned f = (cell, f)" using once by (simp add: get_or_init_def)
  have closed: "mailbox f w m = Inl ''Messaging failed to enqueue the message''" for w m
    using assms by (auto simp: unreachable_dog_def mailbox_def split: option.splits)
  then have box: "enqueue m f = f" for m by (simp add: enqueue_def)
  show ?thesis
  proof (cases op)
    case (DogMoves a)
    have "\<not> alive c'" if "\<not> alive c" "timed_exec handle_watchdog wd_external a c = Some c'" for c c'
      using that by (cases a) (auto split: option.splits if_splits)
    then show ?thesis using DogMoves assms by (auto simp: unreachable_dog_def split: option.splits)
  qed (use assms init closed box in \<open>auto simp: watchdog_register_def watchdog_unregister_def
      watchdog_ping_def watchdog_stats_def wd_cast_def wd_call_def answered_def split: sum.splits\<close>)
qed

lemma unreachable_run:
  "unreachable_dog f \<Longrightarrow> set (fst (front_run ops f)) \<subseteq> {Inl SendErr}"
proof (induction ops arbitrary: f)
  case (Cons op ops)
  obtain spawned o' where op: "op = (spawned, o')" by fastforce
  show ?case
    using unreachable_exec [OF Cons.prems, of spawned o'] Cons.IH [of "snd (front_exec spawned o' f)"]
    by (auto simp: op split: prod.splits option.splits)
qed simp

section \<open>Properties\<close>

text \<open>
  A process has one watchdog. Over every history of calls and of moves of the actor, the
  watchdog is spawned at most once, whatever the later spawns would have given; and what
  the functions put in its inbox never makes it lose a registered actor: each has a timer
  pending or its timeout on the way.
\<close>

theorem front_end_has_one_watchdog:
  "spawns (snd (front_run ops front_init)) \<le> 1
   \<and> (\<forall>c who. dog (snd (front_run ops front_init)) = Some c \<longrightarrow>
        map_of (subjects (actor c)) who \<noteq> None \<longrightarrow> covered who c)"
proof -
  have "front_inv (snd (front_run ops front_init))" using front_run_inv [OF front_inv_init] .
  then show ?thesis
    using watchdog_reachable_inv by (fastforce simp: front_inv_def wd_inv_def all_covered_def)
qed

theorem front_end_has_one_watchdog_witness:
  "case front_run [(Inr ((), ()), DoRegister \<lparr>get_id = 1 :: nat, get_name = None\<rparr> 10 Kill),
       (Inr ((), ()), DogMoves (Take Ok_unit)), (Inl (Error ''again''), DoPing 1 (Success ()))] front_init
   of (rs, f) \<Rightarrow> rs = [Inr (), Inr ()] \<and> spawns f \<le> 1 \<and> (\<exists>c. dog f = Some c \<and> covered 1 c)"
proof -
  let ?ops = "[(Inr ((), ()), DoRegister \<lparr>get_id = 1 :: nat, get_name = None\<rparr> 10 Kill),
    (Inr ((), ()), DogMoves (Take Ok_unit)), (Inl (Error ''again''), DoPing 1 (Success ()))]"
  obtain rs f c where run: "front_run ?ops front_init = (rs, f)" "rs = [Inr (), Inr ()]" "dog f = Some c"
      "map_of (subjects (actor c)) 1 \<noteq> None"
    by (simp add: front_init_def get_or_init_def wd_spawn_def mailbox_def enqueue_def answered_def
        watchdog_register_def watchdog_ping_def wd_cast_def wd_call_def Let_def timed_init_def
        watchdog_pre_start_def wd_handler_defs commit_def hm_insert_def)
  then show ?thesis using front_end_has_one_watchdog [of ?ops] by auto
qed

text \<open>
  C35. A front end without its watchdog never gets another one. When the first call finds that
  the watchdog cannot be spawned, that call and every later one fail with \<open>SendErr\<close>, even if
  a later spawn would have succeeded; and once the watchdog has failed, so does every later
  call. Programs go on unwatched.
\<close>

theorem front_end_never_recovers:
  assumes "\<And>a. op \<noteq> DogMoves a"
    and "dog (snd (front_run before front_init)) = Some c" and "\<not> alive c"
  shows "set (fst (front_run ((Inl e, op) # ops) front_init)) = {Inl SendErr}
    \<and> set (fst (front_run ops (snd (front_run before front_init)))) \<subseteq> {Inl SendErr}"
proof -
  have first: "fst (front_exec (Inl e) op front_init) = Some (Inl SendErr)
      \<and> unreachable_dog (snd (front_exec (Inl e) op (front_init :: 'a front)))"
    using assms(1)
    by (cases op) (auto simp: front_init_def get_or_init_def wd_spawn_def Let_def unreachable_dog_def enqueue_def
        mailbox_def watchdog_register_def watchdog_unregister_def watchdog_ping_def watchdog_stats_def
        wd_cast_def wd_call_def)
  have "set (fst (front_run ((Inl e, op) # ops) front_init)) = {Inl SendErr}"
    using first unreachable_run [of "snd (front_exec (Inl e) op front_init)" ops]
    by (auto simp: case_prod_unfold split: option.splits)
  moreover have "front_inv (snd (front_run before front_init))" using front_run_inv [OF front_inv_init] .
  then have "unreachable_dog (snd (front_run before front_init))"
    using assms(2,3) by (auto simp: front_inv_def unreachable_dog_def split: option.splits)
  ultimately show ?thesis using unreachable_run by blast
qed

theorem front_end_never_recovers_witness:
  "fst (front_run [(Inl (Error ''no runtime''), DoPing (1 :: nat) (Success ())), (Inr ((), ()), DoStats (Success 0))]
     front_init) = [Inl SendErr, Inl SendErr]
   \<and> set (fst (front_run [(Inr ((), ()), DoPing (1 :: nat) (Success ()))]
        (snd (front_run [(Inr ((), ()), DoStats SenderError), (Inr ((), ()), DogMoves (Take (Inl (Error ''closed''))))]
          front_init)))) \<subseteq> {Inl SendErr}"
proof -
  let ?before = "[(Inr ((), ()), DoStats SenderError),
    (Inr ((), ()), DogMoves (Take (Inl (Error ''closed''))))] :: ((fault + (unit \<times> unit)) \<times> nat front_op) list"
  obtain c where dead: "dog (snd (front_run ?before front_init)) = Some c" "\<not> alive c"
    by (simp add: front_init_def get_or_init_def wd_spawn_def mailbox_def enqueue_def answered_def
        watchdog_stats_def wd_call_def Let_def timed_init_def watchdog_pre_start_def wd_stats_def)
  let ?two = "fst (front_run [(Inl (Error ''no runtime''), DoPing (1 :: nat) (Success ())),
      (Inr ((), ()), DoStats (Success 0))] front_init)"
  have ping: "DoPing (1 :: nat) (Success ()) \<noteq> DogMoves a" for a by simp
  note never = front_end_never_recovers [OF ping dead]
  have "length ?two = 2" by (simp add: case_prod_unfold)
  then obtain x y where xy: "?two = [x, y]" by (auto simp: length_Suc_conv numeral_2_eq_2)
  have "set ?two = {Inl SendErr}" by (rule conjunct1 [OF never])
  then have "?two = [Inl SendErr, Inl SendErr]" unfolding xy by (auto simp: doubleton_eq_iff insert_eq_iff)
  then show ?thesis by (rule conjI) (rule conjunct2 [OF never])
qed

end
