(* ===== verification/Cron_Worker.thy ===== *)
theory Cron_Worker
  imports Timers
begin

text \<open>
  The cron worker of \<open>src/ractor_actors/src/time/cron/worker.rs\<close>: an actor that runs one
  job each time its schedule comes up, by sending itself \<open>Execute\<close> after a delay.

  The \<open>cron\<close> crate's schedule is a parameter: \<open>upcoming sched now\<close> is the first instant
  after \<open>now\<close>, or none. A call reads the clock twice, once inside \<open>upcoming\<close> and once to
  compute the delay; both readings are part of the call's environment, with what the job
  does when it is run. The first \<open>Execute\<close> timer has the token of the start-up.
\<close>

section \<open>State, messages and environment\<close>

record ('sched, 'job) cron_settings =
  cfg_schedule :: 'sched
  cfg_job :: 'job

record ('sched, 'job) cron_state =
  schedule :: 'sched
  job :: 'job
  next_schedule_handle :: "nat option"

datatype 'sched cron_message = Execute | UpdateSchedule 'sched

datatype cron_act = Worked "unit result"

record 'job cron_env =
  now_upcoming :: nat
  now_period :: nat
  work :: "'job \<Rightarrow> unit result \<times> 'job"

type_synonym 'sched upcoming = "'sched \<Rightarrow> nat \<Rightarrow> nat option"

section \<open>Scheduling the next execution\<close>

text \<open>\<open>next - Utc::now()\<close>, then \<open>to_std\<close>, which refuses a negative duration.\<close>

definition period_to_std :: "nat \<Rightarrow> nat \<Rightarrow> nat result" where
  "period_to_std next_run now =
    (let period = int next_run - int now
     in if period < 0 then Inl (Error ''OutOfRangeError'') else Inr (nat period))"

definition schedule_next :: "'sched upcoming \<Rightarrow> 'job cron_env \<Rightarrow> nat \<Rightarrow> ('sched, 'job) cron_state
    \<Rightarrow> (('sched, 'job) cron_state, ('sched cron_message, cron_act) timed_effect) outcome" where
  "schedule_next upcoming env tok s =
    (case upcoming (schedule s) (now_upcoming env) of
       Some next_run \<Rightarrow>
         (case period_to_std next_run (now_period env) of
            Inl e \<Rightarrow> Outcome s [] (Inl e)
          | Inr period \<Rightarrow>
              Outcome (s\<lparr>next_schedule_handle := Some tok\<rparr>) [SendAfter tok period Execute] Ok_unit)
     | None \<Rightarrow> Outcome (s\<lparr>next_schedule_handle := None\<rparr>) [] Ok_unit)"

section \<open>Start, stop and the handlers\<close>

definition cron_pre_start :: "'sched upcoming \<Rightarrow> 'job cron_env \<Rightarrow> nat \<Rightarrow> ('sched, 'job) cron_settings
    \<Rightarrow> (('sched, 'job) cron_state \<times> ('sched cron_message, cron_act) timed_effect list) result" where
  "cron_pre_start upcoming env tok cfg =
    (case upcoming (cfg_schedule cfg) (now_upcoming env) of
       Some next_run \<Rightarrow>
         (case period_to_std next_run (now_period env) of
            Inl e \<Rightarrow> Inl e
          | Inr period \<Rightarrow>
              Inr (\<lparr>schedule = cfg_schedule cfg, job = cfg_job cfg, next_schedule_handle = Some tok\<rparr>,
                   [SendAfter tok period Execute]))
     | None \<Rightarrow>
         Inr (\<lparr>schedule = cfg_schedule cfg, job = cfg_job cfg, next_schedule_handle = None\<rparr>, []))"

definition take_handle :: "('sched, 'job) cron_state
    \<Rightarrow> ('sched, 'job) cron_state \<times> ('sched cron_message, cron_act) timed_effect list" where
  "take_handle s =
    (case next_schedule_handle s of
       Some handle \<Rightarrow> (s\<lparr>next_schedule_handle := None\<rparr>, [Abort handle])
     | None \<Rightarrow> (s, []))"

definition cron_post_stop :: "('sched, 'job) cron_state
    \<Rightarrow> (('sched, 'job) cron_state, ('sched cron_message, cron_act) timed_effect) outcome" where
  "cron_post_stop s = (let (s', es) = take_handle s in Outcome s' es Ok_unit)"

text \<open>An error of the job is logged and ignored; a panic ends the handler.\<close>

definition execute :: "'sched upcoming \<Rightarrow> 'job cron_env \<Rightarrow> nat \<Rightarrow> ('sched, 'job) cron_state
    \<Rightarrow> (('sched, 'job) cron_state, ('sched cron_message, cron_act) timed_effect) outcome" where
  "execute upcoming env tok s =
    (case work env (job s) of (r, j) \<Rightarrow>
       (let s' = s\<lparr>job := j\<rparr>
        in case r of
             Inl (Panic p) \<Rightarrow> Outcome s' [Act (Worked r)] (Inl (Panic p))
           | _ \<Rightarrow> followed_by (Outcome s' [Act (Worked r)] Ok_unit) (schedule_next upcoming env tok s')))"

definition update_schedule :: "'sched upcoming \<Rightarrow> 'job cron_env \<Rightarrow> nat \<Rightarrow> 'sched \<Rightarrow> ('sched, 'job) cron_state
    \<Rightarrow> (('sched, 'job) cron_state, ('sched cron_message, cron_act) timed_effect) outcome" where
  "update_schedule upcoming env tok new_schedule s =
    (let (s1, es) = take_handle s;
         s2 = s1\<lparr>schedule := new_schedule\<rparr>
     in followed_by (Outcome s2 es Ok_unit) (schedule_next upcoming env tok s2))"

fun handle_cron :: "'sched upcoming
    \<Rightarrow> ('job cron_env, ('sched, 'job) cron_state, 'sched cron_message, cron_act) timed_handler" where
  "handle_cron upcoming env tok Execute s = execute upcoming env tok s"
| "handle_cron upcoming env tok (UpdateSchedule new_schedule) s =
    update_schedule upcoming env tok new_schedule s"

text \<open>
  Only schedule updates come from outside: the message type is private to the module, and
  the manager sends no \<open>Execute\<close>.
\<close>

fun cron_external :: "'sched cron_message \<Rightarrow> bool" where
  "cron_external (UpdateSchedule _) = True"
| "cron_external Execute = False"

text \<open>The configuration after a successful start-up.\<close>

definition cron_boot :: "nat \<Rightarrow> ('sched, 'job) cron_state \<times> ('sched cron_message, cron_act) timed_effect list
    \<Rightarrow> (('sched, 'job) cron_state, 'sched cron_message, cron_act) timed" where
  "cron_boot now started =
    commit (Outcome (fst started) (snd started) Ok_unit)
      (timed_init (fst started) \<lparr>clock := now\<rparr>)"

type_synonym ('sched, 'job) cron_config = "(('sched, 'job) cron_state, 'sched cron_message, cron_act) timed"

lemmas cron_defs = schedule_next_def execute_def update_schedule_def take_handle_def
  cron_post_stop_def cron_pre_start_def period_to_std_def

section \<open>Pending executions\<close>

text \<open>The executions under way: timers that will send one, and those in the inbox.\<close>

definition pending_executions :: "('sched, 'job) cron_config \<Rightarrow> nat" where
  "pending_executions c = length (timers c) + length (filter (\<lambda>m. \<not> cron_external m) (inbox c))"

definition chains_inv :: "nat \<Rightarrow> ('sched, 'job) cron_config \<Rightarrow> bool" where
  "chains_inv n c \<longleftrightarrow>
     (\<forall>t \<in> set (timers c). payload t = Execute) \<and> (\<forall>m \<in> set (inbox c). m = Execute)
     \<and> (alive c \<longrightarrow> pending_executions c = n)"

text \<open>While its schedule has a next instant, a worker that is alive has an execution pending.\<close>

definition awake_inv :: "('sched, 'job) cron_config \<Rightarrow> bool" where
  "awake_inv c \<longleftrightarrow>
     (\<forall>t \<in> set (timers c). payload t = Execute)
     \<and> (alive c \<and> next_schedule_handle (actor c) \<noteq> None \<longrightarrow> timers c \<noteq> [] \<or> Execute \<in> set (inbox c))"

lemma schedule_next_cases:
  "(\<exists>e. schedule_next upcoming env tok s = Outcome s [] (Inl e))
   \<or> (\<exists>period. schedule_next upcoming env tok s =
        Outcome (s\<lparr>next_schedule_handle := Some tok\<rparr>) [SendAfter tok period Execute] Ok_unit)
   \<or> upcoming (schedule s) (now_upcoming env) = None
     \<and> schedule_next upcoming env tok s = Outcome (s\<lparr>next_schedule_handle := None\<rparr>) [] Ok_unit"
  by (auto simp: schedule_next_def split: option.splits sum.splits)

lemma execute_eq:
  "work env (job s) = (r, j) \<Longrightarrow> execute upcoming env tok s =
     (if \<exists>p. r = Inl (Panic p) then Outcome (s\<lparr>job := j\<rparr>) [Act (Worked r)] r
      else followed_by (Outcome (s\<lparr>job := j\<rparr>) [Act (Worked r)] Ok_unit)
             (schedule_next upcoming env tok (s\<lparr>job := j\<rparr>)))"
  by (auto simp: execute_def Let_def split: sum.splits fault.splits)

lemma awake_take:
  assumes "awake_inv c" and "inbox c = m # ms"
  shows "awake_inv (commit (handle_cron upcoming env (fresh c) m (actor c)) (c\<lparr>inbox := ms\<rparr>))"
proof (cases m)
  case Execute
  obtain r j where "work env (job (actor c)) = (r, j)" by fastforce
  then show ?thesis
    using assms Execute schedule_next_cases [of upcoming env "fresh c" "actor c\<lparr>job := j\<rparr>"]
    by (auto simp: awake_inv_def execute_eq)
next
  case (UpdateSchedule new)
  let ?s = "fst (take_handle (actor c))\<lparr>schedule := new\<rparr>"
  show ?thesis
    using assms UpdateSchedule schedule_next_cases [of upcoming env "fresh c" ?s]
    by (auto simp: awake_inv_def update_schedule_def take_handle_def Let_def split: option.splits)
qed

interpretation awake: timed_invariant "handle_cron upcoming" cron_external awake_inv for upcoming
proof unfold_locales
  fix c :: "('a, 'b) cron_config" and t
  assume "awake_inv c" "t \<in> set (timers c)" "due t \<le> clock c"
  then show "awake_inv (c\<lparr>timers := remove1 t (timers c), inbox := inbox c @ [payload t]\<rparr>)"
    by (auto simp: awake_inv_def dest: set_remove1_subset [THEN subsetD])
qed (simp_all add: awake_take, auto simp: awake_inv_def)

lemma chains_take:
  assumes up: "\<And>s n. upcoming s n \<noteq> None" and inv: "chains_inv n c"
    and c: "alive c" "inbox c = m # ms"
  shows "chains_inv n (commit (handle_cron upcoming env (fresh c) m (actor c)) (c\<lparr>inbox := ms\<rparr>))"
proof -
  obtain r j where w: "work env (job (actor c)) = (r, j)" by fastforce
  have m: "m = Execute" using inv c by (simp add: chains_inv_def)
  show ?thesis
    using inv c m w schedule_next_cases [of upcoming env "fresh c" "actor c\<lparr>job := j\<rparr>"] up
    by (auto simp: chains_inv_def pending_executions_def execute_eq)
qed

text \<open>
  With no message from outside, the number of pending executions does not change while
  the worker lives: each execution schedules exactly one successor.
\<close>

lemma chains_reachable:
  assumes "timed_reachable (handle_cron upcoming) (\<lambda>_. False) c0 c"
    and up: "\<And>s n. upcoming s n \<noteq> None" and "chains_inv n c0"
  shows "chains_inv n c"
  using assms(1,3)
proof (induction rule: timed_reachable.induct)
  case (move c a c')
  then have inv: "chains_inv n c" by simp
  show ?case
  proof (cases a)
    case (Fire tok)
    then show ?thesis
      using move.hyps(2) inv
      by (auto simp: chains_inv_def pending_executions_def find_Some_iff length_remove1 split: option.splits
          dest: set_remove1_subset [THEN subsetD])
  next
    case (Take env)
    then show ?thesis
      using move.hyps(2) inv by (auto intro: chains_take [OF up] split: if_splits list.splits)
  qed (use move.hyps(2) inv in \<open>auto simp: chains_inv_def pending_executions_def\<close>)
qed simp

lemma cron_boot_chains:
  assumes "cron_pre_start upcoming env 0 cfg = Inr started" and "\<And>s n. upcoming s n \<noteq> None"
  shows "chains_inv 1 (cron_boot now started) \<and> awake_inv (cron_boot now started)"
  using assms(1) assms(2) [of "cfg_schedule cfg" "now_upcoming env"]
  by (auto simp: cron_pre_start_def cron_boot_def chains_inv_def awake_inv_def pending_executions_def
      split: option.splits sum.splits)

lemma cron_boot_awake:
  "cron_pre_start upcoming env 0 cfg = Inr started \<Longrightarrow> awake_inv (cron_boot now started)"
  by (auto simp: cron_pre_start_def cron_boot_def awake_inv_def split: option.splits sum.splits)

section \<open>Properties\<close>

text \<open>
  C12. A worker keeps going: in every configuration reachable from its start-up, under any
  interleaving of executions and schedule updates, whatever its job returns and whatever
  instants its schedules have or no longer have, a worker that is alive and whose last schedule
  lookup found an instant has an execution pending.
\<close>

theorem worker_stays_awake:
  assumes "cron_pre_start upcoming env 0 cfg = Inr started"
    and "timed_reachable (handle_cron upcoming) cron_external (cron_boot now started) c"
    and "alive c" and "next_schedule_handle (actor c) \<noteq> None"
  shows "timers c \<noteq> [] \<or> Execute \<in> set (inbox c)"
  using awake.inv_reachable [OF assms(2)] cron_boot_awake [OF assms(1)] assms(3,4)
  by (auto simp: awake_inv_def)

text \<open>A schedule of an instant every ten units, and a job that counts and sometimes errs.\<close>

definition every_ten :: "unit upcoming" where
  "every_ten s n = Some ((n div 10 + 1) * 10)"

definition env_at :: "nat \<Rightarrow> nat cron_env" where
  "env_at n = \<lparr>now_upcoming = n, now_period = n,
     work = (\<lambda>k. (if even k then Ok_unit else Inl (Error ''odd''), Suc k))\<rparr>"

definition boot_every_ten :: "(unit, nat) cron_config" where
  "boot_every_ten = cron_boot 0 (\<lparr>schedule = (), job = 0, next_schedule_handle = Some 0\<rparr>,
     [SendAfter 0 10 Execute])"

lemma boot_every_ten_started:
  "cron_pre_start every_ten (env_at 0) 0 \<lparr>cfg_schedule = (), cfg_job = 0\<rparr>
    = Inr (\<lparr>schedule = (), job = 0, next_schedule_handle = Some 0\<rparr>, [SendAfter 0 10 Execute])"
  by (simp add: cron_pre_start_def every_ten_def env_at_def period_to_std_def)

theorem worker_stays_awake_witness:
  "\<exists>c. timed_run (handle_cron every_ten) cron_external
        (wait 10 @ [Fire 0, Take (env_at 10)]) boot_every_ten = Some c
     \<and> (timers c \<noteq> [] \<or> Execute \<in> set (inbox c))"
proof -
  obtain c where c: "timed_run (handle_cron every_ten) cron_external
      (wait 10 @ [Fire 0, Take (env_at 10)]) boot_every_ten = Some c"
      "alive c" "next_schedule_handle (actor c) = Some 1"
    by (simp add: boot_every_ten_def cron_boot_def commit_def timed_init_def
        execute_eq env_at_def schedule_next_def every_ten_def period_to_std_def followed_by_def)
  have "timers c \<noteq> [] \<or> Execute \<in> set (inbox c)"
    by (rule worker_stays_awake [OF boot_every_ten_started, where now = 0])
      (use timed_run_reachable [OF timed_reachable.start c(1)] c
        in \<open>simp_all add: boot_every_ten_def\<close>)
  then show ?thesis using c(1) by blast
qed

text \<open>
  Each execution schedules exactly one successor: with no update on the way, the number of
  pending executions of a worker that is alive never changes. A worker that has one, as
  every started worker has, keeps exactly one; a worker that ever has two keeps two.
\<close>

theorem pending_executions_are_constant:
  assumes "\<And>s n. upcoming s n \<noteq> None" and "chains_inv n c0"
    and "timed_reachable (handle_cron upcoming) (\<lambda>_. False) c0 c" and "alive c"
  shows "pending_executions c = n"
  using chains_reachable [OF assms(3,1,2)] assms(4) by (simp add: chains_inv_def)

theorem pending_executions_are_constant_witness:
  "\<exists>c. timed_run (handle_cron every_ten) (\<lambda>_. False)
        (wait 10 @ [Fire 0, Take (env_at 10)]) boot_every_ten = Some c
     \<and> pending_executions c = 1"
proof -
  obtain c where c: "timed_run (handle_cron every_ten) (\<lambda>_. False)
      (wait 10 @ [Fire 0, Take (env_at 10)]) boot_every_ten = Some c" "alive c"
    by (simp add: boot_every_ten_def cron_boot_def commit_def timed_init_def
        execute_eq env_at_def schedule_next_def every_ten_def period_to_std_def followed_by_def)
  have "chains_inv 1 boot_every_ten"
    using cron_boot_chains [OF boot_every_ten_started, of 0] by (simp add: boot_every_ten_def every_ten_def)
  from pending_executions_are_constant [OF _ this timed_run_reachable [OF timed_reachable.start c(1)] c(2)]
  show ?thesis using c(1) by (auto simp: every_ten_def)
qed

text \<open>
  A race: the executions of an instant have fired, and an update is ahead of them in the
  mailbox. \<open>races\<close> is one in each of the next \<open>k\<close> instants of a schedule with an instant every
  \<open>d\<close> units; \<open>p\<close> executions are pending, with the tokens before \<open>f\<close>.
\<close>

definition on_time :: "('job \<Rightarrow> unit result \<times> 'job) \<Rightarrow> nat \<Rightarrow> 'job cron_env" where
  "on_time w now = \<lparr>now_upcoming = now, now_period = now, work = w\<rparr>"

fun races :: "('job \<Rightarrow> unit result \<times> 'job) \<Rightarrow> nat \<Rightarrow> 'sched \<Rightarrow> nat \<Rightarrow> nat \<Rightarrow> nat \<Rightarrow> nat
    \<Rightarrow> ('job cron_env, 'sched cron_message) move list" where
  "races w d new 0 n f p = []"
| "races w d new (Suc k) n f p =
    wait d @ [Arrive (UpdateSchedule new)] @ map Fire [f - p..<f]
    @ replicate (Suc p) (Take (on_time w (Suc n * d))) @ races w d new k (Suc n) (Suc f + p) (Suc p)"

abbreviation pending_at :: "nat \<Rightarrow> nat list \<Rightarrow> 'sched cron_message timer list" where
  "pending_at t toks \<equiv> map (\<lambda>tok. \<lparr>token = tok, due = t, payload = Execute\<rparr>) toks"

lemma fires_run:
  "t \<le> clock c \<Longrightarrow> timers c = pending_at t toks \<Longrightarrow>
   timed_run h external (map Fire toks @ as) c
     = timed_run h external as (c\<lparr>timers := [], inbox := inbox c @ replicate (length toks) Execute\<rparr>)"
proof (induction toks arbitrary: c)
  case (Cons tok toks)
  then show ?case
    using Cons.IH [of "c\<lparr>timers := pending_at t toks, inbox := inbox c @ [Execute]\<rparr>"] by simp
next
  case Nil
  then show ?case by (cases c) simp
qed

text \<open>Executions of one instant, taken one after the other, on a job that does not panic.\<close>

lemma executes_run:
  assumes "\<And>j p. fst (w j) \<noteq> Inl (Panic p)" and "\<And>s. upcoming s t = Some (t + d)"
  shows "\<exists>j' handle' log'. timed_run (handle_cron upcoming) cron_external (replicate p (Take (on_time w t)) @ as)
      \<lparr>clock = t, actor = \<lparr>schedule = s, job = j, next_schedule_handle = Some handle\<rparr>, timers = ts,
       inbox = replicate p Execute, fresh = f, alive = True, log = log0\<rparr>
    = timed_run (handle_cron upcoming) cron_external as
      \<lparr>clock = t, actor = \<lparr>schedule = s, job = j', next_schedule_handle = Some handle'\<rparr>,
       timers = ts @ pending_at (t + d) [f..<f + p], inbox = [], fresh = f + p, alive = True, log = log'\<rparr>
    \<and> length log' = length log0 + p"
proof (induction p arbitrary: j handle ts f log0)
  case (Suc p)
  obtain r j1 where work: "w j = (r, j1)" by fastforce
  then have no_panic: "\<nexists>p. r = Inl (Panic p)" using assms(1) [of j] by auto
  have "timed_run (handle_cron upcoming) cron_external (replicate (Suc p) (Take (on_time w t)) @ as)
      \<lparr>clock = t, actor = \<lparr>schedule = s, job = j, next_schedule_handle = Some handle\<rparr>, timers = ts,
       inbox = replicate (Suc p) Execute, fresh = f, alive = True, log = log0\<rparr>
    = timed_run (handle_cron upcoming) cron_external (replicate p (Take (on_time w t)) @ as)
      \<lparr>clock = t, actor = \<lparr>schedule = s, job = j1, next_schedule_handle = Some f\<rparr>,
       timers = ts @ pending_at (t + d) [f], inbox = replicate p Execute, fresh = Suc f, alive = True,
       log = log0 @ [Worked r]\<rparr>"
    using work no_panic assms(2)
    by (simp add: execute_eq on_time_def schedule_next_def period_to_std_def commit_def)
  then show ?case
    using Suc.IH [of j1 f "ts @ pending_at (t + d) [f]" "Suc f" "log0 @ [Worked r]"]
    by (simp add: upt_rec [of f "Suc (f + p)"] del: upt_Suc)
qed auto

lemma races_run:
  assumes "\<And>j p. fst (w j) \<noteq> Inl (Panic p)" and "\<And>s n. upcoming s (n * d) = Some (Suc n * d)" and "p \<le> f"
  shows "\<exists>c. timed_run (handle_cron upcoming) cron_external (races w d new k n f p)
      \<lparr>clock = n * d, actor = \<lparr>schedule = s, job = j, next_schedule_handle = Some handle\<rparr>,
       timers = pending_at (Suc n * d) [f - p..<f], inbox = [], fresh = f, alive = True, log = log0\<rparr> = Some c
    \<and> clock c = (n + k) * d \<and> alive c \<and> map due (timers c) = replicate (p + k) (Suc (n + k) * d) \<and> inbox c = []
    \<and> length (log c) = length log0 + (\<Sum>i<k. p + i)"
  using assms(3)
proof (induction k arbitrary: n s j handle f p log0)
  case 0
  then show ?case by (simp add: comp_def map_replicate_const)
next
  case (Suc k)
  let ?as = "races w d new k (Suc n) (Suc f + p) (Suc p)" and ?t = "Suc n * d"
  let ?c0 = "\<lparr>clock = n * d, actor = \<lparr>schedule = s, job = j, next_schedule_handle = Some handle\<rparr>,
       timers = pending_at ?t [f - p..<f], inbox = [], fresh = f, alive = True, log = log0\<rparr>"
  let ?c1 = "\<lparr>clock = ?t, actor = \<lparr>schedule = new, job = j, next_schedule_handle = Some f\<rparr>,
       timers = pending_at (?t + d) [f], inbox = replicate p Execute, fresh = Suc f, alive = True, log = log0\<rparr>"
  have next_instant: "upcoming s' ?t = Some (?t + d)" for s' using assms(2) [of s' "Suc n"] by (simp add: add.commute)
  have update: "timed_run (handle_cron upcoming) cron_external (races w d new (Suc k) n f p) ?c0
      = timed_run (handle_cron upcoming) cron_external (replicate p (Take (on_time w ?t)) @ ?as) ?c1"
    using Suc.prems next_instant [of new]
    by (simp add: fires_run [of ?t] update_schedule_def take_handle_def schedule_next_def on_time_def
        period_to_std_def commit_def add.commute add.left_commute)
  obtain j' handle' log' where executes:
    "timed_run (handle_cron upcoming) cron_external (replicate p (Take (on_time w ?t)) @ ?as) ?c1
      = timed_run (handle_cron upcoming) cron_external ?as
        \<lparr>clock = ?t, actor = \<lparr>schedule = new, job = j', next_schedule_handle = Some handle'\<rparr>,
         timers = pending_at (?t + d) [f] @ pending_at (?t + d) [Suc f..<Suc f + p], inbox = [], fresh = Suc f + p,
         alive = True, log = log'\<rparr>" and log: "length log' = length log0 + p"
    using executes_run [where w = w and upcoming = upcoming and t = ?t and d = d, OF assms(1) next_instant] by blast
  have pending: "pending_at (?t + d) [f] @ pending_at (?t + d) [Suc f..<Suc f + p]
      = pending_at (Suc (Suc n) * d) [Suc f + p - Suc p..<Suc f + p]"
    by (simp add: upt_rec [of f "Suc (f + p)"] add.commute del: upt_Suc)
  have runs: "length log' + (\<Sum>i<k. Suc p + i) = length log0 + (\<Sum>i<Suc k. p + i)"
    using log by (simp add: sum.lessThan_Suc_shift del: sum.lessThan_Suc)
  have "Suc p \<le> Suc f + p" by simp
  from Suc.IH [OF this, of "Suc n" new j' handle' log'] show ?case
    unfolding update executes pending runs add_Suc_shift [of n k] add_Suc_shift [of p k] .
qed

text \<open>
  C38. Every race adds an execution for good. When a schedule update is ahead of the executions
  of an instant that have already fired, it aborts a timer that is gone and starts one, and each
  of the executions starts another: after \<open>k\<close> such updates, each at an instant of
  the schedule, \<open>k\<close> executions more than before are due at the next instant, and at
  these instants, counted from zero, the job has run zero times, once, twice, and so on more
  than it should.
\<close>

theorem every_race_adds_an_execution:
  assumes "\<And>j p. fst (w j) \<noteq> Inl (Panic p)" and "\<And>s n. upcoming s (n * d) = Some (Suc n * d)"
    and "cron_pre_start upcoming (on_time w 0) 0 cfg = Inr started"
  shows "\<exists>c. timed_run (handle_cron upcoming) cron_external (races w d new k 0 1 1) (cron_boot 0 started) = Some c
    \<and> clock c = k * d \<and> alive c \<and> map due (timers c) = replicate (1 + k) (Suc k * d)
    \<and> length (log c) = (\<Sum>i<k. 1 + i)"
proof -
  have boot: "cron_boot 0 started = \<lparr>clock = 0 * d,
      actor = \<lparr>schedule = cfg_schedule cfg, job = cfg_job cfg, next_schedule_handle = Some 0\<rparr>,
      timers = pending_at (Suc 0 * d) [1 - 1..<1], inbox = [], fresh = 1, alive = True, log = []\<rparr>"
    using assms(3) assms(2) [of _ 0]
    by (auto simp: cron_pre_start_def on_time_def period_to_std_def cron_boot_def commit_def timed_init_def)
  show ?thesis
    using races_run [where w = w and upcoming = upcoming and d = d and p = 1 and f = 1 and n = 0 and ?log0.0 = "[]"
        and s = "cfg_schedule cfg" and j = "cfg_job cfg" and handle = 0 and new = new and k = k, OF assms(1,2) order.refl]
    unfolding boot add_0 list.size(3) by blast
qed

theorem every_race_adds_an_execution_witness:
  "\<exists>c. timed_run (handle_cron (\<lambda>_ t. Some ((t div 10 + 1) * 10))) cron_external
      (races (\<lambda>k :: nat. (if even k then Ok_unit else Inl (Error ''odd''), Suc k)) 10 () 3 0 1 1)
      (cron_boot 0 (\<lparr>schedule = (), job = 0, next_schedule_handle = Some 0\<rparr>, [SendAfter 0 10 Execute])) = Some c
    \<and> clock c = 30 \<and> map due (timers c) = [40, 40, 40, 40] \<and> length (log c) = 6"
proof -
  have "replicate (1 + 3) x = [x, x, x, x]" "(\<Sum>i<3. 1 + i) = (6 :: nat)" for x :: nat
    by (simp_all add: eval_nat_numeral)
  moreover have "(if even j then Ok_unit else Inl (Error ''odd'')) \<noteq> Inl (Panic p)" for j :: nat and p
    by simp
  ultimately show ?thesis
    using every_race_adds_an_execution [of "\<lambda>k :: nat. (if even k then Ok_unit else Inl (Error ''odd''), Suc k)"
        "\<lambda>_ t. Some ((t div 10 + 1) * 10)" 10 "\<lparr>cfg_schedule = (), cfg_job = 0\<rparr>"
        "(\<lparr>schedule = (), job = 0, next_schedule_handle = Some 0\<rparr>, [SendAfter 0 10 Execute])" "()" 3]
    by (simp add: cron_pre_start_def on_time_def period_to_std_def) (elim exE conjE; intro exI conjI; assumption)
qed

text \<open>
  An execution fails only when the job panics or when the clock has passed the instant
  found by the first reading before the second one; an error returned by the job never
  ends the worker, and in every case the job has been run exactly once.
\<close>

theorem execute_failure_causes:
  "(is_err (returned (execute upcoming env tok s)) \<longleftrightarrow>
      (\<exists>p. fst (work env (job s)) = Inl (Panic p))
      \<or> (\<exists>t. upcoming (schedule s) (now_upcoming env) = Some t \<and> t < now_period env))
   \<and> acts (effects (execute upcoming env tok s)) = [Worked (fst (work env (job s)))]
   \<and> job (state_of (execute upcoming env tok s)) = snd (work env (job s))"
proof -
  obtain r j where "work env (job s) = (r, j)" by fastforce
  then show ?thesis
    by (auto simp: execute_eq schedule_next_def period_to_std_def Let_def split: option.splits)
qed

text \<open>
  An update that finds the worker waiting on its timer replaces that timer: the pending one
  is aborted, and the only one left is due at the new schedule's next instant.
\<close>

theorem update_replaces_the_timer:
  assumes "next_schedule_handle (actor c) = Some (token t)" and "timers c = [t]"
    and "upcoming new (now_upcoming env) = Some next_run" and "now_period env \<le> next_run"
  shows "let c' = commit (handle_cron upcoming env (fresh c) (UpdateSchedule new) (actor c)) c
    in timers c' = [\<lparr>token = fresh c, due = clock c + (next_run - now_period env), payload = Execute\<rparr>]
      \<and> schedule (actor c') = new \<and> next_schedule_handle (actor c') = Some (fresh c)
      \<and> job (actor c') = job (actor c)"
  using assms
  by (auto simp: update_schedule_def take_handle_def schedule_next_def period_to_std_def Let_def)

theorem update_replaces_the_timer_witness:
  "timers (commit (handle_cron every_ten (env_at 3) (fresh boot_every_ten) (UpdateSchedule ())
      (actor boot_every_ten)) (boot_every_ten\<lparr>clock := 3\<rparr>))
   = [\<lparr>token = 1, due = 10, payload = Execute\<rparr>]"
  using update_replaces_the_timer [of "boot_every_ten\<lparr>clock := 3\<rparr>"
      "\<lparr>token = 0, due = 10, payload = Execute\<rparr>" every_ten "()" "env_at 3" 10]
  by (simp add: boot_every_ten_def cron_boot_def every_ten_def env_at_def timed_init_def commit_def Let_def)

end
