(* ===== verification/Cron_Manager.thy ===== *)
theory Cron_Manager
  imports Cron_Worker
begin

text \<open>
  The cron manager of \<open>src/ractor_actors/src/time/cron/mod.rs\<close>: an actor that starts,
  stops and reschedules named jobs, each run by a linked worker of \<open>Cron_Worker\<close>, and
  tells its subscribers what happens to them.

  A job is a trait object; its name, \<open>Job::id\<close>, is the argument \<open>job_id\<close> of the model. A
  subscriber is a trait object whose callbacks return nothing: a callback is an effect.
  Spawning a linked worker and casting to it belong to the runtime; their results, and
  the iteration orders of the two hash maps, are the environment of a call.
\<close>

section \<open>State and messages\<close>

record ('sched, 'id, 'sub) cron_manager_state =
  jobs :: "(string, 'sched \<times> 'id actor_cell) hashmap"
  subs :: "('id, 'sub) hashmap"

datatype ('sched, 'job, 'id, 'sub) cron_manager_message =
    ListJobs
  | GetSchedule string
  | SetSchedule string 'sched
  | Start "('sched, 'job) cron_settings"
  | Stop string
  | Subscribe 'id 'sub
  | Unsubscribe 'id

datatype cron_event =
    Started string
  | Stopped string "string option"
  | Failed string string

datatype ('sched, 'id, 'sub) cron_manager_effect =
    ReplyStart "unit result"
  | ReplyJobs "(string, 'sched) hashmap"
  | ReplySchedule "'sched option"
  | StopWorker "'id actor_cell" "string option"
  | CastUpdate "'id actor_cell" 'sched
  | Notify 'id 'sub cron_event

record ('sched, 'job, 'id, 'sub) manager_env =
  job_order :: "(string, 'sched \<times> 'id actor_cell) iter_order"
  sub_order :: "('id, 'sub) iter_order"
  spawn_worker :: "('sched, 'job) cron_settings \<Rightarrow> 'id actor_cell result"
  cast_update :: "'id actor_cell \<Rightarrow> 'sched \<Rightarrow> unit result"

type_synonym ('sched, 'id, 'sub) manager_outcome =
  "(('sched, 'id, 'sub) cron_manager_state, ('sched, 'id, 'sub) cron_manager_effect) outcome"

section \<open>The handlers\<close>

definition manager_pre_start :: "('sched, 'id, 'sub) cron_manager_state" where
  "manager_pre_start = \<lparr>jobs = [], subs = []\<rparr>"

definition manager_post_stop :: "('sched, 'job, 'id, 'sub) manager_env
    \<Rightarrow> ('sched, 'id, 'sub) cron_manager_state \<Rightarrow> ('sched, 'id, 'sub) manager_outcome" where
  "manager_post_stop env s =
    Outcome (s\<lparr>jobs := []\<rparr>)
      (map (\<lambda>(_, _, cell). StopWorker cell None) (job_order env (jobs s))) Ok_unit"

definition duplicate_job_error :: string where
  "duplicate_job_error = ''A job with the name {} already is scheduled''"

definition manager_start :: "('sched, 'job, 'id, 'sub) manager_env \<Rightarrow> ('job \<Rightarrow> string)
    \<Rightarrow> ('sched, 'job) cron_settings
    \<Rightarrow> ('sched, 'id, 'sub) cron_manager_state \<Rightarrow> ('sched, 'id, 'sub) manager_outcome" where
  "manager_start env job_id settings s =
    (let name = job_id (cfg_job settings); sched = cfg_schedule settings
     in if map_of (jobs s) name = None
        then (case spawn_worker env settings of
                Inl spawn_error \<Rightarrow> Outcome s [ReplyStart (Inl spawn_error)] Ok_unit
              | Inr cell \<Rightarrow>
                  Outcome (s\<lparr>jobs := hm_insert name (sched, cell) (jobs s)\<rparr>)
                    [ReplyStart Ok_unit] Ok_unit)
        else Outcome s [ReplyStart (Inl (Error duplicate_job_error))] Ok_unit)"

definition notify_all :: "('sched, 'job, 'id, 'sub) manager_env
    \<Rightarrow> ('sched, 'id, 'sub) cron_manager_state \<Rightarrow> cron_event
    \<Rightarrow> ('sched, 'id, 'sub) cron_manager_effect list" where
  "notify_all env s ev = map (\<lambda>(who, sub). Notify who sub ev) (sub_order env (subs s))"

definition manager_stop :: "('sched, 'job, 'id, 'sub) manager_env \<Rightarrow> string
    \<Rightarrow> ('sched, 'id, 'sub) cron_manager_state \<Rightarrow> ('sched, 'id, 'sub) manager_outcome" where
  "manager_stop env name s =
    (let s' = s\<lparr>jobs := hm_remove name (jobs s)\<rparr>
     in case map_of (jobs s) name of
          None \<Rightarrow> Outcome s' [] Ok_unit
        | Some (_, cell) \<Rightarrow>
            Outcome s' (StopWorker cell None # notify_all env s (Stopped name None)) Ok_unit)"

text \<open>The stored schedule is changed before the cast, whose error the handler returns.\<close>

definition manager_set_schedule :: "('sched, 'job, 'id, 'sub) manager_env \<Rightarrow> string \<Rightarrow> 'sched
    \<Rightarrow> ('sched, 'id, 'sub) cron_manager_state \<Rightarrow> ('sched, 'id, 'sub) manager_outcome" where
  "manager_set_schedule env name sched s =
    (case map_of (jobs s) name of
       None \<Rightarrow> Outcome s [] Ok_unit
     | Some (_, cell) \<Rightarrow>
         Outcome (s\<lparr>jobs := hm_insert name (sched, cell) (jobs s)\<rparr>)
           [CastUpdate cell sched] (cast_update env cell sched))"

definition manager_list_jobs :: "('sched, 'job, 'id, 'sub) manager_env
    \<Rightarrow> ('sched, 'id, 'sub) cron_manager_state \<Rightarrow> (string, 'sched) hashmap" where
  "manager_list_jobs env s =
    hm_from_iter (map (\<lambda>(name, job_state). (name, fst job_state)) (job_order env (jobs s)))"

definition manager_get_schedule :: "string \<Rightarrow> ('sched, 'id, 'sub) cron_manager_state \<Rightarrow> 'sched option" where
  "manager_get_schedule name s = map_option fst (map_of (jobs s) name)"

definition manager_subscribe :: "'id \<Rightarrow> 'sub \<Rightarrow> ('sched, 'id, 'sub) cron_manager_state
    \<Rightarrow> ('sched, 'id, 'sub) cron_manager_state" where
  "manager_subscribe who processor s = s\<lparr>subs := hm_insert who processor (subs s)\<rparr>"

definition manager_unsubscribe :: "'id \<Rightarrow> ('sched, 'id, 'sub) cron_manager_state
    \<Rightarrow> ('sched, 'id, 'sub) cron_manager_state" where
  "manager_unsubscribe who s = s\<lparr>subs := hm_remove who (subs s)\<rparr>"

fun handle_manager :: "('job \<Rightarrow> string) \<Rightarrow> ('sched, 'job, 'id, 'sub) manager_env
    \<Rightarrow> ('sched, 'job, 'id, 'sub) cron_manager_message
    \<Rightarrow> ('sched, 'id, 'sub) cron_manager_state \<Rightarrow> ('sched, 'id, 'sub) manager_outcome" where
  "handle_manager job_id env ListJobs s = Outcome s [ReplyJobs (manager_list_jobs env s)] Ok_unit"
| "handle_manager job_id env (GetSchedule name) s =
    Outcome s [ReplySchedule (manager_get_schedule name s)] Ok_unit"
| "handle_manager job_id env (SetSchedule name sched) s = manager_set_schedule env name sched s"
| "handle_manager job_id env (Start settings) s = manager_start env job_id settings s"
| "handle_manager job_id env (Stop name) s = manager_stop env name s"
| "handle_manager job_id env (Subscribe who processor) s =
    Outcome (manager_subscribe who processor s) [] Ok_unit"
| "handle_manager job_id env (Unsubscribe who) s = Outcome (manager_unsubscribe who s) [] Ok_unit"

section \<open>Supervision\<close>

text \<open>The name of the first job, in iteration order, whose worker has the given id.\<close>

definition job_of_actor :: "('sched, 'job, 'id, 'sub) manager_env \<Rightarrow> 'id
    \<Rightarrow> ('sched, 'id, 'sub) cron_manager_state \<Rightarrow> string option" where
  "job_of_actor env who s =
    map_option fst (List.find (\<lambda>(_, _, cell). get_id cell = who) (job_order env (jobs s)))"

fun manager_supervisor_evt :: "('sched, 'job, 'id, 'sub) manager_env \<Rightarrow> 'id supervision_event
    \<Rightarrow> ('sched, 'id, 'sub) cron_manager_state \<Rightarrow> ('sched, 'id, 'sub) manager_outcome" where
  "manager_supervisor_evt env (ActorFailed who what) s =
    (case job_of_actor env (get_id who) s of
       None \<Rightarrow> Outcome s [] Ok_unit
     | Some name \<Rightarrow> Outcome (s\<lparr>jobs := hm_remove name (jobs s)\<rparr>)
         (notify_all env s (Failed name what)) Ok_unit)"
| "manager_supervisor_evt env (ActorTerminated who what) s =
    (case job_of_actor env (get_id who) s of
       None \<Rightarrow> Outcome s [] Ok_unit
     | Some name \<Rightarrow> Outcome (s\<lparr>jobs := hm_remove name (jobs s)\<rparr>)
         (notify_all env s (Stopped name what)) Ok_unit)"
| "manager_supervisor_evt env (ActorStarted who) s =
    (case job_of_actor env (get_id who) s of
       None \<Rightarrow> Outcome s [] Ok_unit
     | Some name \<Rightarrow> Outcome s (notify_all env s (Started name)) Ok_unit)"
| "manager_supervisor_evt env OtherSupervisionEvent s = Outcome s [] Ok_unit"

section \<open>Well-formed states\<close>

text \<open>One entry per name, one per subscriber, and no two jobs share a worker.\<close>

definition worker_ids :: "('sched, 'id, 'sub) cron_manager_state \<Rightarrow> 'id list" where
  "worker_ids s = map (\<lambda>(_, _, cell). get_id cell) (jobs s)"

definition manager_wf :: "('sched, 'id, 'sub) cron_manager_state \<Rightarrow> bool" where
  "manager_wf s \<longleftrightarrow> hm_ok (jobs s) \<and> hm_ok (subs s) \<and> distinct (worker_ids s)"

text \<open>A spawn gives the worker an id no job of the table has.\<close>

definition fresh_spawn :: "('sched, 'job, 'id, 'sub) manager_env
    \<Rightarrow> ('sched, 'id, 'sub) cron_manager_state \<Rightarrow> bool" where
  "fresh_spawn env s \<longleftrightarrow>
     (\<forall>settings cell. spawn_worker env settings = Inr cell \<longrightarrow> get_id cell \<notin> set (worker_ids s))"

lemma worker_ids_remove: "set (worker_ids (s\<lparr>jobs := hm_remove n (jobs s)\<rparr>)) \<subseteq> set (worker_ids s)"
  by (force simp: worker_ids_def dest: in_hm_removeD)

lemma worker_ids_distinct_remove:
  "distinct (worker_ids s) \<Longrightarrow> distinct (worker_ids (s\<lparr>jobs := hm_remove n (jobs s)\<rparr>))"
  by (simp add: worker_ids_def hm_remove_def AList.delete_eq distinct_map_filter)

lemma worker_ids_insert_new:
  "map_of (jobs s) n = None \<Longrightarrow>
     worker_ids (s\<lparr>jobs := hm_insert n (sch, cell) (jobs s)\<rparr>) = worker_ids s @ [get_id cell]"
  by (simp add: worker_ids_def hm_insert_new)

lemma worker_ids_insert_same:
  assumes "map_of (jobs s) n = Some (sch, cell)"
  shows "worker_ids (s\<lparr>jobs := hm_insert n (sch', cell) (jobs s)\<rparr>) = worker_ids s"
proof -
  have "map_of m n = Some (sch, cell) \<Longrightarrow>
      map (\<lambda>(_, _, cell). get_id cell) (hm_insert n (sch', cell) m) = map (\<lambda>(_, _, cell). get_id cell) m"
    for m :: "(string, 'a \<times> 'b actor_cell) hashmap"
    unfolding hm_insert_def by (induction m) (auto split: if_splits)
  then show ?thesis using assms by (simp add: worker_ids_def)
qed

lemma handle_manager_wf:
  assumes "manager_wf s" and "fresh_spawn env s"
  shows "manager_wf (state_of (handle_manager job_id env m s))"
proof (cases m)
  case (Start settings)
  then show ?thesis
    using assms
    by (auto simp: manager_wf_def manager_start_def fresh_spawn_def worker_ids_insert_new Let_def
        split: sum.splits)
next
  case (SetSchedule n sch)
  then show ?thesis
    using assms
    by (auto simp: manager_wf_def manager_set_schedule_def worker_ids_insert_same split: option.splits)
next
  case (Stop n)
  then show ?thesis
    using assms
    by (auto simp: manager_wf_def manager_stop_def worker_ids_distinct_remove Let_def split: option.splits)
next
  case (Subscribe who p)
  then show ?thesis using assms by (auto simp: manager_wf_def manager_subscribe_def worker_ids_def)
next
  case (Unsubscribe who)
  then show ?thesis using assms by (auto simp: manager_wf_def manager_unsubscribe_def worker_ids_def)
qed (use assms in simp_all)

lemma supervisor_evt_wf:
  "manager_wf s \<Longrightarrow> manager_wf (state_of (manager_supervisor_evt env evt s))"
  by (cases evt) (auto simp: manager_wf_def worker_ids_distinct_remove split: option.splits)

interpretation subs_table: registry
  "\<lambda>s. map_of (subs s)" manager_subscribe manager_unsubscribe "\<lambda>s. map fst (subs s)" manager_wf
  by unfold_locales
    (auto simp: manager_subscribe_def manager_unsubscribe_def manager_wf_def hm_simps
      worker_ids_def hm_ok_def dom_map_of_conv_image_fst
      intro: hm_ok_insert [unfolded hm_ok_def] hm_ok_remove [unfolded hm_ok_def])

section \<open>Runs and reachable states\<close>

text \<open>The manager takes messages (\<open>Inl\<close>) and supervision events (\<open>Inr\<close>); it never stops itself.\<close>

fun manager_input :: "('job \<Rightarrow> string)
    \<Rightarrow> ('sched, 'job, 'id, 'sub) manager_env
       \<times> (('sched, 'job, 'id, 'sub) cron_manager_message + 'id supervision_event)
    \<Rightarrow> ('sched, 'id, 'sub) cron_manager_state \<Rightarrow> ('sched, 'id, 'sub) manager_outcome" where
  "manager_input job_id (env, Inl m) s = handle_manager job_id env m s"
| "manager_input job_id (env, Inr evt) s = manager_supervisor_evt env evt s"

definition run_manager where
  "run_manager job_id = run_actor (manager_input job_id) (\<lambda>_. False)"

inductive manager_reachable :: "('job \<Rightarrow> string) \<Rightarrow> ('sched, 'id, 'sub) cron_manager_state \<Rightarrow> bool"
  for job_id where
  pre_start: "manager_reachable job_id manager_pre_start"
| input: "manager_reachable job_id s \<Longrightarrow> fresh_spawn env s
    \<Longrightarrow> manager_reachable job_id (state_of (manager_input job_id (env, i) s))"

lemma manager_reachable_wf: "manager_reachable job_id s \<Longrightarrow> manager_wf s"
proof (induction rule: manager_reachable.induct)
  case pre_start
  then show ?case by (simp add: manager_pre_start_def manager_wf_def worker_ids_def)
next
  case (input s env i)
  then show ?case by (cases i) (simp_all add: handle_manager_wf supervisor_evt_wf)
qed

section \<open>The jobs as a finite map\<close>

text \<open>What a client sees of the manager: which names are scheduled, and how.\<close>

definition scheduled :: "('sched, 'id, 'sub) cron_manager_state \<Rightarrow> string \<Rightarrow> 'sched option" where
  "scheduled s name = map_option fst (map_of (jobs s) name)"

fun manager_spec :: "('job \<Rightarrow> string) \<Rightarrow> (('sched, 'job) cron_settings \<Rightarrow> bool)
    \<Rightarrow> ('sched, 'job, 'id, 'sub) cron_manager_message
    \<Rightarrow> (string \<Rightarrow> 'sched option) \<Rightarrow> (string \<Rightarrow> 'sched option)" where
  "manager_spec job_id spawns (SetSchedule name sched) m =
    (if m name = None then m else m(name \<mapsto> sched))"
| "manager_spec job_id spawns (Start settings) m =
    (if m (job_id (cfg_job settings)) = None \<and> spawns settings
     then m(job_id (cfg_job settings) \<mapsto> cfg_schedule settings) else m)"
| "manager_spec job_id spawns (Stop name) m = m(name := None)"
| "manager_spec job_id spawns _ m = m"

fun manager_reply_spec :: "('job \<Rightarrow> string) \<Rightarrow> (('sched, 'job) cron_settings \<Rightarrow> bool)
    \<Rightarrow> ('sched, 'job, 'id, 'sub) cron_manager_message \<Rightarrow> (string \<Rightarrow> 'sched option)
    \<Rightarrow> ('sched, 'id, 'sub) cron_manager_effect \<Rightarrow> bool" where
  "manager_reply_spec job_id spawns msg m (ReplyJobs r) = (msg = ListJobs \<and> map_of r = m)"
| "manager_reply_spec job_id spawns msg m (ReplySchedule r) = (\<exists>name. msg = GetSchedule name \<and> r = m name)"
| "manager_reply_spec job_id spawns msg m (ReplyStart r) =
    (\<exists>settings. msg = Start settings
       \<and> (is_err r \<longleftrightarrow> m (job_id (cfg_job settings)) \<noteq> None \<or> \<not> spawns settings))"
| "manager_reply_spec job_id spawns msg m _ = True"

lemma scheduled_handle:
  "scheduled (state_of (handle_manager job_id env m s))
   = manager_spec job_id (\<lambda>st. \<not> is_err (spawn_worker env st)) m (scheduled s)"
  by (cases m)
    (auto simp: fun_eq_iff scheduled_def manager_set_schedule_def manager_start_def manager_stop_def
      manager_subscribe_def manager_unsubscribe_def hm_simps Let_def split: option.splits sum.splits)

lemma map_of_map_fst:
  "map_of (map (\<lambda>(k, v). (k, f v)) xs) = map_option f \<circ> map_of xs"
  by (induction xs) auto

lemma list_jobs_scheduled:
  assumes "manager_wf s" and "visits (job_order env) (jobs s)"
  shows "map_of (manager_list_jobs env s) = scheduled s"
proof -
  let ?es = "job_order env (jobs s)"
  have d: "distinct (map fst ?es)"
    using assms visits_distinct by (auto simp: manager_wf_def)
  have "map_of ?es = map_of (jobs s)"
    using assms by (simp add: visits_map_of manager_wf_def)
  moreover have "map_of (rev (map (\<lambda>(n, js). (n, fst js)) ?es)) = map_of (map (\<lambda>(n, js). (n, fst js)) ?es)"
    using d by (intro map_of_rev_distinct) (simp add: comp_def case_prod_unfold)
  ultimately show ?thesis
    by (simp add: manager_list_jobs_def hm_simps map_of_map_fst fun_eq_iff scheduled_def)
qed

section \<open>Which job a worker runs\<close>

lemma worker_unique:
  assumes "manager_wf s" and "(n, sch, c) \<in> set (jobs s)" and "(n', sch', c') \<in> set (jobs s)"
    and "get_id c = get_id c'"
  shows "n = n'"
proof -
  have "inj_on (\<lambda>(_, _, cell). get_id cell) (set (jobs s))"
    using assms(1) by (simp add: manager_wf_def worker_ids_def distinct_map)
  from inj_onD [OF this, of "(n, sch, c)" "(n', sch', c')"] show ?thesis using assms(2-4) by simp
qed

lemma job_of_actor_unique:
  assumes wf: "manager_wf s" and v: "visits (job_order env) (jobs s)"
    and j: "map_of (jobs s) name = Some (sch, cell)"
  shows "job_of_actor env (get_id cell) s = Some name"
proof -
  have in_jobs: "(name, sch, cell) \<in> set (jobs s)" using j by (rule map_of_SomeD)
  have same: "\<And>n' sch' cell'. (n', sch', cell') \<in> set (jobs s) \<Longrightarrow> get_id cell' = get_id cell \<Longrightarrow> n' = name"
    using worker_unique [OF wf _ in_jobs] by blast
  let ?P = "\<lambda>(_, _, c). get_id c = get_id cell"
  have "List.find ?P (job_order env (jobs s)) \<noteq> None"
    using in_jobs visits_set [OF v] by (auto simp: find_None_iff)
  then obtain n' sch' cell' where f: "List.find ?P (job_order env (jobs s)) = Some (n', sch', cell')"
    by auto
  then have "(n', sch', cell') \<in> set (jobs s)" "get_id cell' = get_id cell"
    using visits_set [OF v] by (auto dest!: find_SomeD)
  with same f show ?thesis by (auto simp: job_of_actor_def)
qed

lemma job_of_actor_None:
  "visits (job_order env) (jobs s) \<Longrightarrow> who \<notin> set (worker_ids s) \<Longrightarrow> job_of_actor env who s = None"
  by (force simp: job_of_actor_def find_None_iff worker_ids_def visits_set)

lemma removed_worker_gone:
  assumes wf: "manager_wf s" and j: "map_of (jobs s) name = Some (sch, cell)"
  shows "get_id cell \<notin> set (worker_ids (s\<lparr>jobs := hm_remove name (jobs s)\<rparr>))"
proof
  assume "get_id cell \<in> set (worker_ids (s\<lparr>jobs := hm_remove name (jobs s)\<rparr>))"
  then obtain n' sch' cell' where n': "(n', sch', cell') \<in> set (hm_remove name (jobs s))"
      "get_id cell' = get_id cell" by (auto simp: worker_ids_def)
  then have "(n', sch', cell') \<in> set (jobs s)" "n' \<noteq> name" by (auto dest: in_hm_removeD)
  moreover have "(name, sch, cell) \<in> set (jobs s)" using j by (rule map_of_SomeD)
  ultimately show False
    using worker_unique [OF wf] n'(2) by blast
qed

lemma removed_worker_keeps:
  assumes "manager_wf s" and "map_of (jobs s) name = Some (sch, cell)"
  shows "set (worker_ids s) \<subseteq> insert (get_id cell) (set (worker_ids (s\<lparr>jobs := hm_remove name (jobs s)\<rparr>)))"
proof
  fix i
  assume "i \<in> set (worker_ids s)"
  then obtain n sc k where i: "(n, sc, k) \<in> set (jobs s)" "i = get_id k" by (auto simp: worker_ids_def)
  then have "map_of (jobs s) n = Some (sc, k)" using assms(1) by (simp add: manager_wf_def hm_ok_mem)
  then show "i \<in> insert (get_id cell) (set (worker_ids (s\<lparr>jobs := hm_remove name (jobs s)\<rparr>)))"
    using i assms(2) by (cases "n = name") (force simp: worker_ids_def hm_remove_def AList.delete_eq)+
qed

lemma notify_all_each:
  "visits (sub_order env) (subs s) \<Longrightarrow>
     mset (notify_all env s ev) = image_mset (\<lambda>(who, sub). Notify who sub ev) (mset (subs s))"
  by (simp add: notify_all_def visits_def)

section \<open>Properties\<close>

text \<open>
  C2. To its clients the manager is a finite map from job names to schedules: every message,
  on every branch, changes the map as the specification says, and every reply about jobs
  is the specification's: the listing and the lookups read the map, and a start is
  accepted exactly when the name is free and the worker could be spawned.
\<close>

theorem manager_refines_schedule_map:
  assumes "manager_wf s" and "visits (job_order env) (jobs s)"
  shows "scheduled (state_of (handle_manager job_id env m s))
      = manager_spec job_id (\<lambda>st. \<not> is_err (spawn_worker env st)) m (scheduled s)
    \<and> (\<forall>e \<in> set (effects (handle_manager job_id env m s)).
         manager_reply_spec job_id (\<lambda>st. \<not> is_err (spawn_worker env st)) m (scheduled s) e)"
proof -
  have "\<forall>e \<in> set (effects (handle_manager job_id env m s)).
      manager_reply_spec job_id (\<lambda>st. \<not> is_err (spawn_worker env st)) m (scheduled s) e"
    using list_jobs_scheduled [OF assms]
    by (cases m) (auto simp: manager_set_schedule_def manager_start_def manager_stop_def Let_def
        notify_all_def manager_get_schedule_def scheduled_def split: option.splits sum.splits)
  then show ?thesis by (simp add: scheduled_handle)
qed

text \<open>An environment for the examples: worker 7 is spawned, worker 5 is dead.\<close>

definition demo_env :: "(nat, string, nat, string) manager_env" where
  "demo_env = \<lparr>job_order = rev, sub_order = rev,
     spawn_worker = (\<lambda>_. Inr \<lparr>get_id = 7, get_name = None\<rparr>),
     cast_update = (\<lambda>cell _. if get_id cell = 5 then Inl (Error ''closed'') else Ok_unit)\<rparr>"

definition demo_state :: "(nat, nat, string) cron_manager_state" where
  "demo_state = \<lparr>jobs = [(''a'', 10, \<lparr>get_id = 5, get_name = None\<rparr>),
                        (''b'', 20, \<lparr>get_id = 6, get_name = None\<rparr>)],
     subs = [(1, ''s1''), (2, ''s2'')]\<rparr>"

lemma demo_ok: "manager_wf demo_state" "visits (job_order demo_env) t"
  "visits (sub_order demo_env) u"
  by (simp_all add: demo_state_def demo_env_def manager_wf_def hm_ok_def worker_ids_def)

theorem manager_refines_schedule_map_witness:
  "scheduled (state_of (handle_manager id demo_env
      (Start \<lparr>cfg_schedule = 30, cfg_job = ''c''\<rparr>) demo_state)) ''c'' = Some 30
   \<and> scheduled (state_of (handle_manager id demo_env
      (Start \<lparr>cfg_schedule = 30, cfg_job = ''b''\<rparr>) demo_state)) ''b'' = Some 20"
  using manager_refines_schedule_map [OF demo_ok(1,2), of id "Start \<lparr>cfg_schedule = 30, cfg_job = ''c''\<rparr>"]
    manager_refines_schedule_map [OF demo_ok(1,2), of id "Start \<lparr>cfg_schedule = 30, cfg_job = ''b''\<rparr>"]
  by (simp add: demo_env_def) (simp add: demo_state_def scheduled_def)

text \<open>
  In every state the manager can reach, when no worker is spawned with the id of one that
  is in the table, job names are distinct, subscriber ids are distinct, and no two jobs
  share a worker.
\<close>

theorem manager_reachable_wf_tables:
  assumes "manager_reachable job_id s"
  shows "distinct (map fst (jobs s)) \<and> distinct (map fst (subs s)) \<and> distinct (worker_ids s)"
  using manager_reachable_wf [OF assms] by (simp add: manager_wf_def hm_ok_def)

theorem manager_reachable_wf_tables_witness:
  "distinct (worker_ids (state_of (manager_input id
      (demo_env, Inl (Start \<lparr>cfg_schedule = 30, cfg_job = ''c''\<rparr>)) manager_pre_start)))"
proof -
  have "fresh_spawn demo_env manager_pre_start"
    by (simp add: fresh_spawn_def manager_pre_start_def worker_ids_def)
  then have "manager_reachable id (state_of (manager_input id
      (demo_env, Inl (Start \<lparr>cfg_schedule = 30, cfg_job = ''c''\<rparr>)) manager_pre_start))"
    by (intro manager_reachable.intros)
  then show ?thesis by (rule manager_reachable_wf_tables [THEN conjunct2, THEN conjunct2])
qed

text \<open>
  Stopping a job reports its stop once. The worker is asked to stop, every subscriber is
  told once, the job is gone; and when the worker's termination or failure arrives later,
  it belongs to no job, so nobody is told again.
\<close>

theorem stop_is_reported_once:
  assumes "manager_wf s" and "map_of (jobs s) name = Some (sch, cell)"
    and "visits (sub_order env) (subs s)" and "\<And>t. visits (job_order env) t"
  shows "let out = handle_manager job_id env (Stop name) s in
      mset (effects out) = add_mset (StopWorker cell None)
          (image_mset (\<lambda>(who, sub). Notify who sub (Stopped name None)) (mset (subs s)))
      \<and> map_of (jobs (state_of out)) = (map_of (jobs s))(name := None)
      \<and> manager_supervisor_evt env (ActorTerminated cell reason) (state_of out)
          = Outcome (state_of out) [] Ok_unit
      \<and> manager_supervisor_evt env (ActorFailed cell what) (state_of out)
          = Outcome (state_of out) [] Ok_unit"
proof -
  let ?s' = "s\<lparr>jobs := hm_remove name (jobs s)\<rparr>"
  have "job_of_actor env (get_id cell) ?s' = None"
    using assms by (intro job_of_actor_None removed_worker_gone) auto
  then show ?thesis
    using assms(2,3) by (simp add: manager_stop_def Let_def hm_simps notify_all_each)
qed

theorem stop_is_reported_once_witness:
  "mset (effects (handle_manager (id :: string \<Rightarrow> string) demo_env (Stop ''a'') demo_state))
   = {#StopWorker \<lparr>get_id = 5, get_name = None\<rparr> None,
       Notify 1 ''s1'' (Stopped ''a'' None), Notify 2 ''s2'' (Stopped ''a'' None)#}"
  using stop_is_reported_once [OF demo_ok(1) _ demo_ok(3,2), of "''a''" 10 "\<lparr>get_id = 5, get_name = None\<rparr>"
      id None "''x''"]
  by (simp add: demo_state_def Let_def)

text \<open>
  When a worker fails, every subscriber is told once, with the name of the job that worker
  runs and the reason; that job, and no other, leaves the table.
\<close>

theorem failed_worker_removes_its_job:
  assumes "manager_wf s" and "map_of (jobs s) name = Some (sch, cell)"
    and "visits (sub_order env) (subs s)" and "visits (job_order env) (jobs s)"
  shows "let out = manager_supervisor_evt env (ActorFailed cell what) s in
      mset (effects out) = image_mset (\<lambda>(who, sub). Notify who sub (Failed name what)) (mset (subs s))
      \<and> map_of (jobs (state_of out)) = (map_of (jobs s))(name := None)
      \<and> subs (state_of out) = subs s \<and> returned out = Ok_unit"
  using job_of_actor_unique [OF assms(1,4,2)] assms(3)
  by (simp add: Let_def hm_simps notify_all_each)

theorem failed_worker_removes_its_job_witness:
  "mset (effects (manager_supervisor_evt demo_env
      (ActorFailed \<lparr>get_id = 6, get_name = None\<rparr> ''boom'') demo_state))
   = {#Notify 1 ''s1'' (Failed ''b'' ''boom''), Notify 2 ''s2'' (Failed ''b'' ''boom'')#}"
  using failed_worker_removes_its_job [OF demo_ok(1) _ demo_ok(3,2), of "''b''" 20
      "\<lparr>get_id = 6, get_name = None\<rparr>" "''boom''"]
  by (simp add: demo_state_def Let_def)

text \<open>
  Rescheduling a job whose worker cannot be reached takes the manager down: the cast's
  error is returned, after the stored schedule was already replaced, and no later message
  of any client is taken.
\<close>

theorem reschedule_of_dead_worker_fails_manager:
  assumes "map_of (jobs s) name = Some (old, cell)" and "cast_update env cell new = Inl e"
  shows "returned (run_manager job_id s ((env, Inl (SetSchedule name new)) # later)) = Inl e
    \<and> effects (run_manager job_id s ((env, Inl (SetSchedule name new)) # later)) = [CastUpdate cell new]
    \<and> scheduled (state_of (run_manager job_id s ((env, Inl (SetSchedule name new)) # later)))
      = (scheduled s)(name \<mapsto> new)"
  using assms
  by (auto simp: run_manager_def halts_def manager_set_schedule_def scheduled_def hm_simps fun_eq_iff)

theorem reschedule_of_dead_worker_fails_manager_witness:
  "returned (run_manager id demo_state
      [(demo_env, Inl (SetSchedule ''a'' 15)), (demo_env, Inl (GetSchedule ''b''))])
   = Inl (Error ''closed'')"
  using reschedule_of_dead_worker_fails_manager [of demo_state "''a''" 10 "\<lparr>get_id = 5, get_name = None\<rparr>"
      demo_env 15 "Error ''closed''" id "[(demo_env, Inl (GetSchedule ''b''))]"]
  by (simp add: demo_state_def demo_env_def)

text \<open>
  When the manager stops, every worker of its table is asked to stop, once, and no job is
  left in the table.
\<close>

theorem post_stop_stops_every_worker:
  assumes "visits (job_order env) (jobs s)"
  shows "mset (effects (manager_post_stop env s))
      = image_mset (\<lambda>(_, _, cell). StopWorker cell None) (mset (jobs s))
    \<and> jobs (state_of (manager_post_stop env s)) = [] \<and> returned (manager_post_stop env s) = Ok_unit"
  using assms by (simp add: manager_post_stop_def visits_def)

theorem post_stop_stops_every_worker_witness:
  "mset (effects (manager_post_stop demo_env demo_state))
   = {#StopWorker \<lparr>get_id = 5, get_name = None\<rparr> None, StopWorker \<lparr>get_id = 6, get_name = None\<rparr> None#}"
  using post_stop_stops_every_worker [OF demo_ok(2), of demo_state]
  by (simp add: demo_state_def)

end
