(* ===== verification/Cron_System.thy ===== *)
theory Cron_System
  imports Cron_Manager
begin

text \<open>
  The cron manager and its workers as one system: the manager of
  \<open>src/ractor_actors/src/time/cron/mod.rs\<close> and any number of the workers of
  \<open>src/ractor_actors/src/time/cron/worker.rs\<close>, each with its own clock, timers and inbox,
  taking turns in any order. A step is one message or one supervision event of the manager,
  its being stopped or killed by somebody outside, one move of one worker, or the end of a
  worker that was asked to stop or whose manager has gone.

  What one actor does to the other is passed on: a started job boots a worker, a schedule
  update arrives in the worker's inbox, and is refused when the worker is gone, a stop
  request is honoured some time later, and a worker's start, failure and end reach the
  manager as supervision events, in their order.
\<close>

section \<open>The state of the system\<close>

record ('sched, 'job, 'id, 'sub) cron_system =
  manager :: "('sched, 'id, 'sub) cron_manager_state"
  manager_up :: bool
  running :: "'id \<Rightarrow> ('sched, 'job) cron_config option"
  asked :: "'id set"
  events :: "'id supervision_event list"
  spawned :: "'id set"

definition system_init :: "('sched, 'job, 'id, 'sub) cron_system" where
  "system_init = \<lparr>manager = manager_pre_start, manager_up = True, running = Map.empty,
     asked = {}, events = [], spawned = {}\<rparr>"

text \<open>A worker's start-up, as \<open>spawn_linked\<close> runs it before it returns.\<close>

definition boot_worker :: "'sched upcoming \<Rightarrow> 'job cron_env \<Rightarrow> nat \<Rightarrow> ('sched, 'job) cron_settings
    \<Rightarrow> ('sched, 'job) cron_config result" where
  "boot_worker upcoming env now settings =
    (case cron_pre_start upcoming env 0 settings of
       Inl e \<Rightarrow> Inl e
     | Inr started \<Rightarrow> Inr (cron_boot now started))"

text \<open>
  What a turn of the manager meets: the iteration orders, the clock of a new worker, and the
  cell the runtime gives it, or its refusal.
\<close>

record ('sched, 'job, 'id, 'sub) turn =
  turn_job_order :: "(string, 'sched \<times> 'id actor_cell) iter_order"
  turn_sub_order :: "('id, 'sub) iter_order"
  turn_env :: "'job cron_env"
  turn_now :: nat
  turn_cell :: "'id actor_cell result"

definition manager_env_of :: "'sched upcoming \<Rightarrow> ('sched, 'job, 'id, 'sub) turn
    \<Rightarrow> ('sched, 'job, 'id, 'sub) cron_system \<Rightarrow> ('sched, 'job, 'id, 'sub) manager_env" where
  "manager_env_of upcoming t s =
    \<lparr>job_order = turn_job_order t, sub_order = turn_sub_order t,
     spawn_worker = (\<lambda>settings. case boot_worker upcoming (turn_env t) (turn_now t) settings of
        Inl e \<Rightarrow> Inl e | Inr _ \<Rightarrow> turn_cell t),
     cast_update = (\<lambda>cell sched. if running s (get_id cell) = None
        then Inl (Error ''Messaging failed to enqueue the message'') else Ok_unit)\<rparr>"

section \<open>Steps\<close>

text \<open>What the manager did to its workers.\<close>

fun worker_effect :: "('sched, 'id, 'sub) cron_manager_effect
    \<Rightarrow> ('sched, 'job, 'id, 'sub) cron_system \<Rightarrow> ('sched, 'job, 'id, 'sub) cron_system" where
  "worker_effect (StopWorker cell _) s = s\<lparr>asked := insert (get_id cell) (asked s)\<rparr>"
| "worker_effect (CastUpdate cell sched) s =
    (case running s (get_id cell) of
       None \<Rightarrow> s
     | Some c \<Rightarrow> s\<lparr>running := (running s)(get_id cell \<mapsto> c\<lparr>inbox := inbox c @ [UpdateSchedule sched]\<rparr>)\<rparr>)"
| "worker_effect _ s = s"

text \<open>The worker a message starts: only \<open>Start\<close> for a free name spawns one.\<close>

definition newly_spawned :: "('job \<Rightarrow> string) \<Rightarrow> 'sched upcoming \<Rightarrow> ('sched, 'job, 'id, 'sub) turn
    \<Rightarrow> ('sched, 'job, 'id, 'sub) cron_manager_message \<Rightarrow> ('sched, 'job, 'id, 'sub) cron_system
    \<Rightarrow> ('id actor_cell \<times> ('sched, 'job) cron_config) option" where
  "newly_spawned job_id upcoming t m s =
    (case m of
       Start settings \<Rightarrow>
         (if map_of (jobs (manager s)) (job_id (cfg_job settings)) = None
          then (case (boot_worker upcoming (turn_env t) (turn_now t) settings, turn_cell t) of
                  (Inr c, Inr cell) \<Rightarrow> Some (cell, c) | _ \<Rightarrow> None)
          else None)
     | _ \<Rightarrow> None)"

definition add_worker :: "('id actor_cell \<times> ('sched, 'job) cron_config) option
    \<Rightarrow> ('sched, 'job, 'id, 'sub) cron_system \<Rightarrow> ('sched, 'job, 'id, 'sub) cron_system" where
  "add_worker new s =
    (case new of
       None \<Rightarrow> s
     | Some (cell, c) \<Rightarrow> s\<lparr>running := (running s)(get_id cell \<mapsto> c),
         events := events s @ [ActorStarted cell], spawned := insert (get_id cell) (spawned s)\<rparr>)"

definition after_turn :: "('sched, 'id, 'sub) manager_outcome
    \<Rightarrow> ('sched, 'job, 'id, 'sub) cron_system \<Rightarrow> ('sched, 'job, 'id, 'sub) cron_system" where
  "after_turn out s =
    fold worker_effect (effects out)
      (s\<lparr>manager := state_of out, manager_up := \<not> is_err (returned out)\<rparr>)"

text \<open>A worker leaves the system, and the manager hears of it.\<close>

definition worker_exit :: "'id supervision_event \<Rightarrow> 'id \<Rightarrow> ('sched, 'job, 'id, 'sub) cron_system
    \<Rightarrow> ('sched, 'job, 'id, 'sub) cron_system" where
  "worker_exit evt i s = s\<lparr>running := (running s)(i := None), events := events s @ [evt]\<rparr>"

text \<open>
  Somebody outside stops the manager, and \<open>post_stop\<close> asks the workers of its table to stop; or
  somebody kills it, and nothing of it runs. The runtime ends the children of an actor that
  has ended.
\<close>

definition manager_stopped :: "'sched upcoming \<Rightarrow> ('sched, 'job, 'id, 'sub) turn
    \<Rightarrow> ('sched, 'job, 'id, 'sub) cron_system \<Rightarrow> ('sched, 'job, 'id, 'sub) cron_system" where
  "manager_stopped upcoming t s =
    (after_turn (manager_post_stop (manager_env_of upcoming t s) (manager s)) s)\<lparr>manager_up := False\<rparr>"

definition manager_killed :: "('sched, 'job, 'id, 'sub) cron_system \<Rightarrow> ('sched, 'job, 'id, 'sub) cron_system" where
  "manager_killed s = s\<lparr>manager_up := False\<rparr>"

inductive cron_step :: "('job \<Rightarrow> string) \<Rightarrow> 'sched upcoming \<Rightarrow> ('sched, 'job, 'id, 'sub) cron_system
    \<Rightarrow> ('sched, 'job, 'id, 'sub) cron_system \<Rightarrow> bool" for job_id upcoming where
  message: "manager_up s \<Longrightarrow> visits (turn_job_order t) (jobs (manager s))
    \<Longrightarrow> (\<And>cell. turn_cell t = Inr cell \<Longrightarrow> get_id cell \<notin> spawned s)
    \<Longrightarrow> cron_step job_id upcoming s
          (add_worker (newly_spawned job_id upcoming t m s)
            (after_turn (handle_manager job_id (manager_env_of upcoming t s) m (manager s)) s))"
| supervision: "manager_up s \<Longrightarrow> visits (turn_job_order t) (jobs (manager s))
    \<Longrightarrow> events s = evt # evts
    \<Longrightarrow> cron_step job_id upcoming s
          (after_turn (manager_supervisor_evt (manager_env_of upcoming t s) evt (manager s))
            (s\<lparr>events := evts\<rparr>))"
| manager_stops: "manager_up s \<Longrightarrow> visits (turn_job_order t) (jobs (manager s))
    \<Longrightarrow> cron_step job_id upcoming s (manager_stopped upcoming t s)"
| manager_dies: "manager_up s \<Longrightarrow> cron_step job_id upcoming s (manager_killed s)"
| worker: "running s i = Some c
    \<Longrightarrow> timed_exec (handle_cron upcoming) (\<lambda>_. False) a c = Some c' \<Longrightarrow> alive c'
    \<Longrightarrow> cron_step job_id upcoming s (s\<lparr>running := (running s)(i \<mapsto> c')\<rparr>)"
| worker_fails: "running s i = Some c
    \<Longrightarrow> timed_exec (handle_cron upcoming) (\<lambda>_. False) a c = Some c' \<Longrightarrow> \<not> alive c' \<Longrightarrow> get_id cell = i
    \<Longrightarrow> cron_step job_id upcoming s (worker_exit (ActorFailed cell what) i s)"
| worker_stops: "running s i = Some c \<Longrightarrow> i \<in> asked s \<or> \<not> manager_up s \<Longrightarrow> get_id cell = i
    \<Longrightarrow> cron_step job_id upcoming s (worker_exit (ActorTerminated cell what) i s)"

abbreviation cron_reachable :: "('job \<Rightarrow> string) \<Rightarrow> 'sched upcoming
    \<Rightarrow> ('sched, 'job, 'id, 'sub) cron_system \<Rightarrow> bool" where
  "cron_reachable job_id upcoming \<equiv> reaches (cron_step job_id upcoming) system_init"

inductive_cases cron_stepE: "cron_step job_id upcoming s s'"

section \<open>The invariant\<close>

text \<open>The schedule a worker will have when it has taken what is in its inbox.\<close>

fun last_update :: "'sched \<Rightarrow> 'sched cron_message list \<Rightarrow> 'sched" where
  "last_update sched [] = sched"
| "last_update sched (UpdateSchedule new # ms) = last_update new ms"
| "last_update sched (Execute # ms) = last_update sched ms"

definition effective :: "('sched, 'job) cron_config \<Rightarrow> 'sched" where
  "effective c = last_update (schedule (actor c)) (inbox c)"

fun exit_of :: "'id supervision_event \<Rightarrow> 'id option" where
  "exit_of (ActorFailed cell _) = Some (get_id cell)"
| "exit_of (ActorTerminated cell _) = Some (get_id cell)"
| "exit_of _ = None"

definition exits :: "'id supervision_event list \<Rightarrow> 'id set" where
  "exits evts = {i. \<exists>e \<in> set evts. exit_of e = Some i}"

lemma exits_simps [simp]:
  "exits [] = {}" "exits (xs @ ys) = exits xs \<union> exits ys"
  "exits (e # es) = (case exit_of e of None \<Rightarrow> {} | Some i \<Rightarrow> {i}) \<union> exits es"
  by (auto simp: exits_def split: option.splits)

text \<open>
  Every job of the table has a running worker that follows the stored schedule, or the
  worker's exit is on its way to the manager; every running worker has a job or was asked to
  stop; a worker whose exit is on its way is gone; and every worker that runs is awake.
\<close>

definition job_served :: "('sched, 'job, 'id, 'sub) cron_system \<Rightarrow> 'sched \<Rightarrow> 'id \<Rightarrow> bool" where
  "job_served s sched i \<longleftrightarrow> i \<in> exits (events s)
     \<or> (\<exists>c. running s i = Some c \<and> effective c = sched)"

definition jobs_served :: "('sched, 'job, 'id, 'sub) cron_system \<Rightarrow> bool" where
  "jobs_served s \<longleftrightarrow>
    (\<forall>name sched cell. map_of (jobs (manager s)) name = Some (sched, cell) \<longrightarrow> job_served s sched (get_id cell))"

definition workers_owned :: "('sched, 'job, 'id, 'sub) cron_system \<Rightarrow> bool" where
  "workers_owned s \<longleftrightarrow> (\<forall>i. running s i \<noteq> None \<longrightarrow> i \<in> set (worker_ids (manager s)) \<union> asked s)"

definition ids_ok :: "('sched, 'job, 'id, 'sub) cron_system \<Rightarrow> bool" where
  "ids_ok s \<longleftrightarrow> dom (running s) \<subseteq> spawned s \<and> exits (events s) \<subseteq> spawned s - dom (running s)
     \<and> set (worker_ids (manager s)) \<subseteq> spawned s"

definition workers_awake :: "('sched, 'job, 'id, 'sub) cron_system \<Rightarrow> bool" where
  "workers_awake s \<longleftrightarrow> (\<forall>c \<in> ran (running s). alive c \<and> awake_inv c)"

definition cron_inv :: "('sched, 'job, 'id, 'sub) cron_system \<Rightarrow> bool" where
  "cron_inv s \<longleftrightarrow> ids_ok s \<and> workers_awake s
     \<and> (manager_up s \<longrightarrow> manager_wf (manager s) \<and> jobs_served s \<and> workers_owned s)"

section \<open>Every step keeps the invariant\<close>

lemma last_update_append [simp]:
  "last_update sched (xs @ ys) = last_update (last_update sched xs) ys"
  by (induction sched xs rule: last_update.induct) simp_all

lemma inner_exec: "timed_exec h (\<lambda>_. False) a c = Some c' \<Longrightarrow> timed_exec h external a c = Some c'"
  by (cases a) simp_all

lemma schedule_next_keeps: "schedule (state_of (schedule_next upcoming env tok s)) = schedule s"
  by (auto simp: schedule_next_def split: option.splits sum.splits)

lemma handle_cron_schedule:
  "schedule (state_of (handle_cron upcoming env tok m s))
     = (case m of UpdateSchedule new \<Rightarrow> new | Execute \<Rightarrow> schedule s)"
  by (cases m) (auto simp: execute_def update_schedule_def take_handle_def schedule_next_keeps Let_def
      split: prod.splits sum.splits fault.splits option.splits)

lemma effective_exec:
  assumes "timed_exec (handle_cron upcoming) (\<lambda>_. False) a c = Some c'" and "awake_inv c"
  shows "effective c' = effective c"
proof (cases a)
  case (Fire tok)
  then obtain t where t: "t \<in> set (timers c)" "c' = c\<lparr>timers := remove1 t (timers c), inbox := inbox c @ [payload t]\<rparr>"
    using assms(1) by (auto split: option.splits dest!: find_SomeD)
  then show ?thesis using assms(2) by (simp add: effective_def awake_inv_def)
next
  case (Take env)
  then obtain m ms where "inbox c = m # ms"
      "c' = commit (handle_cron upcoming env (fresh c) m (actor c)) (c\<lparr>inbox := ms\<rparr>)"
    using assms(1) by (auto split: if_splits list.splits)
  then show ?thesis
    using handle_cron_schedule [of upcoming env "fresh c" m "actor c"]
    by (cases m) (simp_all add: effective_def del: handle_cron.simps)
qed (use assms(1) in \<open>auto simp: effective_def\<close>)

lemma boot_worker_ok:
  assumes "boot_worker upcoming env now settings = Inr c"
  shows "alive c \<and> awake_inv c \<and> effective c = cfg_schedule settings"
  using assms
  by (auto simp: boot_worker_def cron_pre_start_def cron_boot_def awake_inv_def effective_def
      split: sum.splits option.splits)

text \<open>The moves of a worker.\<close>

lemma job_served_update:
  assumes "job_served s sched k" and "running s i = Some c" and "effective c' = effective c"
  shows "job_served (s\<lparr>running := (running s)(i \<mapsto> c')\<rparr>) sched k"
  using assms by (auto simp: job_served_def)

lemma worker_move_inv:
  assumes inv: "cron_inv s" and c: "running s i = Some c"
    and ex: "timed_exec (handle_cron upcoming) (\<lambda>_. False) a c = Some c'" and "alive c'"
  shows "cron_inv (s\<lparr>running := (running s)(i \<mapsto> c')\<rparr>)"
proof -
  let ?s = "s\<lparr>running := (running s)(i \<mapsto> c')\<rparr>"
  have aw: "awake_inv c" using inv c by (auto simp: cron_inv_def workers_awake_def ran_def)
  then have aw': "awake_inv c'" using awake.inv_exec [OF _ inner_exec [OF ex]] by blast
  have "job_served s sched k \<Longrightarrow> job_served ?s sched k" for sched k
    using job_served_update [OF _ c effective_exec [OF ex aw]] .
  then have "jobs_served s \<Longrightarrow> jobs_served ?s" by (auto simp: jobs_served_def)
  moreover have "workers_owned s \<Longrightarrow> workers_owned ?s" using c by (auto simp: workers_owned_def)
  moreover have "ids_ok s \<Longrightarrow> ids_ok ?s" using c by (auto simp: ids_ok_def)
  moreover have "workers_awake s \<Longrightarrow> workers_awake ?s"
    using aw' \<open>alive c'\<close> by (auto simp: workers_awake_def ran_def)
  ultimately show ?thesis using inv by (simp add: cron_inv_def)
qed

lemma worker_exit_inv:
  assumes inv: "cron_inv s" and c: "running s i = Some c" and e: "exit_of evt = Some i"
  shows "cron_inv (worker_exit evt i s)"
  using inv c e
  by (auto simp: cron_inv_def worker_exit_def ids_ok_def workers_awake_def jobs_served_def
      job_served_def workers_owned_def ran_def)

text \<open>The turns of the manager. A turn that leaves the jobs alone changes nothing the invariant sees.\<close>

lemma jobs_servedI:
  "(\<And>n sc k. map_of (jobs (manager s)) n = Some (sc, k) \<Longrightarrow> job_served s sc (get_id k)) \<Longrightarrow> jobs_served s"
  by (simp add: jobs_served_def)

lemma jobs_servedD:
  "jobs_served s \<Longrightarrow> map_of (jobs (manager s)) n = Some (sc, k) \<Longrightarrow> job_served s sc (get_id k)"
  by (simp add: jobs_served_def)

lemma job_served_cong:
  "running s' i = running s i \<Longrightarrow> exits (events s) \<subseteq> exits (events s') \<Longrightarrow> job_served s sc i
    \<Longrightarrow> job_served s' sc i"
  by (auto simp: job_served_def)

lemma inv_served: "cron_inv s \<Longrightarrow> manager_up s \<Longrightarrow> jobs_served s"
  by (simp add: cron_inv_def)

lemma same_jobs_inv:
  assumes "cron_inv s" and "manager_up s" and "jobs m = jobs (manager s)" and "manager_wf m"
  shows "cron_inv (s\<lparr>manager := m, manager_up := True\<rparr>)"
  using assms
  by (auto simp: cron_inv_def ids_ok_def workers_awake_def jobs_served_def job_served_def
      workers_owned_def worker_ids_def)

lemma turn_fresh:
  assumes "cron_inv s" and "\<And>cell. turn_cell t = Inr cell \<Longrightarrow> get_id cell \<notin> spawned s"
  shows "fresh_spawn (manager_env_of upcoming t s) (manager s)"
  using assms
  by (auto simp: fresh_spawn_def manager_env_of_def cron_inv_def ids_ok_def split: sum.splits)

lemma start_inv:
  assumes inv: "cron_inv s" "manager_up s"
    and wf: "manager_wf (manager s\<lparr>jobs := hm_insert name (sched, cell) (jobs (manager s))\<rparr>)"
    and free: "map_of (jobs (manager s)) name = None" and fresh: "get_id cell \<notin> spawned s"
    and c: "alive c" "awake_inv c" "effective c = sched"
  shows "cron_inv (add_worker (Some (cell, c))
    (s\<lparr>manager := manager s\<lparr>jobs := hm_insert name (sched, cell) (jobs (manager s))\<rparr>, manager_up := True\<rparr>))"
    (is "cron_inv ?s")
proof -
  note ids = worker_ids_insert_new [OF free, of sched cell]
  have "ids_ok ?s"
    using inv fresh ids by (auto simp: cron_inv_def ids_ok_def add_worker_def)
  moreover have "workers_awake ?s"
    using inv c by (auto simp: cron_inv_def workers_awake_def add_worker_def ran_def)
  moreover have "workers_owned ?s"
    using inv ids by (auto simp: cron_inv_def workers_owned_def add_worker_def)
  moreover have "get_id k \<noteq> get_id cell" if "map_of (jobs (manager s)) n = Some (sc, k)" for n sc k
  proof -
    have "get_id k \<in> set (worker_ids (manager s))"
      using map_of_SomeD [OF that] by (force simp: worker_ids_def)
    then show ?thesis using inv fresh by (auto simp: cron_inv_def ids_ok_def)
  qed
  then have "jobs_served ?s"
    using c(3) jobs_servedD [OF inv_served [OF inv]]
    by (intro jobs_servedI)
      (auto simp: add_worker_def hm_simps job_served_def split: if_splits)
  ultimately show ?thesis using wf by (simp add: cron_inv_def add_worker_def)
qed

lemma stop_inv:
  assumes inv: "cron_inv s" "manager_up s" and name: "map_of (jobs (manager s)) name = Some (sched, cell)"
  shows "cron_inv (s\<lparr>manager := manager s\<lparr>jobs := hm_remove name (jobs (manager s))\<rparr>, manager_up := True,
      asked := insert (get_id cell) (asked s)\<rparr>)"
    (is "cron_inv (s\<lparr>manager := ?m, manager_up := True, asked := ?a\<rparr>)")
proof -
  let ?s = "s\<lparr>manager := ?m, manager_up := True, asked := ?a\<rparr>"
  have keep: "set (worker_ids (manager s)) \<subseteq> insert (get_id cell) (set (worker_ids ?m))"
    using removed_worker_keeps [OF _ name] inv by (simp add: cron_inv_def)
  have "workers_owned ?s" using inv keep by (auto simp: cron_inv_def workers_owned_def)
  moreover have "jobs_served ?s"
    using jobs_servedD [OF inv_served [OF inv]]
    by (intro jobs_servedI) (auto simp: hm_simps job_served_def split: if_splits)
  moreover have "ids_ok ?s" "workers_awake ?s"
    using inv worker_ids_remove [of name "manager s"] by (auto simp: cron_inv_def ids_ok_def workers_awake_def)
  moreover have "manager_wf ?m"
    using inv by (auto simp: cron_inv_def manager_wf_def worker_ids_distinct_remove)
  ultimately show ?thesis by (simp add: cron_inv_def)
qed

lemma reschedule_inv:
  assumes inv: "cron_inv s" "manager_up s" and name: "map_of (jobs (manager s)) name = Some (old, cell)"
    and c: "running s (get_id cell) = Some c"
  shows "cron_inv (s\<lparr>manager := manager s\<lparr>jobs := hm_insert name (new, cell) (jobs (manager s))\<rparr>,
      manager_up := True,
      running := (running s)(get_id cell \<mapsto> c\<lparr>inbox := inbox c @ [UpdateSchedule new]\<rparr>)\<rparr>)"
    (is "cron_inv ?s")
proof -
  note ids = worker_ids_insert_same [OF name, of new]
  have "ids_ok ?s" using inv ids c by (auto simp: cron_inv_def ids_ok_def)
  moreover have "workers_awake ?s"
    using inv c by (auto simp: cron_inv_def workers_awake_def ran_def awake_inv_def)
  moreover have "workers_owned ?s" using inv ids c by (auto simp: cron_inv_def workers_owned_def)
  moreover have "manager_wf (manager ?s)"
    using inv ids by (auto simp: cron_inv_def manager_wf_def)
  moreover have "get_id k \<noteq> get_id cell" if "n \<noteq> name" "map_of (jobs (manager s)) n = Some (sc, k)" for n sc k
    using worker_unique [of "manager s", OF _ map_of_SomeD [OF that(2)] map_of_SomeD [OF name]] inv that(1)
    by (auto simp: cron_inv_def)
  then have "jobs_served ?s"
    using jobs_servedD [OF inv_served [OF inv]]
    by (intro jobs_servedI) (auto simp: hm_simps job_served_def effective_def split: if_splits)
  ultimately show ?thesis by (simp add: cron_inv_def)
qed

text \<open>A reschedule that finds the worker gone takes the manager down.\<close>

lemma reschedule_fails_inv:
  assumes inv: "cron_inv s" and name: "map_of (jobs (manager s)) name = Some (old, cell)"
  shows "cron_inv (s\<lparr>manager := manager s\<lparr>jobs := hm_insert name (new, cell) (jobs (manager s))\<rparr>,
      manager_up := False\<rparr>)"
  using inv worker_ids_insert_same [OF name, of new]
  by (auto simp: cron_inv_def ids_ok_def workers_awake_def)

text \<open>A supervision event removes the job of the worker that exited, if it still has one.\<close>

lemma supervisor_exit:
  assumes wf: "manager_wf m" and v: "visits (job_order env) (jobs m)" and e: "exit_of evt = Some i"
  shows "map_of (jobs (state_of (manager_supervisor_evt env evt m))) n = Some (sc, k)
      \<longleftrightarrow> map_of (jobs m) n = Some (sc, k) \<and> get_id k \<noteq> i" (is ?jobs)
    and "set (worker_ids m) \<subseteq> insert i (set (worker_ids (state_of (manager_supervisor_evt env evt m))))"
      (is ?ids)
    and "set (worker_ids (state_of (manager_supervisor_evt env evt m))) \<subseteq> set (worker_ids m)" (is ?sub)
proof -
  have "?jobs \<and> ?ids \<and> ?sub"
  proof (cases "i \<in> set (worker_ids m)")
    case True
    then obtain name sched cell where j: "(name, sched, cell) \<in> set (jobs m)" "get_id cell = i"
      by (auto simp: worker_ids_def)
    then have name: "map_of (jobs m) name = Some (sched, cell)"
      using wf by (simp add: manager_wf_def hm_ok_mem)
    have state: "jobs (state_of (manager_supervisor_evt env evt m)) = hm_remove name (jobs m)"
      using e j(2) job_of_actor_unique [OF wf v name] by (cases evt) simp_all
    then have ids: "set (worker_ids (state_of (manager_supervisor_evt env evt m)))
        = set (worker_ids (m\<lparr>jobs := hm_remove name (jobs m)\<rparr>))" by (simp add: worker_ids_def)
    have "get_id k = i \<longleftrightarrow> n = name" if "map_of (jobs m) n = Some (sc, k)"
      using worker_unique [OF wf map_of_SomeD [OF that] j(1)] that name j(2) by auto
    then show ?thesis
      using state ids removed_worker_keeps [OF wf name] worker_ids_remove [of name m] j(2)
      by (auto simp: hm_simps)
  next
    case False
    then have "get_id k \<noteq> i" if "map_of (jobs m) n = Some (sc, k)"
      using map_of_SomeD [OF that] by (force simp: worker_ids_def)
    then show ?thesis
      using e job_of_actor_None [of env m, OF v False] by (cases evt) auto
  qed
  then show ?jobs ?ids ?sub by blast+
qed

lemma notify_no_worker_effect [simp]: "fold worker_effect (notify_all env m ev) s = s"
proof -
  have "fold worker_effect (map (\<lambda>(who, sub). Notify who sub ev) xs) s = s" for xs
    by (induction xs) auto
  then show ?thesis by (simp add: notify_all_def)
qed

lemma supervisor_effects:
  "fold worker_effect (effects (manager_supervisor_evt env evt m)) s = s
   \<and> returned (manager_supervisor_evt env evt m) = Ok_unit"
  by (cases evt) (auto split: option.splits)

lemma supervision_inv:
  assumes inv: "cron_inv s" "manager_up s" and v: "visits (job_order env) (jobs (manager s))"
    and ev: "events s = evt # evts"
  shows "cron_inv (after_turn (manager_supervisor_evt env evt (manager s)) (s\<lparr>events := evts\<rparr>))"
proof -
  let ?m = "state_of (manager_supervisor_evt env evt (manager s))"
  let ?s = "s\<lparr>events := evts, manager := ?m, manager_up := True\<rparr>"
  have wf: "manager_wf (manager s)" using inv by (simp add: cron_inv_def)
  have "cron_inv ?s"
  proof (cases "exit_of evt")
    case None
    then have "jobs ?m = jobs (manager s)" by (cases evt) (auto split: option.splits)
    moreover have "cron_inv (s\<lparr>events := evts\<rparr>)"
      using inv ev None
      by (auto simp: cron_inv_def ids_ok_def workers_awake_def jobs_served_def job_served_def workers_owned_def)
    ultimately show ?thesis
      using same_jobs_inv [of "s\<lparr>events := evts\<rparr>" ?m] inv(2) supervisor_evt_wf [OF wf, of env evt] by simp
  next
    case (Some i)
    note sup = supervisor_exit [OF wf v Some]
    have gone: "running s i = None" using inv ev Some by (auto simp: cron_inv_def ids_ok_def)
    have "jobs_served ?s"
      using jobs_servedD [OF inv_served [OF inv]] ev Some
      by (intro jobs_servedI) (auto simp: sup(1) job_served_def)
    moreover have "workers_owned ?s"
      using inv gone sup(2) by (force simp: cron_inv_def workers_owned_def)
    moreover have "ids_ok ?s" "workers_awake ?s"
      using inv sup(3) ev Some by (auto simp: cron_inv_def ids_ok_def workers_awake_def)
    ultimately show ?thesis using supervisor_evt_wf [OF wf] by (simp add: cron_inv_def)
  qed
  then show ?thesis by (simp add: after_turn_def supervisor_effects)
qed

abbreviation message_taken where
  "message_taken job_id upcoming t m s \<equiv> add_worker (newly_spawned job_id upcoming t m s)
    (after_turn (handle_manager job_id (manager_env_of upcoming t s) m (manager s)) s)"

lemma start_message_inv:
  assumes inv: "cron_inv s" "manager_up s"
    and fresh: "\<And>cell. turn_cell t = Inr cell \<Longrightarrow> get_id cell \<notin> spawned s"
  shows "cron_inv (message_taken job_id upcoming t (Start settings) s)"
proof -
  let ?env = "manager_env_of upcoming t s" and ?m = "Start settings"
  have wf: "manager_wf (manager s)" using inv by (simp add: cron_inv_def)
  show ?thesis
  proof (cases "newly_spawned job_id upcoming t ?m s")
    case None
    then have "handle_manager job_id ?env ?m (manager s)
        = Outcome (manager s) (effects (handle_manager job_id ?env ?m (manager s))) Ok_unit"
      "\<exists>r. effects (handle_manager job_id ?env ?m (manager s)) = [ReplyStart r]"
      by (auto simp: newly_spawned_def manager_start_def manager_env_of_def Let_def split: sum.splits if_splits)
    then show ?thesis
      using None same_jobs_inv [OF inv refl wf] by (auto simp: after_turn_def add_worker_def)
  next
    case (Some new)
    then obtain cell c where new: "new = (cell, c)" "turn_cell t = Inr cell"
        "boot_worker upcoming (turn_env t) (turn_now t) settings = Inr c"
        "map_of (jobs (manager s)) (job_id (cfg_job settings)) = None"
      by (auto simp: newly_spawned_def split: sum.splits if_splits)
    have out: "handle_manager job_id ?env ?m (manager s) =
        Outcome (manager s\<lparr>jobs := hm_insert (job_id (cfg_job settings)) (cfg_schedule settings, cell)
          (jobs (manager s))\<rparr>) [ReplyStart Ok_unit] Ok_unit"
      using new by (simp add: manager_start_def manager_env_of_def Let_def)
    have "manager_wf (state_of (handle_manager job_id ?env ?m (manager s)))"
      using handle_manager_wf [OF wf turn_fresh [OF inv(1) fresh]] .
    then show ?thesis
      using start_inv [OF inv _ new(4) fresh [OF new(2)]] boot_worker_ok [OF new(3)] out Some new(1)
      by (simp add: after_turn_def)
  qed
qed

lemma set_schedule_message_inv:
  assumes inv: "cron_inv s" "manager_up s"
  shows "cron_inv (message_taken job_id upcoming t (SetSchedule name new) s)"
proof -
  have wf: "manager_wf (manager s)" using inv by (simp add: cron_inv_def)
  note turn = newly_spawned_def add_worker_def after_turn_def manager_set_schedule_def manager_env_of_def
  show ?thesis
  proof (cases "map_of (jobs (manager s)) name")
    case None
    then show ?thesis using same_jobs_inv [OF inv refl wf] by (simp add: turn)
  next
    case (Some old)
    obtain sched cell where old: "old = (sched, cell)" by fastforce
    show ?thesis
    proof (cases "running s (get_id cell)")
      case None
      then show ?thesis
        using Some old reschedule_fails_inv [OF inv(1), of name sched cell new] by (simp add: turn)
    next
      case (Some c)
      then show ?thesis
        using \<open>map_of (jobs (manager s)) name = Some old\<close> old reschedule_inv [OF inv, of name sched cell c new]
        by (simp add: turn)
    qed
  qed
qed

lemma stop_message_inv:
  assumes inv: "cron_inv s" "manager_up s"
  shows "cron_inv (message_taken job_id upcoming t (Stop name) s)"
proof -
  have wf: "manager_wf (manager s)" using inv by (simp add: cron_inv_def)
  note turn = newly_spawned_def add_worker_def after_turn_def manager_stop_def Let_def
  show ?thesis
  proof (cases "map_of (jobs (manager s)) name")
    case None
    then show ?thesis using same_jobs_inv [OF inv refl wf] by (simp add: turn hm_simps)
  next
    case (Some old)
    then show ?thesis using stop_inv [OF inv, of name] by (cases old) (simp add: turn)
  qed
qed

lemma message_inv:
  assumes inv: "cron_inv s" "manager_up s"
    and fresh: "\<And>cell. turn_cell t = Inr cell \<Longrightarrow> get_id cell \<notin> spawned s"
  shows "cron_inv (message_taken job_id upcoming t m s)"
proof -
  have wf: "manager_wf (manager s)" using inv by (simp add: cron_inv_def)
  have wf': "manager_wf (state_of (handle_manager job_id (manager_env_of upcoming t s) m (manager s)))"
    using handle_manager_wf [OF wf turn_fresh [OF inv(1) fresh]] .
  note idle = same_jobs_inv [OF inv]
  show ?thesis
  proof (cases m)
    case (Start settings)
    then show ?thesis using start_message_inv [OF inv fresh] by simp
  next
    case (SetSchedule name new)
    then show ?thesis using set_schedule_message_inv [OF inv] by simp
  next
    case (Stop name)
    then show ?thesis using stop_message_inv [OF inv] by simp
  qed (use idle idle [OF refl wf] wf' in \<open>auto simp: newly_spawned_def add_worker_def after_turn_def
      manager_subscribe_def manager_unsubscribe_def\<close>)
qed

text \<open>A manager that is stopped or killed: only what is asked of the workers changes.\<close>

lemma stops_only_ask:
  "\<exists>a. fold worker_effect (map (\<lambda>(_, _, cell). StopWorker cell None) xs) s = s\<lparr>asked := a\<rparr>"
proof (induction xs arbitrary: s)
  case Nil
  show ?case by (intro exI [of _ "asked s"]) simp
next
  case (Cons x xs)
  obtain name sched cell where x: "x = (name, sched, cell)" by (cases x)
  show ?case
    using Cons.IH [of "s\<lparr>asked := insert (get_id cell) (asked s)\<rparr>"] x by auto
qed

lemma manager_stopped_inv: "cron_inv s \<Longrightarrow> cron_inv (manager_stopped upcoming t s)"
proof -
  assume inv: "cron_inv s"
  let ?cells = "map (\<lambda>(_, _, cell). StopWorker cell None) (turn_job_order t (jobs (manager s)))"
  obtain a where "fold worker_effect ?cells (s\<lparr>manager := manager s\<lparr>jobs := []\<rparr>, manager_up := True\<rparr>)
      = s\<lparr>manager := manager s\<lparr>jobs := []\<rparr>, manager_up := True, asked := a\<rparr>"
    using stops_only_ask by fastforce
  then have "manager_stopped upcoming t s = s\<lparr>manager := manager s\<lparr>jobs := []\<rparr>, manager_up := False, asked := a\<rparr>"
    by (simp add: manager_stopped_def after_turn_def manager_post_stop_def manager_env_of_def)
  then show ?thesis using inv by (simp add: cron_inv_def ids_ok_def workers_awake_def worker_ids_def)
qed

lemma manager_killed_inv: "cron_inv s \<Longrightarrow> cron_inv (manager_killed s)"
  by (simp add: manager_killed_def cron_inv_def ids_ok_def workers_awake_def)

lemma cron_step_inv: "cron_step job_id upcoming s s' \<Longrightarrow> cron_inv s \<Longrightarrow> cron_inv s'"
proof (induction rule: cron_step.induct)
  case (message s t m)
  then show ?case by (intro message_inv) auto
next
  case (supervision s t evt evts)
  then show ?case by (intro supervision_inv) (auto simp: manager_env_of_def)
qed (auto intro!: worker_move_inv worker_exit_inv manager_stopped_inv manager_killed_inv)

interpretation cron: step_invariant "cron_step job_id upcoming" cron_inv for job_id upcoming
  by unfold_locales (rule cron_step_inv)

lemma system_init_inv: "cron_inv system_init"
  by (simp add: system_init_def cron_inv_def ids_ok_def workers_awake_def jobs_served_def
      workers_owned_def manager_wf_def manager_pre_start_def worker_ids_def)

lemma cron_reachable_inv: "cron_reachable job_id upcoming s \<Longrightarrow> cron_inv s"
  by (erule cron.inv_reaches) (rule system_init_inv)

lemma worker_effects_up: "manager_up (fold worker_effect es s) = manager_up s"
proof (induction es arbitrary: s)
  case (Cons e es)
  then show ?case by (cases e) (auto split: option.splits)
qed simp

lemma after_turn_up:
  "manager_up (add_worker new (after_turn out s)) = (\<not> is_err (returned out))"
  "manager_up (after_turn out s) = (\<not> is_err (returned out))"
  by (auto simp: add_worker_def after_turn_def worker_effects_up split: option.splits)

section \<open>A small system\<close>

text \<open>
  A schedule of an instant \<open>s\<close> units from now, a job called tick, worker 7, and a run that
  starts the job, fires its timer, and lets the job panic.
\<close>

definition after :: "nat upcoming" where
  "after s n = Some (n + s)"

definition panicking :: "nat cron_env" where
  "panicking = \<lparr>now_upcoming = 0, now_period = 0, work = (\<lambda>k. (Inl (Panic ''boom''), k))\<rparr>"

definition tick_id :: "nat \<Rightarrow> string" where
  "tick_id j = ''tick''"

definition tick_turn :: "(nat, nat, nat, string) turn" where
  "tick_turn = \<lparr>turn_job_order = rev, turn_sub_order = rev, turn_env = panicking, turn_now = 0,
     turn_cell = Inr \<lparr>get_id = 7, get_name = None\<rparr>\<rparr>"

definition tick_started :: "(nat, nat, nat, string) cron_system" where
  "tick_started =
    add_worker (newly_spawned tick_id after tick_turn (Start \<lparr>cfg_schedule = 0, cfg_job = 2\<rparr>) system_init)
      (after_turn (handle_manager tick_id (manager_env_of after tick_turn system_init)
        (Start \<lparr>cfg_schedule = 0, cfg_job = 2\<rparr>) (manager (system_init :: (nat, nat, nat, string) cron_system)))
        system_init)"

definition tick_config :: "(nat, nat) cron_config" where
  "tick_config = cron_boot 0 (\<lparr>schedule = 0, job = 2, next_schedule_handle = Some 0\<rparr>,
     [SendAfter 0 0 Execute])"

lemma tick_boot: "boot_worker after panicking 0 \<lparr>cfg_schedule = 0, cfg_job = 2\<rparr> = Inr tick_config"
  by (simp add: boot_worker_def cron_pre_start_def after_def panicking_def period_to_std_def tick_config_def)

lemma tick_started_eq:
  "tick_started = \<lparr>manager = \<lparr>jobs = [(''tick'', 0, \<lparr>get_id = 7, get_name = None\<rparr>)], subs = []\<rparr>,
     manager_up = True, running = [7 \<mapsto> tick_config], asked = {},
     events = [ActorStarted \<lparr>get_id = 7, get_name = None\<rparr>], spawned = {7}\<rparr>"
  by (simp add: tick_started_def newly_spawned_def add_worker_def after_turn_def manager_start_def
      manager_env_of_def system_init_def manager_pre_start_def tick_turn_def tick_boot tick_id_def
      Let_def hm_insert_def)

lemma tick_started_reachable: "cron_reachable tick_id after tick_started"
  unfolding tick_started_def
  by (rule reaches_one, rule cron_step.message)
    (simp_all add: system_init_def tick_turn_def)

definition tick_idle :: "(nat, nat, nat, string) cron_system" where
  "tick_idle = tick_started\<lparr>events := []\<rparr>"

lemma tick_idle_reachable: "cron_reachable tick_id after tick_idle"
proof -
  have "cron_step tick_id after tick_started
      (after_turn (manager_supervisor_evt (manager_env_of after tick_turn tick_started)
        (ActorStarted \<lparr>get_id = 7, get_name = None\<rparr>) (manager tick_started)) (tick_started\<lparr>events := []\<rparr>))"
    by (rule cron_step.supervision) (simp_all add: tick_started_eq tick_turn_def)
  then have "cron_step tick_id after tick_started tick_idle"
    by (simp add: tick_idle_def after_turn_def tick_started_eq job_of_actor_def manager_env_of_def
        tick_turn_def notify_all_def)
  then show ?thesis by (rule reaches.next_step [OF tick_started_reachable])
qed

text \<open>The worker's timer fires and the job panics.\<close>

definition tick_failed :: "(nat, nat, nat, string) cron_system" where
  "tick_failed = worker_exit (ActorFailed \<lparr>get_id = 7, get_name = None\<rparr> ''boom'') 7 tick_idle"

lemma tick_failed_reachable: "cron_reachable tick_id after tick_failed"
proof -
  let ?fired = "tick_config\<lparr>timers := [], inbox := [Execute]\<rparr>"
  let ?s = "tick_idle\<lparr>running := (running tick_idle)(7 \<mapsto> ?fired)\<rparr>"
  have up: "running tick_idle 7 = Some tick_config" by (simp add: tick_idle_def tick_started_eq)
  have fire: "timed_exec (handle_cron after) (\<lambda>_. False) (Fire 0) tick_config = Some ?fired"
    by (simp add: tick_config_def cron_boot_def commit_def timed_init_def)
  have "cron_reachable tick_id after ?s"
    by (rule reaches.next_step [OF tick_idle_reachable], rule cron_step.worker [where i = 7, OF up fire])
      (simp add: tick_config_def cron_boot_def)
  moreover have "cron_step tick_id after ?s
      (worker_exit (ActorFailed \<lparr>get_id = 7, get_name = None\<rparr> ''boom'') 7 ?s)"
    by (rule cron_step.worker_fails [where c = ?fired and a = "Take panicking"
        and c' = "commit (handle_cron after panicking (fresh ?fired) Execute (actor ?fired)) (?fired\<lparr>inbox := []\<rparr>)"])
      (simp_all add: tick_config_def cron_boot_def execute_eq panicking_def)
  ultimately have "cron_reachable tick_id after
      (worker_exit (ActorFailed \<lparr>get_id = 7, get_name = None\<rparr> ''boom'') 7 ?s)"
    by (rule reaches.next_step)
  moreover have "worker_exit (ActorFailed \<lparr>get_id = 7, get_name = None\<rparr> ''boom'') 7 ?s = tick_failed"
    by (simp add: tick_failed_def worker_exit_def fun_eq_iff)
  ultimately show ?thesis by simp
qed

section \<open>Properties\<close>

text \<open>
  C3. No job dangles. Under any interleaving of the manager with its workers, as long as the
  manager is up, every job of its table has a worker that runs, will follow the stored
  schedule once its inbox is drained, and has an execution pending whenever its last
  lookup found an instant; or else the worker's failure or end is on its way to the manager.
\<close>

theorem every_job_is_served:
  assumes "cron_reachable job_id upcoming s" and "manager_up s"
    and "map_of (jobs (manager s)) name = Some (sched, cell)"
  shows "(\<exists>c. running s (get_id cell) = Some c \<and> alive c
        \<and> last_update (schedule (actor c)) (inbox c) = sched
        \<and> (next_schedule_handle (actor c) = None \<or> timers c \<noteq> [] \<or> Execute \<in> set (inbox c)))
    \<or> (\<exists>e \<in> set (events s). exit_of e = Some (get_id cell))"
proof -
  note inv = cron_reachable_inv [OF assms(1)]
  have "job_served s sched (get_id cell)" using inv_served [OF inv assms(2)] assms(3) by (rule jobs_servedD)
  then show ?thesis
    using inv by (auto simp: job_served_def exits_def effective_def cron_inv_def workers_awake_def
        awake_inv_def ran_def)
qed

theorem every_job_is_served_witness:
  "\<exists>c. running tick_started 7 = Some c \<and> alive c \<and> last_update (schedule (actor c)) (inbox c) = 0
     \<and> (next_schedule_handle (actor c) = None \<or> timers c \<noteq> [] \<or> Execute \<in> set (inbox c))"
  using every_job_is_served [OF tick_started_reachable, of "''tick''" 0 "\<lparr>get_id = 7, get_name = None\<rparr>"]
  by (simp add: tick_started_eq)

text \<open>
  C13. No worker leaks. Whenever the manager has taken every supervision event and every worker
  it asked to stop has ended, the workers that run are exactly the workers of its table.
\<close>

theorem no_worker_leaks:
  assumes "cron_reachable job_id upcoming s" and "manager_up s"
    and "events s = []" and "asked s \<inter> dom (running s) = {}"
  shows "dom (running s) = set (worker_ids (manager s))"
proof
  show "dom (running s) \<subseteq> set (worker_ids (manager s))"
    using cron_reachable_inv [OF assms(1)] assms by (auto simp: cron_inv_def workers_owned_def)
  show "set (worker_ids (manager s)) \<subseteq> dom (running s)"
  proof
    fix i
    assume "i \<in> set (worker_ids (manager s))"
    then obtain n sc k where j: "(n, sc, k) \<in> set (jobs (manager s))" "i = get_id k"
      by (auto simp: worker_ids_def)
    note inv = cron_reachable_inv [OF assms(1)]
    have "map_of (jobs (manager s)) n = Some (sc, k)"
      using j inv assms(2) by (simp add: cron_inv_def manager_wf_def hm_ok_mem)
    from jobs_servedD [OF inv_served [OF inv assms(2)] this] show "i \<in> dom (running s)"
      using j(2) assms(3) by (auto simp: job_served_def)
  qed
qed

theorem no_worker_leaks_witness: "dom (running tick_idle) = {7}"
  using no_worker_leaks [OF tick_idle_reachable]
  by (simp add: tick_idle_def tick_started_eq worker_ids_def)

text \<open>
  C22. One race takes the manager down, and nothing else that it handles does. A message makes
  it fail exactly when it is a \<open>SetSchedule\<close> for a job of its table whose worker
  has already gone while the worker's exit is still waiting to be handled; no supervision event
  ever makes it fail; and a step after which it is no longer up is such a message, or somebody
  outside stopped or killed it.
\<close>

theorem manager_falls_only_to_a_race:
  assumes "cron_reachable job_id upcoming s" and "manager_up s"
  shows "(\<forall>t m. is_err (returned (handle_manager job_id (manager_env_of upcoming t s) m (manager s)))
        \<longleftrightarrow> (\<exists>name new sched cell. m = SetSchedule name new
              \<and> map_of (jobs (manager s)) name = Some (sched, cell)
              \<and> running s (get_id cell) = None \<and> get_id cell \<in> exits (events s)))
    \<and> (\<forall>t evt. \<not> is_err (returned (manager_supervisor_evt (manager_env_of upcoming t s) evt (manager s))))
    \<and> (\<forall>s'. cron_step job_id upcoming s s' \<and> \<not> manager_up s' \<longrightarrow>
         (\<exists>t name new. s' = message_taken job_id upcoming t (SetSchedule name new) s)
         \<or> (\<exists>t. s' = manager_stopped upcoming t s) \<or> s' = manager_killed s)"
proof (intro conjI allI impI)
  have served: "job_served s sched (get_id cell)"
    if "map_of (jobs (manager s)) name = Some (sched, cell)" for name sched cell
    using inv_served [OF cron_reachable_inv [OF assms(1)] assms(2)] that by (rule jobs_servedD)
  show falls: "is_err (returned (handle_manager job_id (manager_env_of upcoming t s) m (manager s)))
      \<longleftrightarrow> (\<exists>name new sched cell. m = SetSchedule name new
            \<and> map_of (jobs (manager s)) name = Some (sched, cell)
            \<and> running s (get_id cell) = None \<and> get_id cell \<in> exits (events s))" for t m
    using served
    by (cases m) (fastforce simp: job_served_def manager_set_schedule_def manager_start_def manager_stop_def
        manager_env_of_def Let_def split: option.splits sum.splits if_splits)+
  show "\<not> is_err (returned (manager_supervisor_evt (manager_env_of upcoming t s) evt (manager s)))" for t evt
    by (simp add: supervisor_effects)
  show "(\<exists>t name new. s' = message_taken job_id upcoming t (SetSchedule name new) s)
      \<or> (\<exists>t. s' = manager_stopped upcoming t s) \<or> s' = manager_killed s"
    if "cron_step job_id upcoming s s' \<and> \<not> manager_up s'" for s'
    using conjunct1 [OF that]
  proof cases
    case (message t m)
    then have "is_err (returned (handle_manager job_id (manager_env_of upcoming t s) m (manager s)))"
      using that by (simp add: after_turn_up)
    then obtain name new where "m = SetSchedule name new" unfolding falls by blast
    then show ?thesis using message(1) by blast
  qed (use that assms(2) in \<open>auto simp: after_turn_up supervisor_effects worker_exit_def\<close>)
qed

theorem manager_falls_only_to_a_race_witness:
  "is_err (returned (handle_manager tick_id (manager_env_of after tick_turn tick_failed)
      (SetSchedule ''tick'' 5) (manager tick_failed)))
   \<and> \<not> is_err (returned (handle_manager tick_id (manager_env_of after tick_turn tick_failed)
      (SetSchedule ''tock'' 5) (manager tick_failed)))"
proof -
  have failed: "manager_up tick_failed" "jobs (manager tick_failed) = [(''tick'', 0, \<lparr>get_id = 7, get_name = None\<rparr>)]"
      "running tick_failed 7 = None" "7 \<in> exits (events tick_failed)"
    by (simp_all add: tick_failed_def worker_exit_def tick_idle_def tick_started_eq)
  show ?thesis
    using conjunct1 [OF manager_falls_only_to_a_race [OF tick_failed_reachable failed(1)]] failed
    by (simp del: handle_manager.simps)
qed

end
