(* ===== verification/Looping.thy ===== *)
theory Looping
  imports Prelude
begin

text \<open>
  The looping actor of \<open>src/ractor_actors/src/streams/looping/mod.rs\<close>: an actor that runs
  an operation again and again by sending itself a unit message, until the operation
  ends the loop or fails.

  An operation is a function from its state to what \<open>work\<close> returned, the new state and
  what it did to others. A loop need not end, so the run of the loop is a partial
  function: \<open>None\<close> is a loop that never stops.
\<close>

section \<open>The actor\<close>

datatype iteration_result = Continue | End

type_synonym ('st, 'e) operation = "'st \<Rightarrow> iteration_result result \<times> 'st \<times> 'e list"

datatype 'e loop_effect = CastSelf | StopSelf "string option" | Did 'e

fun stops_loop :: "'e loop_effect \<Rightarrow> bool" where
  "stops_loop (StopSelf _) = True"
| "stops_loop _ = False"

text \<open>The first message is sent by the start-up; \<open>self_cast\<close> is what \<open>cast\<close> returns.\<close>

definition loop_pre_start :: "unit result \<Rightarrow> 'st \<Rightarrow> ('st \<times> 'e loop_effect list) result" where
  "loop_pre_start self_cast args =
    (case self_cast of Inl e \<Rightarrow> Inl e | Inr _ \<Rightarrow> Inr (args, [CastSelf]))"

definition loop_handle :: "('st, 'e) operation \<Rightarrow> unit result \<Rightarrow> 'st \<Rightarrow> ('st, 'e loop_effect) outcome" where
  "loop_handle op self_cast st =
    (case op st of
       (Inl e, st', es) \<Rightarrow> Outcome st' (map Did es) (Inl e)
     | (Inr Continue, st', es) \<Rightarrow> Outcome st' (map Did es @ [CastSelf]) self_cast
     | (Inr End, st', es) \<Rightarrow> Outcome st' (map Did es @ [StopSelf None]) Ok_unit)"

text \<open>
  Spawning, linked to a supervisor or not, belongs to the runtime; both calls return the
  new actor or a spawn error.
\<close>

definition spawn_loop :: "('args \<Rightarrow> 'cell \<Rightarrow> 'err + 'cell) \<Rightarrow> ('args \<Rightarrow> 'err + 'cell)
    \<Rightarrow> 'args \<Rightarrow> 'cell option \<Rightarrow> 'err + 'cell" where
  "spawn_loop spawn_linked spawn args supervisor =
    (case supervisor of Some supv \<Rightarrow> spawn_linked args supv | None \<Rightarrow> spawn args)"

section \<open>The run of the loop\<close>

text \<open>Each message the actor sent itself is the next one it takes.\<close>

partial_function (option) loop_run :: "('st, 'e) operation \<Rightarrow> 'st \<Rightarrow> 'e loop_effect list
    \<Rightarrow> ('st, 'e loop_effect) outcome option" where
  "loop_run op st past =
    (let out = loop_handle op Ok_unit st
     in if halts stops_loop out
        then Some (Outcome (state_of out) (past @ effects out) (returned out))
        else loop_run op (state_of out) (past @ effects out))"

lemma loop_run_halt:
  "halts stops_loop (loop_handle op Ok_unit st) \<Longrightarrow>
     loop_run op st past = Some (Outcome (state_of (loop_handle op Ok_unit st))
       (past @ effects (loop_handle op Ok_unit st)) (returned (loop_handle op Ok_unit st)))"
  by (subst loop_run.simps) (simp add: Let_def)

lemma loop_run_continue:
  "\<not> halts stops_loop (loop_handle op Ok_unit st) \<Longrightarrow>
     loop_run op st past = loop_run op (state_of (loop_handle op Ok_unit st))
       (past @ effects (loop_handle op Ok_unit st))"
  by (subst loop_run.simps) (simp add: Let_def)

lemma no_stop_in_Did [simp]: "\<not> list_ex stops_loop (map Did es)"
  by (induction es) simp_all

lemma loop_handle_halts:
  "halts stops_loop (loop_handle op Ok_unit st) \<longleftrightarrow> fst (op st) \<noteq> Inr Continue"
  by (auto simp: halts_def loop_handle_def split: prod.splits sum.splits iteration_result.splits)

section \<open>Operations that end\<close>

text \<open>
  The contract of an operation that ends: while its invariant holds, every iteration that
  asks to continue decreases a rank. Then the loop returns, with an error only if the
  operation returned one.
\<close>

locale ending_operation =
  fixes op :: "('st, 'e) operation"
    and ready :: "'st \<Rightarrow> bool"
    and rank :: "'st \<Rightarrow> nat"
  assumes work_continues:
    "ready st \<Longrightarrow> op st = (Inr Continue, st', es) \<Longrightarrow> ready st' \<and> rank st' < rank st"
begin

lemma loop_returns: "ready st \<Longrightarrow> \<exists>out. loop_run op st past = Some out"
proof (induction "rank st" arbitrary: st past rule: less_induct)
  case less
  show ?case
  proof (cases "fst (op st) = Inr Continue")
    case True
    then obtain st' es where w: "op st = (Inr Continue, st', es)" by (cases "op st") auto
    with less have "ready st'" "rank st' < rank st" using work_continues by blast+
    then show ?thesis
      using less.hyps [of st'] w True
      by (simp add: loop_run_continue loop_handle_halts) (simp add: loop_handle_def)
  next
    case False
    then show ?thesis by (simp add: loop_run_halt loop_handle_halts)
  qed
qed

end

text \<open>A returned loop satisfies what one iteration establishes and earlier ones pass on.\<close>

lemma loop_run_induct:
  assumes "loop_run op st past = Some out"
    and halt: "\<And>st past. fst (op st) \<noteq> Inr Continue \<Longrightarrow>
      P st past (Outcome (state_of (loop_handle op Ok_unit st))
        (past @ effects (loop_handle op Ok_unit st)) (returned (loop_handle op Ok_unit st)))"
    and continue: "\<And>st st' es past out. op st = (Inr Continue, st', es) \<Longrightarrow>
      P st' (past @ map Did es @ [CastSelf]) out \<Longrightarrow> P st past out"
  shows "P st past out"
proof (rule loop_run.raw_induct [where P = "\<lambda>op' st past out. op' = op \<longrightarrow> P st past out",
    OF _ assms(1), THEN mp, OF _ refl])
  fix f op' st past out
  assume IH: "\<And>op' st past out. f op' st past = Some out \<Longrightarrow> op' = op \<longrightarrow> P st past out"
    and eq: "(let out = loop_handle op' Ok_unit st
      in if halts stops_loop out
         then Some (Outcome (state_of out) (past @ effects out) (returned out))
         else f op' (state_of out) (past @ effects out)) = Some out"
  show "op' = op \<longrightarrow> P st past out"
  proof
    assume op: "op' = op"
    show "P st past out"
    proof (cases "fst (op st) = Inr Continue")
      case False
      then show ?thesis using eq halt [OF False] op by (auto simp: Let_def loop_handle_halts)
    next
      case True
      then obtain st' es where w: "op st = (Inr Continue, st', es)" by (cases "op st") auto
      have "f op st' (past @ map Did es @ [CastSelf]) = Some out"
        using eq op True w by (simp add: Let_def loop_handle_halts) (simp add: loop_handle_def)
      then show ?thesis using IH w continue by blast
    qed
  qed
qed

end
