(* ===== verification/Pump.thy ===== *)
theory Pump
  imports Looping
begin

text \<open>
  The stream pump of \<open>src/ractor_actors/src/streams/pump/mod.rs\<close>: an operation for the
  looping actor that takes the next item of a stream, maps it and casts it to a
  receiver; the end of the stream is forwarded too, and ends the loop.

  A stream is the sequence of items it yields until it ends, if it ends: a possibly
  infinite list. The receiver is a parameter: \<open>deliver\<close> is what casting a message to it
  returns, and its new state.
\<close>

section \<open>Streams\<close>

codatatype 'i source = Eof | Item 'i "'i source"

primrec source_of_list :: "'i list \<Rightarrow> 'i source" where
  "source_of_list [] = Eof"
| "source_of_list (x # xs) = Item x (source_of_list xs)"

text \<open>\<open>StreamExt::next\<close>.\<close>

definition next_item :: "'i source \<Rightarrow> 'i option \<times> 'i source" where
  "next_item s = (case s of Eof \<Rightarrow> (None, Eof) | Item x s' \<Rightarrow> (Some x, s'))"

lemma next_item_simps [simp]:
  "next_item Eof = (None, Eof)" "next_item (Item x s) = (Some x, s)"
  by (simp_all add: next_item_def)

lemma source_of_list_inj: "inj source_of_list"
proof (rule injI)
  show "source_of_list xs = source_of_list ys \<Longrightarrow> xs = ys" for xs ys :: "'a list"
  proof (induction xs arbitrary: ys)
    case Nil
    then show ?case by (cases ys) simp_all
  next
    case (Cons x xs)
    then show ?case by (cases ys) auto
  qed
qed

definition finite_source :: "'i source \<Rightarrow> bool" where
  "finite_source s \<longleftrightarrow> s \<in> range source_of_list"

definition source_length :: "'i source \<Rightarrow> nat" where
  "source_length s = length (the_inv source_of_list s)"

lemma source_length_of_list [simp]: "source_length (source_of_list xs) = length xs"
  by (simp add: source_length_def the_inv_f_f source_of_list_inj)

lemma finite_source_Item: "finite_source (Item x s) \<Longrightarrow> finite_source s \<and> source_length s < source_length (Item x s)"
proof -
  assume "finite_source (Item x s)"
  then obtain ys where ys: "Item x s = source_of_list ys" by (auto simp: finite_source_def)
  then obtain y zs where "ys = y # zs" by (cases ys) auto
  with ys have "s = source_of_list zs" "Item x s = source_of_list (y # zs)" by auto
  then show ?thesis by (metis finite_source_def length_Cons lessI rangeI source_length_of_list)
qed

lemma finite_source_ItemI: "finite_source s \<Longrightarrow> finite_source (Item x s)"
  by (metis finite_source_def rangeE rangeI source_of_list.simps(2))

lemma finite_source_Eof [simp]: "finite_source Eof"
  by (metis finite_source_def rangeI source_of_list.simps(1))

text \<open>A stream that never ends.\<close>

primcorec repeating :: "'i \<Rightarrow> 'i source" where
  "repeating x = Item x (repeating x)"

lemma repeating_endless: "\<not> finite_source (repeating x)"
proof -
  have "repeating x \<noteq> source_of_list xs" for xs
    by (induction xs) (subst repeating.code, simp)+
  then show ?thesis by (auto simp: finite_source_def)
qed

section \<open>The streamer\<close>

record ('i, 'w) streamer_state =
  stream :: "'i source"
  receiver :: 'w

definition streamer_work :: "('i option \<Rightarrow> 'm) \<Rightarrow> ('w \<Rightarrow> 'm \<Rightarrow> unit result \<times> 'w)
    \<Rightarrow> (('i, 'w) streamer_state, 'm) operation" where
  "streamer_work fn_map deliver st =
    (case next_item (stream st) of (item, rest) \<Rightarrow>
       (let last_item = (item = None);
            m = fn_map item
        in case deliver (receiver st) m of
             (Inl e, w) \<Rightarrow> (Inl e, \<lparr>stream = rest, receiver = w\<rparr>, [])
           | (Inr _, w) \<Rightarrow>
               (Inr (if last_item then End else Continue), \<lparr>stream = rest, receiver = w\<rparr>, [m])))"

definition spawn_stream_pump :: "(('i, 'w) streamer_state \<Rightarrow> 'cell \<Rightarrow> 'err + 'cell)
    \<Rightarrow> (('i, 'w) streamer_state \<Rightarrow> 'err + 'cell) \<Rightarrow> ('w \<Rightarrow> 'cell)
    \<Rightarrow> 'i source \<Rightarrow> 'w \<Rightarrow> 'cell option \<Rightarrow> 'err + 'cell" where
  "spawn_stream_pump spawn_linked spawn get_cell strm who supervisor =
    (let supv = (case supervisor of Some s \<Rightarrow> s | None \<Rightarrow> get_cell who);
         pump_state = \<lparr>stream = strm, receiver = who\<rparr>
     in spawn_loop spawn_linked spawn pump_state (Some supv))"

text \<open>One iteration, by the item the stream yields and the receiver's answer.\<close>

lemma work_refused:
  "deliver (receiver st) (fn_map (fst (next_item (stream st)))) = (Inl e, w) \<Longrightarrow>
   streamer_work fn_map deliver st
     = (Inl e, \<lparr>stream = snd (next_item (stream st)), receiver = w\<rparr>, [])"
  by (cases "next_item (stream st)") (simp add: streamer_work_def Let_def)

lemma work_accepted:
  "deliver (receiver st) (fn_map (fst (next_item (stream st)))) = (Inr u, w) \<Longrightarrow>
   streamer_work fn_map deliver st
     = (Inr (if fst (next_item (stream st)) = None then End else Continue),
        \<lparr>stream = snd (next_item (stream st)), receiver = w\<rparr>, [fn_map (fst (next_item (stream st)))])"
  by (cases "next_item (stream st)") (simp add: streamer_work_def Let_def)

lemma work_continues_iff:
  "fst (streamer_work fn_map deliver st) = Inr Continue \<longleftrightarrow>
     (\<exists>x s. stream st = Item x s) \<and>
     fst (deliver (receiver st) (fn_map (fst (next_item (stream st))))) = Ok_unit"
proof (cases "deliver (receiver st) (fn_map (fst (next_item (stream st))))")
  case (Pair r w)
  show ?thesis
  proof (cases r)
    case (Inl e)
    then show ?thesis using Pair by (simp add: work_refused)
  next
    case (Inr u)
    then show ?thesis using Pair by (cases "stream st") (simp_all add: work_accepted)
  qed
qed

lemma work_state:
  "stream (fst (snd (streamer_work fn_map deliver st))) = snd (next_item (stream st))"
  by (simp add: streamer_work_def Let_def split: prod.splits sum.splits)

interpretation pump: ending_operation "streamer_work fn_map deliver"
  "\<lambda>st. finite_source (stream st)" "\<lambda>st. source_length (stream st)"
  for fn_map deliver
proof unfold_locales
  fix st st' :: "('a, 'c) streamer_state" and es
  assume fin: "finite_source (stream st)"
    and w: "streamer_work fn_map deliver st = (Inr Continue, st', es)"
  obtain x s where "stream st = Item x s"
    using w work_continues_iff [of fn_map deliver st] by auto
  moreover have "stream st' = snd (next_item (stream st))"
    using work_state [of fn_map deliver st] w by simp
  ultimately show "finite_source (stream st') \<and> source_length (stream st') < source_length (stream st)"
    using fin finite_source_Item [of x s] by simp
qed

section \<open>The run of the pump\<close>

fun forwarded :: "'m loop_effect list \<Rightarrow> 'm list" where
  "forwarded [] = []"
| "forwarded (Did m # es) = m # forwarded es"
| "forwarded (_ # es) = forwarded es"

lemma forwarded_append [simp]: "forwarded (xs @ ys) = forwarded xs @ forwarded ys"
  by (induction xs rule: forwarded.induct) simp_all

text \<open>What the receiver accepts of a list of messages, and what it says of the first refusal.\<close>

fun accepted :: "('w \<Rightarrow> 'm \<Rightarrow> unit result \<times> 'w) \<Rightarrow> 'w \<Rightarrow> 'm list \<Rightarrow> 'm list \<times> unit result" where
  "accepted deliver w [] = ([], Ok_unit)"
| "accepted deliver w (m # ms) =
    (case deliver w m of
       (Inl e, w') \<Rightarrow> ([], Inl e)
     | (Inr _, w') \<Rightarrow> (let (as, r) = accepted deliver w' ms in (m # as, r)))"

lemma loop_handle_selectors:
  "op st = (Inl e, st', es) \<Longrightarrow> loop_handle op c st = Outcome st' (map Did es) (Inl e)"
  "op st = (Inr End, st', es) \<Longrightarrow> loop_handle op c st = Outcome st' (map Did es @ [StopSelf None]) Ok_unit"
  "op st = (Inr Continue, st', es) \<Longrightarrow> loop_handle op c st = Outcome st' (map Did es @ [CastSelf]) c"
  by (simp_all add: loop_handle_def)

lemma pump_run_accepted:
  "\<exists>out. loop_run (streamer_work fn_map deliver) \<lparr>stream = source_of_list xs, receiver = w\<rparr> past = Some out
     \<and> forwarded (effects out)
       = forwarded past @ fst (accepted deliver w (map (fn_map \<circ> Some) xs @ [fn_map None]))
     \<and> returned out = snd (accepted deliver w (map (fn_map \<circ> Some) xs @ [fn_map None]))"
proof (induction xs arbitrary: w past)
  case Nil
  let ?st = "\<lparr>stream = Eof, receiver = w\<rparr>"
  obtain r w' where d: "deliver w (fn_map None) = (r, w')" by fastforce
  have halt: "halts stops_loop (loop_handle (streamer_work fn_map deliver) Ok_unit ?st)"
    by (simp add: loop_handle_halts work_continues_iff)
  show ?case
  proof (cases r)
    case (Inl e)
    then have "streamer_work fn_map deliver ?st = (Inl e, \<lparr>stream = Eof, receiver = w'\<rparr>, [])"
      using d work_refused [of deliver ?st fn_map e w'] by simp
    then show ?thesis using d Inl loop_run_halt [OF halt] by (simp add: loop_handle_selectors)
  next
    case (Inr u)
    then have "streamer_work fn_map deliver ?st
        = (Inr End, \<lparr>stream = Eof, receiver = w'\<rparr>, [fn_map None])"
      using d work_accepted [of deliver ?st fn_map u w'] by simp
    then show ?thesis using d Inr loop_run_halt [OF halt] by (simp add: loop_handle_selectors)
  qed
next
  case (Cons x xs)
  let ?st = "\<lparr>stream = source_of_list (x # xs), receiver = w\<rparr>"
  obtain r w' where d: "deliver w (fn_map (Some x)) = (r, w')" by fastforce
  show ?case
  proof (cases r)
    case (Inl e)
    then have work: "streamer_work fn_map deliver ?st
        = (Inl e, \<lparr>stream = source_of_list xs, receiver = w'\<rparr>, [])"
      using d work_refused [of deliver ?st fn_map e w'] by simp
    then have halt: "halts stops_loop (loop_handle (streamer_work fn_map deliver) Ok_unit ?st)"
      by (simp add: loop_handle_halts)
    show ?thesis using d Inl work loop_run_halt [OF halt] by (simp add: loop_handle_selectors)
  next
    case (Inr u)
    then have work: "streamer_work fn_map deliver ?st
        = (Inr Continue, \<lparr>stream = source_of_list xs, receiver = w'\<rparr>, [fn_map (Some x)])"
      using d work_accepted [of deliver ?st fn_map u w'] by simp
    then have "\<not> halts stops_loop (loop_handle (streamer_work fn_map deliver) Ok_unit ?st)"
      by (simp add: loop_handle_halts)
    then have "loop_run (streamer_work fn_map deliver) ?st past
        = loop_run (streamer_work fn_map deliver) \<lparr>stream = source_of_list xs, receiver = w'\<rparr>
            (past @ [Did (fn_map (Some x)), CastSelf])"
      using work by (simp add: loop_run_continue loop_handle_selectors)
    then show ?thesis
      using Cons.IH [of w' "past @ [Did (fn_map (Some x)), CastSelf]"] d Inr
      by (auto simp: Let_def split: prod.splits)
  qed
qed

lemma pump_returns_finite:
  assumes "loop_run (streamer_work fn_map deliver) st past = Some out"
    and acc: "\<And>w m. fst (deliver w m) = Ok_unit"
  shows "finite_source (stream st)"
proof (rule loop_run_induct [OF assms(1), where P = "\<lambda>st _ _. finite_source (stream st)"])
  show "fst (streamer_work fn_map deliver st) \<noteq> Inr Continue \<Longrightarrow> finite_source (stream st)" for st
    using acc by (cases "stream st") (auto simp: work_continues_iff)
next
  fix st st' :: "('a, 'b) streamer_state" and es
  assume w: "streamer_work fn_map deliver st = (Inr Continue, st', es)"
    and fin: "finite_source (stream st')"
  obtain x s where "stream st = Item x s"
    using w work_continues_iff [of fn_map deliver st] by auto
  then show "finite_source (stream st)"
    using work_state [of fn_map deliver st] w fin by (simp add: finite_source_ItemI)
qed

lemma accepted_all:
  assumes acc: "\<And>w m. fst (deliver w m) = Ok_unit"
  shows "accepted deliver w ms = (ms, Ok_unit)"
proof (induction ms arbitrary: w)
  case (Cons m ms)
  obtain w' where "deliver w m = (Ok_unit, w')"
    using acc [of w m] by (cases "deliver w m") auto
  then show ?case using Cons by simp
qed simp

text \<open>A pump that ends without an error has the end of the stream as its last message.\<close>

lemma accepted_prefix: "\<exists>rest. ms = fst (accepted deliver w ms) @ rest"
proof (induction ms arbitrary: w)
  case (Cons m ms)
  obtain r w' where "deliver w m = (r, w')" by fastforce
  then show ?case using Cons.IH [of w'] by (cases r) (auto simp: Let_def split: prod.splits)
qed simp

lemma accepted_ok: "snd (accepted deliver w ms) = Ok_unit \<Longrightarrow> fst (accepted deliver w ms) = ms"
proof (induction ms arbitrary: w)
  case (Cons m ms)
  obtain r w' where "deliver w m = (r, w')" by fastforce
  then show ?case using Cons.IH [of w'] Cons.prems by (cases r) (auto simp: Let_def split: prod.splits)
qed simp

section \<open>Properties\<close>

text \<open>
  The pump of a stream that ends returns, whatever the receiver does. It has cast to
  the receiver the mapped items of the stream in their order followed by the mapped end of
  the stream, up to the first message the receiver refused; if none was refused it returned
  without an error and delivered all of them, and otherwise it failed with the receiver's
  error and cast nothing more.
\<close>

theorem pump_of_a_finite_stream:
  "\<exists>out. loop_run (streamer_work fn_map deliver)
      \<lparr>stream = source_of_list xs, receiver = w\<rparr> [] = Some out
    \<and> (let all = map (fn_map \<circ> Some) xs @ [fn_map None]
       in (forwarded (effects out), returned out) = accepted deliver w all
          \<and> (\<not> is_err (returned out) \<longrightarrow> forwarded (effects out) = all)
          \<and> (\<exists>rest. all = forwarded (effects out) @ rest))"
proof -
  let ?all = "map (fn_map \<circ> Some) xs @ [fn_map None]"
  obtain out where "loop_run (streamer_work fn_map deliver)
        \<lparr>stream = source_of_list xs, receiver = w\<rparr> [] = Some out"
    and "forwarded (effects out) = fst (accepted deliver w ?all)"
    and "returned out = snd (accepted deliver w ?all)"
    using pump_run_accepted [of fn_map deliver xs w "[]"] by auto
  then show ?thesis
    using accepted_prefix [of ?all deliver w] accepted_ok [of deliver w ?all]
    by (intro exI [of _ out]) (simp add: Let_def not_is_err_unit)
qed

theorem pump_of_a_finite_stream_witness:
  "\<exists>out. loop_run (streamer_work (\<lambda>i. i)
        (\<lambda>w m. if m = Some 2 then (Inl (Error ''full''), w) else (Ok_unit, w @ [m])))
      \<lparr>stream = source_of_list [1, 2, 3 :: nat], receiver = []\<rparr> [] = Some out
    \<and> forwarded (effects out) = [Some 1] \<and> returned out = Inl (Error ''full'')"
  using pump_of_a_finite_stream [of "\<lambda>i. i"
    "\<lambda>w m. if m = Some 2 then (Inl (Error ''full''), w) else (Ok_unit, w @ [m])" "[1, 2, 3 :: nat]" "[]"]
  by (auto simp: Let_def)

text \<open>
  C30. While its receiver accepts every message, the pump ends exactly when its stream
  does: the pump of an endless stream never returns, and the pump of a stream that ends
  always does.
\<close>

theorem pump_ends_with_its_stream:
  assumes "\<And>w m. fst (deliver w m) = Ok_unit"
  shows "loop_run (streamer_work fn_map deliver) st [] = None \<longleftrightarrow> \<not> finite_source (stream st)"
proof
  show "\<not> finite_source (stream st)" if "loop_run (streamer_work fn_map deliver) st [] = None"
    using that pump.loop_returns [of st fn_map deliver "[]"] by auto
  show "loop_run (streamer_work fn_map deliver) st [] = None" if endless: "\<not> finite_source (stream st)"
  proof (rule ccontr)
    assume "loop_run (streamer_work fn_map deliver) st [] \<noteq> None"
    then obtain out where "loop_run (streamer_work fn_map deliver) st [] = Some out" by blast
    then show False
      using pump_returns_finite [of fn_map deliver st "[]" out] assms endless by simp
  qed
qed

theorem pump_ends_with_its_stream_witness:
  "loop_run (streamer_work (\<lambda>i. i) (\<lambda>w m. (Ok_unit, w @ [m])))
     \<lparr>stream = source_of_list [1, 2 :: nat], receiver = []\<rparr> [] \<noteq> None
   \<and> loop_run (streamer_work (\<lambda>i. i) (\<lambda>w m. (Ok_unit, w @ [m])))
     \<lparr>stream = repeating (1 :: nat), receiver = []\<rparr> [] = None"
  using pump_ends_with_its_stream [of "\<lambda>w m. (Ok_unit, w @ [m])" "\<lambda>i. i"
      "\<lparr>stream = source_of_list [1, 2 :: nat], receiver = []\<rparr>"]
    pump_ends_with_its_stream [of "\<lambda>w m. (Ok_unit, w @ [m])" "\<lambda>i. i"
      "\<lparr>stream = repeating (1 :: nat), receiver = []\<rparr>"]
  by (simp add: finite_source_ItemI repeating_endless)

end
