(* ===== verification/Mux.thy ===== *)
theory Mux
  imports Pump
begin

text \<open>
  The stream multiplexer of \<open>src/ractor_actors/src/streams/mux/mod.rs\<close>: an actor that
  starts a stream pump on itself and hands a copy of every item to each of its targets.
  With \<open>stop_processing_target_on_failure\<close> set, a target that failed on an item is
  dropped, and the actor stops when no target is left.

  A target is an object the client supplies: \<open>id_of\<close> is what it answers to \<open>get_id\<close>, and
  an input carries what each target returns from \<open>message_received\<close> for its item, which
  may differ from call to call. The error a target returned is handed to the callback.
\<close>

section \<open>State, inputs and effects\<close>

record ('i, 't) mux_configuration =
  mux_source :: "'i source"
  cfg_targets :: "'t list"
  cfg_stop_on_failure :: bool

record ('t, 'cell) mux_state =
  mux_targets :: "'t list"
  stop_processing_target_on_failure :: bool
  mux_pump :: 'cell

datatype ('i, 't) mux_input =
    Received 'i "'t \<Rightarrow> unit result"
  | NoMoreItems
  | Supervised "nat supervision_event"

datatype ('i, 't) mux_effect =
    MessageReceived 't 'i
  | TargetFailed string fault
  | StopActor "string option"
  | EndOfStream

fun stops_mux :: "('i, 't) mux_effect \<Rightarrow> bool" where
  "stops_mux (StopActor _) = True"
| "stops_mux _ = False"

section \<open>Handlers\<close>

text \<open>The actor starts the pump on itself, with the identity as the map, supervised by itself.\<close>

definition mux_pre_start :: "(('i, 'w) streamer_state \<Rightarrow> 'cell \<Rightarrow> fault + 'cell)
    \<Rightarrow> (('i, 'w) streamer_state \<Rightarrow> fault + 'cell) \<Rightarrow> ('w \<Rightarrow> 'cell) \<Rightarrow> 'w
    \<Rightarrow> ('i, 't) mux_configuration \<Rightarrow> ('t, 'cell) mux_state result" where
  "mux_pre_start spawn_linked spawn get_cell myself config =
    (case spawn_stream_pump spawn_linked spawn get_cell (mux_source config) myself None of
       Inl e \<Rightarrow> Inl e
     | Inr p \<Rightarrow> Inr \<lparr>mux_targets = cfg_targets config,
         stop_processing_target_on_failure = cfg_stop_on_failure config, mux_pump = p\<rparr>)"

text \<open>The loop over the targets, with the set \<open>to_be_removed\<close> as its accumulator.\<close>

fun offer_item :: "('t \<Rightarrow> string) \<Rightarrow> ('t \<Rightarrow> unit result) \<Rightarrow> 'i \<Rightarrow> 't list \<Rightarrow> string set
    \<Rightarrow> ('i, 't) mux_effect list \<times> string set" where
  "offer_item id_of answer item [] to_be_removed = ([], to_be_removed)"
| "offer_item id_of answer item (t # ts) to_be_removed =
    (case answer t of
       Inl err \<Rightarrow>
         (let name = id_of t;
              (es, gone) = offer_item id_of answer item ts (insert name to_be_removed)
          in (MessageReceived t item # TargetFailed name err # es, gone))
     | Inr _ \<Rightarrow>
         (let (es, gone) = offer_item id_of answer item ts to_be_removed
          in (MessageReceived t item # es, gone)))"

definition item_received :: "('t \<Rightarrow> string) \<Rightarrow> ('t \<Rightarrow> unit result) \<Rightarrow> 'i
    \<Rightarrow> ('t, 'cell) mux_state \<Rightarrow> (('t, 'cell) mux_state, ('i, 't) mux_effect) outcome" where
  "item_received id_of answer item st =
    (let (es, to_be_removed) = offer_item id_of answer item (mux_targets st) {}
     in if stop_processing_target_on_failure st
        then let st' = st\<lparr>mux_targets := filter (\<lambda>t. id_of t \<notin> to_be_removed) (mux_targets st)\<rparr>
             in if mux_targets st' = []
                then Outcome st' (es @ [StopActor None, EndOfStream]) Ok_unit
                else Outcome st' es Ok_unit
        else Outcome st es Ok_unit)"

definition end_of_stream :: "('t, 'cell) mux_state
    \<Rightarrow> (('t, 'cell) mux_state, ('i, 't) mux_effect) outcome" where
  "end_of_stream st = Outcome st [StopActor (Some ''End of stream''), EndOfStream] Ok_unit"

definition mux_supervisor_evt :: "nat supervision_event \<Rightarrow> ('t, 'cell) mux_state
    \<Rightarrow> (('t, 'cell) mux_state, ('i, 't) mux_effect) outcome" where
  "mux_supervisor_evt message st =
    (case message of
       ActorFailed who what \<Rightarrow> Outcome st [] (Inl (Error what))
     | _ \<Rightarrow> Outcome st [] Ok_unit)"

definition mux_handle :: "('t \<Rightarrow> string) \<Rightarrow> ('i, 't) mux_input \<Rightarrow> ('t, 'cell) mux_state
    \<Rightarrow> (('t, 'cell) mux_state, ('i, 't) mux_effect) outcome" where
  "mux_handle id_of inp st =
    (case inp of
       Received item answer \<Rightarrow> item_received id_of answer item st
     | NoMoreItems \<Rightarrow> end_of_stream st
     | Supervised ev \<Rightarrow> mux_supervisor_evt ev st)"

definition mux_stream :: "(('i, 't) mux_configuration \<Rightarrow> 'cell \<Rightarrow> 'err + 'cell)
    \<Rightarrow> (('i, 't) mux_configuration \<Rightarrow> 'err + 'cell)
    \<Rightarrow> ('i, 't) mux_configuration \<Rightarrow> 'cell option \<Rightarrow> 'err + 'cell" where
  "mux_stream spawn_linked spawn config supv =
    (case supv of Some s \<Rightarrow> spawn_linked config s | None \<Rightarrow> spawn config)"

section \<open>One item\<close>

text \<open>What one target gets of an item: the call, and the report of its failure.\<close>

definition offer_one :: "('t \<Rightarrow> string) \<Rightarrow> ('t \<Rightarrow> unit result) \<Rightarrow> 'i \<Rightarrow> 't
    \<Rightarrow> ('i, 't) mux_effect list" where
  "offer_one id_of answer item t =
    MessageReceived t item
      # (case answer t of Inl err \<Rightarrow> [TargetFailed (id_of t) err] | Inr _ \<Rightarrow> [])"

definition failing :: "('t \<Rightarrow> string) \<Rightarrow> ('t \<Rightarrow> unit result) \<Rightarrow> 't list \<Rightarrow> string set" where
  "failing id_of answer ts = id_of ` {t \<in> set ts. is_err (answer t)}"

lemma offer_item_eq:
  "offer_item id_of answer item ts gone
     = (concat (map (offer_one id_of answer item) ts), failing id_of answer ts \<union> gone)"
proof (induction ts arbitrary: gone)
  case (Cons t ts)
  then show ?case
    by (cases "answer t") (auto simp: offer_one_def failing_def Let_def)
qed (simp add: failing_def)

definition offers :: "('t \<Rightarrow> string) \<Rightarrow> ('t \<Rightarrow> unit result) \<Rightarrow> 'i \<Rightarrow> 't list
    \<Rightarrow> ('i, 't) mux_effect list" where
  "offers id_of answer item ts = concat (map (offer_one id_of answer item) ts)"

lemma offers_no_stop [simp]:
  "\<not> list_ex stops_mux (offers id_of answer item ts)"
  "filter (\<lambda>e. e = EndOfStream) (offers id_of answer item ts) = []"
  by (induction ts) (auto simp: offers_def offer_one_def split: sum.splits)

definition keep_working :: "('t \<Rightarrow> string) \<Rightarrow> ('t \<Rightarrow> unit result) \<Rightarrow> 't list \<Rightarrow> 't list" where
  "keep_working id_of answer ts = filter (\<lambda>t. id_of t \<notin> failing id_of answer ts) ts"

lemma item_received_off:
  "\<not> stop_processing_target_on_failure st \<Longrightarrow>
   item_received id_of answer item st = Outcome st (offers id_of answer item (mux_targets st)) Ok_unit"
  by (simp add: item_received_def offer_item_eq offers_def)

lemma item_received_on:
  "stop_processing_target_on_failure st \<Longrightarrow>
   item_received id_of answer item st =
     (let ts = keep_working id_of answer (mux_targets st)
      in Outcome (st\<lparr>mux_targets := ts\<rparr>)
          (offers id_of answer item (mux_targets st) @ (if ts = [] then [StopActor None, EndOfStream] else []))
          Ok_unit)"
  by (simp add: item_received_def offer_item_eq offers_def keep_working_def Let_def)

lemma keep_working_inj:
  "inj_on id_of (set ts) \<Longrightarrow> keep_working id_of answer ts = filter (\<lambda>t. \<not> is_err (answer t)) ts"
  unfolding keep_working_def failing_def
  by (rule filter_cong) (auto dest: inj_onD)

section \<open>Runs\<close>

abbreviation run_mux where
  "run_mux id_of \<equiv> run_actor (mux_handle id_of) stops_mux"

abbreviation received where
  "received xs \<equiv> map (\<lambda>(item, answer). Received item answer) xs"

fun items_of :: "'t \<Rightarrow> ('i, 't) mux_effect list \<Rightarrow> 'i list" where
  "items_of t [] = []"
| "items_of t (MessageReceived t' item # es) = (if t' = t then item # items_of t es else items_of t es)"
| "items_of t (_ # es) = items_of t es"

lemma items_of_append [simp]: "items_of t (xs @ ys) = items_of t xs @ items_of t ys"
  by (induction t xs rule: items_of.induct) simp_all

lemma items_of_offers: "items_of t (offers id_of answer item ts) = replicate (count_list ts t) item"
  by (induction ts) (auto simp: offers_def offer_one_def split: sum.splits)

lemma count_list_of_distinct: "distinct ts \<Longrightarrow> count_list ts t = (if t \<in> set ts then 1 else 0)"
  by (induction ts) auto

lemma items_of_offers_distinct:
  "distinct ts \<Longrightarrow> items_of t (offers id_of answer item ts) = (if t \<in> set ts then [item] else [])"
  by (simp add: items_of_offers count_list_of_distinct)

text \<open>The items up to and including the first one a target failed on.\<close>

fun upto_failure :: "'t \<Rightarrow> ('i \<times> ('t \<Rightarrow> unit result)) list \<Rightarrow> 'i list" where
  "upto_failure t [] = []"
| "upto_failure t ((item, answer) # xs) =
    item # (if is_err (answer t) then [] else upto_failure t xs)"

lemma mux_run_received_off:
  "\<not> stop_processing_target_on_failure st \<Longrightarrow>
   run_mux id_of st (received xs)
     = Outcome st (concat (map (\<lambda>(item, answer). offers id_of answer item (mux_targets st)) xs)) Ok_unit"
  by (induction xs) (auto simp: mux_handle_def item_received_off halts_def followed_by_def)

text \<open>The two ways a run with the flag set goes on after an item.\<close>

lemma mux_received_last:
  "stop_processing_target_on_failure st \<Longrightarrow> keep_working id_of answer (mux_targets st) = [] \<Longrightarrow>
   run_mux id_of st (Received item answer # is)
     = Outcome (st\<lparr>mux_targets := []\<rparr>)
         (offers id_of answer item (mux_targets st) @ [StopActor None, EndOfStream]) Ok_unit"
  by (simp add: mux_handle_def item_received_on halts_def Let_def)

lemma mux_received_next:
  "stop_processing_target_on_failure st \<Longrightarrow> keep_working id_of answer (mux_targets st) \<noteq> [] \<Longrightarrow>
   run_mux id_of st (Received item answer # is)
     = followed_by (Outcome (st\<lparr>mux_targets := keep_working id_of answer (mux_targets st)\<rparr>)
           (offers id_of answer item (mux_targets st)) Ok_unit)
         (run_mux id_of (st\<lparr>mux_targets := keep_working id_of answer (mux_targets st)\<rparr>) is)"
  by (simp add: mux_handle_def item_received_on halts_def Let_def)

text \<open>A target that is not, or no longer, in the list is offered nothing.\<close>

lemma mux_handle_targets:
  "set (mux_targets (state_of (mux_handle id_of i st))) \<subseteq> set (mux_targets st)"
  by (cases i)
    (auto simp: mux_handle_def item_received_def end_of_stream_def mux_supervisor_evt_def
       offer_item_eq Let_def split: supervision_event.splits)

lemma mux_handle_effects:
  "e \<in> set (effects (mux_handle id_of i st)) \<Longrightarrow>
     (case e of MessageReceived t item \<Rightarrow> t \<in> set (mux_targets st)
      | TargetFailed name err \<Rightarrow> name \<in> id_of ` set (mux_targets st) | _ \<Rightarrow> True)"
  by (cases i)
    (auto simp: mux_handle_def item_received_def end_of_stream_def mux_supervisor_evt_def
       offer_item_eq offer_one_def Let_def split: supervision_event.splits if_splits sum.splits)

definition within :: "('t \<Rightarrow> string) \<Rightarrow> 't set \<Rightarrow> ('i, 't) mux_effect \<Rightarrow> bool" where
  "within id_of T e = (case e of MessageReceived t item \<Rightarrow> t \<in> T
     | TargetFailed name err \<Rightarrow> name \<in> id_of ` T | _ \<Rightarrow> True)"

interpretation mux: actor_safety "mux_handle id_of" "\<lambda>_. True"
  "\<lambda>st. set (mux_targets st) \<subseteq> T" "within id_of T"
  for id_of T
proof unfold_locales
  show "set (mux_targets st) \<subseteq> T \<Longrightarrow> True \<Longrightarrow>
      set (mux_targets (state_of (mux_handle id_of i st))) \<subseteq> T" for st i
    using mux_handle_targets [of id_of i st] by blast
  show "set (mux_targets st) \<subseteq> T \<Longrightarrow> True \<Longrightarrow> e \<in> set (effects (mux_handle id_of i st))
      \<Longrightarrow> within id_of T e" for st i e
    using mux_handle_effects [of e id_of i st]
    by (auto simp: within_def split: mux_effect.splits)
qed

lemma items_of_notin: "(\<And>item. MessageReceived t item \<notin> set es) \<Longrightarrow> items_of t es = []"
  by (induction t es rule: items_of.induct) auto

lemma mux_run_not_offered:
  assumes "t \<notin> set (mux_targets st)"
  shows "items_of t (effects (run_mux id_of st is)) = []"
proof (rule items_of_notin)
  fix item
  show "MessageReceived t item \<notin> set (effects (run_mux id_of st is))"
  proof
    assume offered: "MessageReceived t item \<in> set (effects (run_mux id_of st is))"
    have "within id_of (set (mux_targets st)) (MessageReceived t item)"
      by (rule mux.run_safe [OF _ _ offered]) (simp_all add: list_all_iff)
    then show False using assms by (simp add: within_def)
  qed
qed

lemma upto_failure_run:
  assumes "stop_processing_target_on_failure st"
    and "distinct (mux_targets st)" and "inj_on id_of (set (mux_targets st))"
    and "t \<in> set (mux_targets st)"
  shows "items_of t (effects (run_mux id_of st (received xs))) = upto_failure t xs"
  using assms
proof (induction xs arbitrary: st)
  case Nil
  then show ?case by simp
next
  case (Cons x xs)
  obtain item answer where x: "x = (item, answer)" by fastforce
  let ?ts = "keep_working id_of answer (mux_targets st)"
  let ?st = "st\<lparr>mux_targets := ?ts\<rparr>"
  have ts: "?ts = filter (\<lambda>t. \<not> is_err (answer t)) (mux_targets st)"
    using Cons.prems by (simp add: keep_working_inj)
  have here: "items_of t (offers id_of answer item (mux_targets st)) = [item]"
    using Cons.prems by (simp add: items_of_offers_distinct)
  show ?case
  proof (cases "is_err (answer t)")
    case True
    then have "t \<notin> set ?ts" by (simp add: ts)
    then have "items_of t (effects (run_mux id_of ?st (received xs))) = []"
      by (intro mux_run_not_offered) simp
    then show ?thesis
      using here x True Cons.prems(1)
      by (cases "?ts = []")
        (simp_all add: mux_received_last mux_received_next del: run_actor.simps(2))
  next
    case False
    then have on: "t \<in> set ?ts" using Cons.prems by (simp add: ts)
    then have "?ts \<noteq> []" by auto
    moreover have "items_of t (effects (run_mux id_of ?st (received xs))) = upto_failure t xs"
    proof (rule Cons.IH)
      show "distinct (mux_targets ?st)" using Cons.prems by (simp add: ts)
      show "inj_on id_of (set (mux_targets ?st))"
        using Cons.prems(3) by (rule inj_on_subset) (simp add: ts)
    qed (use Cons.prems on in simp_all)
    ultimately show ?thesis
      using here x False Cons.prems(1) by (simp add: mux_received_next del: run_actor.simps(2))
  qed
qed

text \<open>The actor stops once; what it tells the callback and the runtime of its end go together.\<close>

abbreviation stop_requests :: "('i, 't) mux_effect list \<Rightarrow> nat" where
  "stop_requests es \<equiv> length (filter stops_mux es)"

abbreviation end_reports :: "('i, 't) mux_effect list \<Rightarrow> nat" where
  "end_reports es \<equiv> length (filter (\<lambda>e. e = EndOfStream) es)"

lemma stop_requests_none: "stop_requests es = 0 \<longleftrightarrow> \<not> list_ex stops_mux es"
  by (simp add: filter_empty_conv list_ex_iff)

lemma mux_handle_ends:
  "end_reports (effects (mux_handle id_of i st)) = stop_requests (effects (mux_handle id_of i st))
   \<and> stop_requests (effects (mux_handle id_of i st)) \<le> 1
   \<and> (is_err (returned (mux_handle id_of i st))
        \<longrightarrow> stop_requests (effects (mux_handle id_of i st)) = 0)"
proof (cases i)
  case (Received item answer)
  have "stop_requests (offers id_of answer item (mux_targets st)) = 0"
    by (simp only: stop_requests_none) simp
  then show ?thesis
    using Received
    by (cases "stop_processing_target_on_failure st")
      (simp_all add: mux_handle_def item_received_off item_received_on Let_def)
qed (auto simp: mux_handle_def end_of_stream_def mux_supervisor_evt_def split: supervision_event.splits)

lemma mux_run_all_failed:
  assumes "stop_processing_target_on_failure st" and "mux_targets st \<noteq> []"
    and "inj_on id_of (set (mux_targets st))"
  shows "list_ex stops_mux (effects (run_mux id_of st (received xs)))
      \<longleftrightarrow> (\<forall>t \<in> set (mux_targets st). \<exists>(item, answer) \<in> set xs. is_err (answer t))"
  using assms
proof (induction xs arbitrary: st)
  case Nil
  then show ?case by (cases "mux_targets st") auto
next
  case (Cons x xs)
  obtain item answer where x: "x = (item, answer)" by fastforce
  let ?ts = "keep_working id_of answer (mux_targets st)"
  have ts: "?ts = filter (\<lambda>t. \<not> is_err (answer t)) (mux_targets st)"
    using Cons.prems by (simp add: keep_working_inj)
  show ?case
  proof (cases "?ts = []")
    case True
    then have "\<forall>t \<in> set (mux_targets st). is_err (answer t)" by (auto simp: ts filter_empty_conv)
    then show ?thesis
      using True x Cons.prems by (auto simp: mux_received_last simp del: run_actor.simps(2))
  next
    case False
    let ?st = "st\<lparr>mux_targets := ?ts\<rparr>"
    have "inj_on id_of (set (mux_targets ?st))"
      using Cons.prems(3) by (rule inj_on_subset) (simp add: ts)
    then have "list_ex stops_mux (effects (run_mux id_of ?st (received xs)))
        \<longleftrightarrow> (\<forall>t \<in> set ?ts. \<exists>(item, answer) \<in> set xs. is_err (answer t))"
      using Cons.IH [of ?st] Cons.prems False by simp
    moreover have "list_ex stops_mux (effects (run_mux id_of st (received (x # xs))))
        = list_ex stops_mux (effects (run_mux id_of ?st (received xs)))"
      using False x Cons.prems by (simp add: mux_received_next del: run_actor.simps(2))
    ultimately show ?thesis using x by (auto simp: ts)
  qed
qed

lemma mux_run_ends:
  "end_reports (effects (run_mux id_of st is)) = stop_requests (effects (run_mux id_of st is))
   \<and> stop_requests (effects (run_mux id_of st is)) \<le> 1
   \<and> (is_err (returned (run_mux id_of st is))
        \<longrightarrow> stop_requests (effects (run_mux id_of st is)) = 0)"
proof (induction "is" arbitrary: st)
  case Nil
  then show ?case by simp
next
  case (Cons i "is")
  note here = mux_handle_ends [of id_of i st]
  show ?case
  proof (cases "halts stops_mux (mux_handle id_of i st)")
    case True
    then show ?thesis using here by simp
  next
    case False
    then have "stop_requests (effects (mux_handle id_of i st)) = 0"
      unfolding stop_requests_none halts_def by blast
    then show ?thesis using here Cons.IH [of "state_of (mux_handle id_of i st)"] False by simp
  qed
qed

section \<open>Properties\<close>

text \<open>
  Without \<open>stop_processing_target_on_failure\<close> the multiplexer drops nobody: over any
  list of items, whatever the targets return, every item is handed to every target, in the
  order of the list and of the targets, each failure is reported to the callback right
  after the call that failed, and the end of the stream then stops the actor with the
  reason "End of stream" and is reported once, last.
\<close>

theorem mux_without_removal_serves_everyone:
  assumes "\<not> stop_processing_target_on_failure st"
  shows "run_actor (mux_handle id_of) stops_mux st (received xs @ [NoMoreItems])
    = Outcome st
        (concat (map (\<lambda>(item, answer). concat (map (\<lambda>t. MessageReceived t item
             # (case answer t of Inl err \<Rightarrow> [TargetFailed (id_of t) err] | Inr _ \<Rightarrow> []))
           (mux_targets st))) xs)
         @ [StopActor (Some ''End of stream''), EndOfStream]) Ok_unit"
proof -
  have go: "\<not> halts stops_mux (run_mux id_of st (received xs))"
    unfolding mux_run_received_off [OF assms] halts_def by (induction xs) auto
  show ?thesis
    unfolding run_actor_append [OF go] mux_run_received_off [OF assms]
    by (simp add: mux_handle_def end_of_stream_def halts_def followed_by_def offers_def
        offer_one_def [abs_def])
qed

theorem mux_without_removal_serves_everyone_witness:
  "run_actor (mux_handle (\<lambda>t. t)) stops_mux
     \<lparr>mux_targets = [''a'', ''b''], stop_processing_target_on_failure = False, mux_pump = ()\<rparr>
     (received [(7 :: nat, \<lambda>t. if t = ''a'' then Inl (Error ''full'') else Ok_unit)] @ [NoMoreItems])
   = Outcome \<lparr>mux_targets = [''a'', ''b''], stop_processing_target_on_failure = False, mux_pump = ()\<rparr>
     [MessageReceived ''a'' 7, TargetFailed ''a'' (Error ''full''), MessageReceived ''b'' 7,
      StopActor (Some ''End of stream''), EndOfStream] Ok_unit"
  by (subst mux_without_removal_serves_everyone) simp_all

text \<open>
  C9. With \<open>stop_processing_target_on_failure\<close> set and targets of distinct ids, each
  target is handed exactly the items up to and including the first one it failed on, in
  order and once each: a failed target gets nothing more, and no other target loses an
  item to its failure, nor to the actor stopping when the last target is gone.
\<close>

theorem failed_target_gets_nothing_more:
  assumes "stop_processing_target_on_failure st"
    and "distinct (mux_targets st)" and "inj_on id_of (set (mux_targets st))"
    and "t \<in> set (mux_targets st)"
  shows "items_of t (effects (run_actor (mux_handle id_of) stops_mux st (received xs)))
    = upto_failure t xs"
  using assms by (rule upto_failure_run)

theorem failed_target_gets_nothing_more_witness:
  "let st = \<lparr>mux_targets = [''a'', ''b''], stop_processing_target_on_failure = True, mux_pump = ()\<rparr>;
       a_fails = (\<lambda>t. if t = ''a'' then Inl (Error ''full'') else Ok_unit);
       run = run_actor (mux_handle (\<lambda>t. t)) stops_mux st
         (received [(1 :: nat, \<lambda>_. Ok_unit), (2, a_fails), (3, \<lambda>_. Ok_unit)])
   in items_of ''a'' (effects run) = [1, 2] \<and> items_of ''b'' (effects run) = [1, 2, 3]"
  using failed_target_gets_nothing_more [of
      "\<lparr>mux_targets = [''a'', ''b''], stop_processing_target_on_failure = True, mux_pump = ()\<rparr>"
      "\<lambda>t. t" "''a''" "[(1 :: nat, \<lambda>_. Ok_unit),
        (2, \<lambda>t. if t = ''a'' then Inl (Error ''full'') else Ok_unit), (3, \<lambda>_. Ok_unit)]"]
    failed_target_gets_nothing_more [of
      "\<lparr>mux_targets = [''a'', ''b''], stop_processing_target_on_failure = True, mux_pump = ()\<rparr>"
      "\<lambda>t. t" "''b''" "[(1 :: nat, \<lambda>_. Ok_unit),
        (2, \<lambda>t. if t = ''a'' then Inl (Error ''full'') else Ok_unit), (3, \<lambda>_. Ok_unit)]"]
  by (simp add: Let_def del: run_actor.simps(2))

text \<open>
  The multiplexer reports the end of the stream exactly when it stops: over any
  inputs, messages and supervision events in any order, it asks to stop at most once and
  calls \<open>end_of_stream\<close> as often as that, and never when it failed instead. Given items
  only, with the flag set and targets of distinct ids, it stops if and only if every target
  has failed on some item.
\<close>

theorem mux_end_is_reported_once:
  "let es = effects (run_actor (mux_handle id_of) stops_mux st is)
   in length (filter (\<lambda>e. e = EndOfStream) es) = length (filter stops_mux es)
      \<and> length (filter stops_mux es) \<le> 1
      \<and> (is_err (returned (run_actor (mux_handle id_of) stops_mux st is))
          \<longrightarrow> length (filter stops_mux es) = 0)
      \<and> (stop_processing_target_on_failure st \<and> mux_targets st \<noteq> []
          \<and> inj_on id_of (set (mux_targets st)) \<and> is = received xs
          \<longrightarrow> (list_ex stops_mux es \<longleftrightarrow>
               (\<forall>t \<in> set (mux_targets st). \<exists>(item, answer) \<in> set xs. is_err (answer t))))"
  unfolding Let_def using mux_run_ends [of id_of st "is"] mux_run_all_failed [of st id_of xs]
  by blast

theorem mux_end_is_reported_once_witness:
  "list_ex stops_mux (effects (run_actor (mux_handle (\<lambda>t. t)) stops_mux
     \<lparr>mux_targets = [''a'', ''b''], stop_processing_target_on_failure = True, mux_pump = ()\<rparr>
     (received [(1 :: nat, \<lambda>t. if t = ''a'' then Inl (Error ''full'') else Ok_unit),
                (2, \<lambda>t. if t = ''b'' then Inl (Error ''full'') else Ok_unit)])))"
  using mux_end_is_reported_once [of "\<lambda>t. t"
    "\<lparr>mux_targets = [''a'', ''b''], stop_processing_target_on_failure = True, mux_pump = ()\<rparr>"
    "received [(1 :: nat, \<lambda>t. if t = ''a'' then Inl (Error ''full'') else Ok_unit),
               (2, \<lambda>t. if t = ''b'' then Inl (Error ''full'') else Ok_unit)]"
    "[(1 :: nat, \<lambda>t. if t = ''a'' then Inl (Error ''full'') else Ok_unit),
      (2, \<lambda>t. if t = ''b'' then Inl (Error ''full'') else Ok_unit)]"]
  unfolding Let_def by simp

text \<open>
  The pump and the multiplexer together serve a whole stream: for a stream that ends,
  the pump the multiplexer starts on itself returns, having cast to it every item and the
  end of the stream; and the multiplexer that takes those messages without the failure flag
  hands every target exactly the items of the stream, in order, before it stops.
\<close>

theorem pumped_stream_reaches_every_target:
  assumes "\<not> stop_processing_target_on_failure st"
    and "distinct (mux_targets st)" and "t \<in> set (mux_targets st)"
  shows "\<exists>out. loop_run (streamer_work (\<lambda>a. a) (\<lambda>mailbox m. (Ok_unit, mailbox @ [m])))
        \<lparr>stream = source_of_list xs, receiver = []\<rparr> [] = Some out
      \<and> (let run = run_actor (mux_handle id_of) stops_mux st
               (map (\<lambda>m. case m of Some item \<Rightarrow> Received item (answer item) | None \<Rightarrow> NoMoreItems)
                 (forwarded (effects out)))
         in items_of t (effects run) = xs \<and> returned run = Ok_unit
            \<and> length (filter (\<lambda>e. e = EndOfStream) (effects run)) = 1)"
proof -
  let ?deliver = "\<lambda>mailbox m. (Ok_unit, mailbox @ [m])"
  let ?ys = "map (\<lambda>x. (x, answer x)) xs"
  obtain out where out: "loop_run (streamer_work (\<lambda>a. a) ?deliver)
        \<lparr>stream = source_of_list xs, receiver = []\<rparr> [] = Some out"
    and fwd: "forwarded (effects out) = map Some xs @ [None]"
    using pump_run_accepted [of "\<lambda>a. a" ?deliver xs "[]" "[]"]
    by (auto simp: accepted_all comp_def)
  have msgs: "map (\<lambda>m. case m of Some item \<Rightarrow> Received item (answer item) | None \<Rightarrow> NoMoreItems)
      (forwarded (effects out)) = received ?ys @ [NoMoreItems]"
    by (simp add: fwd comp_def)
  have go: "\<not> halts stops_mux (run_mux id_of st (received ?ys))"
    unfolding mux_run_received_off [OF assms(1)] halts_def by (induction xs) auto
  have items: "items_of t (concat (map (\<lambda>(item, answer). offers id_of answer item (mux_targets st)) ?ys)) = xs"
    using assms(2,3) by (induction xs) (simp_all add: items_of_offers_distinct)
  have ends: "filter (\<lambda>e. e = EndOfStream)
      (concat (map (\<lambda>(item, answer). offers id_of answer item (mux_targets st)) ?ys)) = []"
    by (induction xs) simp_all
  have "run_mux id_of st (received ?ys @ [NoMoreItems]) = Outcome st
      (concat (map (\<lambda>(item, answer). offers id_of answer item (mux_targets st)) ?ys)
        @ [StopActor (Some ''End of stream''), EndOfStream]) Ok_unit"
    unfolding run_actor_append [OF go] mux_run_received_off [OF assms(1)]
    by (simp add: mux_handle_def end_of_stream_def halts_def followed_by_def)
  then show ?thesis using out items ends unfolding msgs [symmetric] by (auto simp: Let_def)
qed

theorem pumped_stream_reaches_every_target_witness:
  "\<exists>out. loop_run (streamer_work (\<lambda>a. a) (\<lambda>mailbox m. (Ok_unit, mailbox @ [m])))
        \<lparr>stream = source_of_list [5 :: nat, 6], receiver = []\<rparr> [] = Some out"
  using pumped_stream_reaches_every_target [of
    "\<lparr>mux_targets = [''a'', ''b''], stop_processing_target_on_failure = False, mux_pump = ()\<rparr>"
    "''b''" "[5, 6]" "\<lambda>t. t" "\<lambda>_ _. Ok_unit"]
  by auto

end
