(* ===== verification/Mux_System.thy ===== *)
theory Mux_System
  imports Mux "HOL-Library.Sublist"
begin

text \<open>
  The multiplexer and its pump as a system of two actors with mailboxes, taking turns in any
  order: the pump of \<open>src/ractor_actors/src/streams/pump/mod.rs\<close>, which sends itself a unit
  message for every item, and the muxer of \<open>src/ractor_actors/src/streams/mux/mod.rs\<close>, which
  started it and supervises it.

  From outside the muxer may be stopped or drained. Draining is the runtime's: a marker goes
  to the end of the mailbox, a cast after it is refused, and the actor stops when it takes the
  marker. The answers of the targets are free: \<open>beh\<close> is the set of the answers an item may meet.
\<close>

section \<open>The state of the two actors\<close>

datatype 'i mux_mail = Post "'i option" | DrainMarker

record ('i, 't) mux_system =
  muxer :: "('t, nat actor_cell) mux_state"
  muxer_up :: bool
  draining :: bool
  muxer_box :: "'i mux_mail list"
  muxer_evts :: "nat supervision_event list"
  pump_state :: "('i, unit) streamer_state"
  pump_up :: bool
  pump_box :: nat
  calls :: "('i, 't) mux_effect list"
  taken :: "'i list"   \<comment> \<open>the items the muxer took from its mailbox\<close>

text \<open>As the start-up of the muxer leaves them: the pump has sent itself its first message.\<close>

definition mux_init :: "('t, nat actor_cell) mux_state \<Rightarrow> 'i source \<Rightarrow> ('i, 't) mux_system" where
  "mux_init st src =
    \<lparr>muxer = st, muxer_up = True, draining = False, muxer_box = [], muxer_evts = [ActorStarted (mux_pump st)],
     pump_state = \<lparr>stream = src, receiver = ()\<rparr>, pump_up = True, pump_box = 1, calls = [], taken = []\<rparr>"

section \<open>Turns\<close>

definition muxer_cast :: "('i, 't) mux_system \<Rightarrow> unit result" where
  "muxer_cast s =
    (if muxer_up s \<and> \<not> draining s then Ok_unit else Inl (Error ''Messaging failed to enqueue the message''))"

text \<open>The pump takes a unit message: one iteration of the loop, with the identity as the map.\<close>

fun casts_self :: "'m loop_effect \<Rightarrow> bool" where
  "casts_self CastSelf = True"
| "casts_self _ = False"

definition pump_turn :: "('i, 't) mux_system \<Rightarrow> ('i, 't) mux_system" where
  "pump_turn s =
    (let out = loop_handle (streamer_work (\<lambda>a. a) (\<lambda>w m. (muxer_cast s, w))) Ok_unit (pump_state s);
         ends = halts stops_loop out
     in s\<lparr>pump_state := state_of out, pump_up := \<not> ends,
          pump_box := pump_box s + length (filter casts_self (effects out)),
          muxer_box := muxer_box s @ map Post (forwarded (effects out)),
          muxer_evts := muxer_evts s @
            (if ends then [exit_event (mux_pump (muxer s)) None (returned out)] else [])\<rparr>)"

definition muxer_turn :: "('t \<Rightarrow> string) \<Rightarrow> ('i, 't) mux_input \<Rightarrow> ('i, 't) mux_system
    \<Rightarrow> ('i, 't) mux_system" where
  "muxer_turn id_of inp s =
    (let out = mux_handle id_of inp (muxer s)
     in s\<lparr>muxer := state_of out, muxer_up := \<not> halts stops_mux out, calls := calls s @ effects out\<rparr>)"

text \<open>The turns of the two actors, and what may come from outside.\<close>

inductive mux_turns :: "('t \<Rightarrow> string) \<Rightarrow> ('t \<Rightarrow> unit result) set \<Rightarrow> ('i, 't) mux_system
    \<Rightarrow> ('i, 't) mux_system \<Rightarrow> bool" for id_of beh where
  pump_works: "pump_up s \<Longrightarrow> pump_box s = Suc n \<Longrightarrow> mux_turns id_of beh s (pump_turn (s\<lparr>pump_box := n\<rparr>))"
| pump_stopped: "pump_up s \<Longrightarrow> \<not> muxer_up s \<Longrightarrow> mux_turns id_of beh s (s\<lparr>pump_up := False\<rparr>)"
| takes_item: "muxer_up s \<Longrightarrow> muxer_box s = Post (Some x) # ms \<Longrightarrow> answer \<in> beh
    \<Longrightarrow> mux_turns id_of beh s
          (muxer_turn id_of (Received x answer) (s\<lparr>muxer_box := ms, taken := taken s @ [x]\<rparr>))"
| takes_end: "muxer_up s \<Longrightarrow> muxer_box s = Post None # ms
    \<Longrightarrow> mux_turns id_of beh s (muxer_turn id_of NoMoreItems (s\<lparr>muxer_box := ms\<rparr>))"
| takes_event: "muxer_up s \<Longrightarrow> muxer_evts s = evt # evts
    \<Longrightarrow> mux_turns id_of beh s (muxer_turn id_of (Supervised evt) (s\<lparr>muxer_evts := evts\<rparr>))"
| drained: "muxer_up s \<Longrightarrow> muxer_box s = DrainMarker # ms
    \<Longrightarrow> mux_turns id_of beh s (s\<lparr>muxer_box := ms, muxer_up := False\<rparr>)"

definition drain :: "('i, 't) mux_system \<Rightarrow> ('i, 't) mux_system" where
  "drain s = s\<lparr>draining := True, muxer_box := muxer_box s @ [DrainMarker]\<rparr>"

inductive mux_step :: "('t \<Rightarrow> string) \<Rightarrow> ('t \<Rightarrow> unit result) set \<Rightarrow> ('i, 't) mux_system
    \<Rightarrow> ('i, 't) mux_system \<Rightarrow> bool" for id_of beh where
  turn: "mux_turns id_of beh s s' \<Longrightarrow> mux_step id_of beh s s'"
| drain: "muxer_up s \<Longrightarrow> \<not> draining s \<Longrightarrow> mux_step id_of beh s (drain s)"
| stop: "mux_step id_of beh s (s\<lparr>muxer_up := False\<rparr>)"

section \<open>What a turn changes\<close>

primrec onto :: "'i list \<Rightarrow> 'i source \<Rightarrow> 'i source" where
  "onto [] s = s"
| "onto (x # xs) s = Item x (onto xs s)"

lemma onto_append [simp]: "onto (xs @ ys) s = onto xs (onto ys s)"
  by (induction xs) simp_all

lemma onto_Eof: "onto xs Eof = source_of_list xs"
  by (induction xs) simp_all

lemma source_of_list_onto [simp]: "\<exists>rest. source_of_list xs = onto xs rest"
  by (metis onto_Eof)

lemma pump_turn_item:
  "muxer_cast s = Ok_unit \<Longrightarrow> stream (pump_state s) = Item x r \<Longrightarrow>
   pump_turn s = s\<lparr>pump_state := \<lparr>stream = r, receiver = ()\<rparr>, pump_up := True, pump_box := Suc (pump_box s),
     muxer_box := muxer_box s @ [Post (Some x)]\<rparr>"
  by (simp add: pump_turn_def loop_handle_def work_accepted halts_def Let_def)

lemma pump_turn_eof:
  "muxer_cast s = Ok_unit \<Longrightarrow> stream (pump_state s) = Eof \<Longrightarrow>
   pump_turn s = s\<lparr>pump_state := \<lparr>stream = Eof, receiver = ()\<rparr>, pump_up := False,
     muxer_box := muxer_box s @ [Post None],
     muxer_evts := muxer_evts s @ [ActorTerminated (mux_pump (muxer s)) None]\<rparr>"
  by (simp add: pump_turn_def loop_handle_def work_accepted halts_def exit_event_def Let_def)

lemma pump_turn_refused:
  "muxer_cast s = Inl e \<Longrightarrow>
   pump_turn s = s\<lparr>pump_state := \<lparr>stream = snd (next_item (stream (pump_state s))), receiver = ()\<rparr>,
     pump_up := False, muxer_evts := muxer_evts s @ [ActorFailed (mux_pump (muxer s)) (fault_text e)]\<rparr>"
  by (simp add: pump_turn_def loop_handle_def work_refused halts_def exit_event_def Let_def)

lemma pump_turn_cases:
  obtains (item) x r where "muxer_up s" "\<not> draining s" "stream (pump_state s) = Item x r"
      "pump_turn s = s\<lparr>pump_state := \<lparr>stream = r, receiver = ()\<rparr>, pump_up := True,
         pump_box := Suc (pump_box s), muxer_box := muxer_box s @ [Post (Some x)]\<rparr>"
  | (eof) "muxer_up s" "\<not> draining s" "stream (pump_state s) = Eof"
      "pump_turn s = s\<lparr>pump_state := \<lparr>stream = Eof, receiver = ()\<rparr>, pump_up := False,
         muxer_box := muxer_box s @ [Post None],
         muxer_evts := muxer_evts s @ [ActorTerminated (mux_pump (muxer s)) None]\<rparr>"
  | (refused) what where "\<not> muxer_up s \<or> draining s"
      "pump_turn s = s\<lparr>pump_state := \<lparr>stream = snd (next_item (stream (pump_state s))), receiver = ()\<rparr>,
         pump_up := False, muxer_evts := muxer_evts s @ [ActorFailed (mux_pump (muxer s)) what]\<rparr>"
  by (cases "muxer_up s \<and> \<not> draining s"; cases "stream (pump_state s)")
    (auto simp: muxer_cast_def pump_turn_item pump_turn_eof pump_turn_refused)

section \<open>What the muxer does with one input\<close>

lemma mux_received_targets:
  "mux_targets (state_of (mux_handle id_of (Received x answer) st))
     = (if stop_processing_target_on_failure st then keep_working id_of answer (mux_targets st) else mux_targets st)"
  by (simp add: mux_handle_def item_received_on item_received_off Let_def)

lemma mux_received_subset:
  "set (mux_targets (state_of (mux_handle id_of (Received x answer) st))) \<subseteq> set (mux_targets st)"
  by (auto simp: mux_received_targets keep_working_def)

lemma mux_received_keeps_distinct:
  "distinct (mux_targets st) \<Longrightarrow> distinct (mux_targets (state_of (mux_handle id_of (Received x answer) st)))"
  by (simp add: mux_received_targets keep_working_def)

lemma mux_received_items:
  "distinct (mux_targets st) \<Longrightarrow>
   items_of t (effects (mux_handle id_of (Received x answer) st)) = (if t \<in> set (mux_targets st) then [x] else [])"
  by (cases "stop_processing_target_on_failure st")
    (simp_all add: mux_handle_def item_received_on item_received_off items_of_offers_distinct Let_def)

lemma offers_report_failures:
  "t \<in> set ts \<Longrightarrow> answer t = Inl err \<Longrightarrow> TargetFailed (id_of t) err \<in> set (offers id_of answer x ts)"
  by (induction ts) (auto simp: offers_def offer_one_def)

lemma mux_received_drops_failed:
  assumes "t \<in> set (mux_targets st)"
    and "t \<notin> set (mux_targets (state_of (mux_handle id_of (Received x answer) st)))"
  shows "\<exists>e. TargetFailed (id_of t) e \<in> set (effects (mux_handle id_of (Received x answer) st))"
proof -
  have flag: "stop_processing_target_on_failure st"
    and "id_of t \<in> failing id_of answer (mux_targets st)"
    using assms by (auto simp: mux_received_targets keep_working_def split: if_splits)
  then obtain t' where t': "t' \<in> set (mux_targets st)" "is_err (answer t')" "id_of t' = id_of t"
    by (auto simp: failing_def)
  then obtain err where "answer t' = Inl err" by (cases "answer t'") simp_all
  with t' have "TargetFailed (id_of t) err \<in> set (offers id_of answer x (mux_targets st))"
    using offers_report_failures [of t' "mux_targets st" answer err id_of x] by simp
  then show ?thesis using flag by (auto simp: mux_handle_def item_received_on Let_def)
qed

lemma offers_no_stop_request: "StopActor reason \<notin> set (offers id_of answer x ts)"
  by (induction ts) (auto simp: offers_def offer_one_def split: sum.splits)

lemma mux_received_stops:
  "StopActor reason \<in> set (effects (mux_handle id_of (Received x answer) st)) \<Longrightarrow>
   reason = None \<and> mux_targets (state_of (mux_handle id_of (Received x answer) st)) = []"
  by (cases "stop_processing_target_on_failure st")
    (auto simp: mux_handle_def item_received_on item_received_off offers_no_stop_request Let_def split: if_splits)

lemma mux_other_inputs [simp]:
  "mux_handle id_of NoMoreItems st = Outcome st [StopActor (Some ''End of stream''), EndOfStream] Ok_unit"
  "state_of (mux_handle id_of (Supervised evt) st) = st"
  "effects (mux_handle id_of (Supervised evt) st) = []"
  by (simp_all add: mux_handle_def end_of_stream_def mux_supervisor_evt_def split: supervision_event.splits)

section \<open>Invariants\<close>

fun items_in :: "'i mux_mail list \<Rightarrow> 'i list" where
  "items_in [] = []"
| "items_in (Post (Some x) # ms) = x # items_in ms"
| "items_in (_ # ms) = items_in ms"

lemma items_in_append [simp]: "items_in (xs @ ys) = items_in xs @ items_in ys"
  by (induction xs rule: items_in.induct) simp_all

text \<open>Items come before the end of the stream, and both before the mark of a drain.\<close>

fun in_order :: "'i mux_mail list \<Rightarrow> bool" where
  "in_order [] = True"
| "in_order (Post (Some x) # ms) = in_order ms"
| "in_order (Post None # ms) = (ms \<in> {[], [DrainMarker]})"
| "in_order (DrainMarker # ms) = (ms = [])"

lemma in_order_snoc:
  "in_order ms \<Longrightarrow> Post None \<notin> set ms \<Longrightarrow> DrainMarker \<notin> set ms \<Longrightarrow> in_order (ms @ [Post m])"
  "in_order ms \<Longrightarrow> DrainMarker \<notin> set ms \<Longrightarrow> in_order (ms @ [DrainMarker])"
  by (induction ms rule: in_order.induct; cases m; auto)+

text \<open>
  Where the stream is: what the muxer took, what is in its mailbox, and, while the pump is up,
  what the pump has not read.
\<close>

definition streaming :: "'i source \<Rightarrow> ('i, 't) mux_system \<Rightarrow> bool" where
  "streaming src s \<longleftrightarrow> in_order (muxer_box s)
    \<and> (muxer_up s \<and> \<not> draining s \<longrightarrow> DrainMarker \<notin> set (muxer_box s))
    \<and> (pump_up s \<longrightarrow> src = onto (taken s @ items_in (muxer_box s)) (stream (pump_state s))
          \<and> Post None \<notin> set (muxer_box s))
    \<and> (\<exists>rest. src = onto (taken s @ items_in (muxer_box s)) rest)
    \<and> (Post None \<in> set (muxer_box s) \<longrightarrow> src = source_of_list (taken s @ items_in (muxer_box s)))
    \<and> (StopActor (Some ''End of stream'') \<in> set (calls s)
          \<longrightarrow> src = source_of_list (taken s) \<and> items_in (muxer_box s) = [] \<and> \<not> muxer_up s)"

definition serving :: "('t \<Rightarrow> string) \<Rightarrow> 't set \<Rightarrow> ('i, 't) mux_system \<Rightarrow> bool" where
  "serving id_of ts s \<longleftrightarrow> distinct (mux_targets (muxer s))
    \<and> (\<forall>t \<in> ts. prefix (items_of t (calls s)) (taken s)
        \<and> (t \<in> set (mux_targets (muxer s)) \<longrightarrow> items_of t (calls s) = taken s)
        \<and> (t \<notin> set (mux_targets (muxer s)) \<longrightarrow> (\<exists>e. TargetFailed (id_of t) e \<in> set (calls s))))"

definition ending :: "('i, 't) mux_system \<Rightarrow> bool" where
  "ending s \<longleftrightarrow> end_reports (calls s) = stop_requests (calls s) \<and> stop_requests (calls s) \<le> 1
    \<and> (muxer_up s \<longrightarrow> stop_requests (calls s) = 0)
    \<and> (\<forall>reason. StopActor reason \<in> set (calls s)
          \<longrightarrow> reason = Some ''End of stream'' \<or> reason = None \<and> mux_targets (muxer s) = [])"

lemma streaming_turn:
  assumes "mux_turns id_of beh s s'" and "streaming src s"
  shows "streaming src s'"
  using assms(1)
proof cases
  case (pump_works n)
  show ?thesis
    by (rule pump_turn_cases [of "s\<lparr>pump_box := n\<rparr>"])
      (use pump_works assms(2) in \<open>auto simp: streaming_def in_order_snoc onto_Eof\<close>)
next
  case (takes_item x ms answer)
  then show ?thesis
    using assms(2) mux_received_stops [of "Some ''End of stream''" id_of x answer "muxer s"]
    by (auto simp: streaming_def muxer_turn_def Let_def)
next
  case (takes_end ms)
  then show ?thesis
    using assms(2) by (auto simp: streaming_def muxer_turn_def Let_def halts_def)
qed (use assms(2) in \<open>auto simp: streaming_def muxer_turn_def Let_def\<close>)

lemma serving_turn:
  assumes "mux_turns id_of beh s s'" and "serving id_of ts s"
  shows "serving id_of ts s'"
  using assms(1)
proof cases
  case (pump_works n)
  show ?thesis
    by (rule pump_turn_cases [of "s\<lparr>pump_box := n\<rparr>"])
      (use pump_works assms(2) in \<open>simp_all add: serving_def\<close>)
next
  case (takes_item x ms answer)
  let ?out = "mux_handle id_of (Received x answer) (muxer s)"
  have d: "distinct (mux_targets (muxer s))" using assms(2) by (simp add: serving_def)
  have "prefix (items_of t (calls s) @ items_of t (effects ?out)) (taken s @ [x])
      \<and> (t \<in> set (mux_targets (state_of ?out))
           \<longrightarrow> items_of t (calls s) @ items_of t (effects ?out) = taken s @ [x])
      \<and> (t \<notin> set (mux_targets (state_of ?out))
           \<longrightarrow> (\<exists>e. TargetFailed (id_of t) e \<in> set (calls s) \<union> set (effects ?out)))" if "t \<in> ts" for t
  proof (cases "t \<in> set (mux_targets (muxer s))")
    case True
    then show ?thesis
      using assms(2) that d mux_received_drops_failed [of t "muxer s" id_of x answer]
      by (auto simp: serving_def mux_received_items)
  next
    case False
    then show ?thesis
      using assms(2) that d mux_received_subset [of id_of x answer "muxer s"]
      by (auto simp: serving_def mux_received_items prefix_def)
  qed
  then show ?thesis
    using takes_item d by (auto simp: serving_def muxer_turn_def mux_received_keeps_distinct Let_def)
qed (use assms(2) in \<open>auto simp: serving_def muxer_turn_def Let_def\<close>)

lemma ending_muxer_turn:
  assumes "ending s" and "muxer_up s"
    and "\<And>reason. StopActor reason \<in> set (effects (mux_handle id_of i (muxer s)))
      \<Longrightarrow> reason = Some ''End of stream'' \<or> reason = None \<and> mux_targets (state_of (mux_handle id_of i (muxer s))) = []"
  shows "ending (muxer_turn id_of i s)"
proof -
  have "StopActor reason \<notin> set (calls s)" for reason
    using assms(1,2) by (auto simp: ending_def filter_empty_conv)
  then show ?thesis
    using assms mux_handle_ends [of id_of i "muxer s"] stop_requests_none [of "effects (mux_handle id_of i (muxer s))"]
    by (auto simp: ending_def muxer_turn_def halts_def Let_def)
qed

lemma ending_turn:
  assumes "mux_turns id_of beh s s'" and "ending s"
  shows "ending s'"
  using assms(1)
proof cases
  case (pump_works n)
  show ?thesis
    by (rule pump_turn_cases [of "s\<lparr>pump_box := n\<rparr>"])
      (use pump_works assms(2) in \<open>simp_all add: ending_def\<close>)
next
  case (takes_item x ms answer)
  then show ?thesis
    using assms(2) mux_received_stops [of _ id_of x answer "muxer s"]
    by (auto intro!: ending_muxer_turn) (auto simp: ending_def)
next
  case (takes_end ms)
  then show ?thesis using assms(2) by (auto intro!: ending_muxer_turn) (auto simp: ending_def)
next
  case (takes_event evt evts)
  then show ?thesis using assms(2) by (auto intro!: ending_muxer_turn) (auto simp: ending_def)
qed (use assms(2) in \<open>auto simp: ending_def\<close>)

definition mux_inv :: "('t \<Rightarrow> string) \<Rightarrow> 't set \<Rightarrow> 'i source \<Rightarrow> ('i, 't) mux_system \<Rightarrow> bool" where
  "mux_inv id_of ts src s \<longleftrightarrow> streaming src s \<and> serving id_of ts s \<and> ending s"

lemma mux_inv_init:
  "distinct (mux_targets st) \<Longrightarrow> mux_inv id_of (set (mux_targets st)) src (mux_init st src)"
  by (auto simp: mux_inv_def mux_init_def streaming_def serving_def ending_def intro: exI [of _ src])

lemma mux_inv_turn: "mux_turns id_of beh s s' \<Longrightarrow> mux_inv id_of ts src s \<Longrightarrow> mux_inv id_of ts src s'"
  using streaming_turn [of id_of beh s s' src] serving_turn [of id_of beh s s' ts] ending_turn [of id_of beh s s']
  by (simp add: mux_inv_def)

interpretation mux: step_invariant "mux_step id_of beh" "mux_inv id_of ts src" for id_of beh ts src
proof
  fix s s'
  assume "mux_step id_of beh s s'" and inv: "mux_inv id_of ts src s"
  then show "mux_inv id_of ts src s'"
  proof cases
    case turn
    then show ?thesis using inv by (rule mux_inv_turn)
  next
    case drain
    then show ?thesis
      using inv in_order_snoc(2) [of "muxer_box s"]
      by (auto simp: drain_def mux_inv_def streaming_def serving_def ending_def)
  next
    case stop
    then show ?thesis using inv by (auto simp: mux_inv_def streaming_def serving_def ending_def)
  qed
qed

text \<open>What the targets are owed does not depend on where the stream came from.\<close>

interpretation serve_on: step_invariant "mux_step id_of beh" "serving id_of ts" for id_of beh ts
proof
  fix s s'
  assume "mux_step id_of beh s s'" and inv: "serving id_of ts s"
  then show "serving id_of ts s'"
  proof cases
    case turn
    then show ?thesis using inv by (rule serving_turn)
  qed (use inv in \<open>auto simp: drain_def serving_def\<close>)
qed

section \<open>Left alone, the system ends\<close>

text \<open>
  With nothing from outside: the pump has one message to itself while it is up, it ends by
  forwarding the end of the stream, and the muxer never fails.
\<close>

definition undisturbed :: "('i, 't) mux_system \<Rightarrow> bool" where
  "undisturbed s \<longleftrightarrow> \<not> draining s \<and> (pump_up s \<longrightarrow> pump_box s = 1)
    \<and> (muxer_up s \<longrightarrow> (\<forall>cell what. ActorFailed cell what \<notin> set (muxer_evts s))
         \<and> DrainMarker \<notin> set (muxer_box s) \<and> (\<not> pump_up s \<longrightarrow> Post None \<in> set (muxer_box s)))
    \<and> (\<not> muxer_up s \<longrightarrow> 0 < stop_requests (calls s))"

lemma mux_received_ok: "returned (mux_handle id_of (Received x answer) st) = Ok_unit"
  by (cases "stop_processing_target_on_failure st")
    (simp_all add: mux_handle_def item_received_on item_received_off Let_def)

lemma undisturbed_turn:
  assumes "mux_turns id_of beh s s'" and "undisturbed s"
  shows "undisturbed s'"
  using assms(1)
proof cases
  case (pump_works n)
  show ?thesis
    by (rule pump_turn_cases [of "s\<lparr>pump_box := n\<rparr>"])
      (use pump_works assms(2) in \<open>auto simp: undisturbed_def\<close>)
next
  case (takes_item x ms answer)
  let ?es = "effects (mux_handle id_of (Received x answer) (muxer s))"
  have "filter stops_mux ?es = [] \<longleftrightarrow> \<not> list_ex stops_mux ?es"
    using stop_requests_none [of ?es] by simp
  then show ?thesis
    using takes_item assms(2)
    by (auto simp: undisturbed_def muxer_turn_def halts_def mux_received_ok Let_def)
next
  case (takes_event evt evts)
  then have "\<not> halts stops_mux (mux_handle id_of (Supervised evt) (muxer s))"
    using assms(2)
    by (cases evt) (auto simp: undisturbed_def halts_def mux_handle_def mux_supervisor_evt_def)
  then show ?thesis using takes_event assms(2) by (auto simp: undisturbed_def muxer_turn_def Let_def)
qed (use assms(2) in \<open>auto simp: undisturbed_def muxer_turn_def halts_def Let_def\<close>)

interpretation left_alone: step_invariant "mux_turns id_of beh" "\<lambda>s. undisturbed s \<and> mux_inv id_of ts src s"
  for id_of beh ts src
  by unfold_locales (auto intro: undisturbed_turn mux_inv_turn)

text \<open>Where no turn is left, both actors have ended.\<close>

lemma no_turn_left:
  assumes "undisturbed s" and "beh \<noteq> {}" and "\<nexists>s'. mux_turns id_of beh s s'"
  shows "\<not> muxer_up s \<and> \<not> pump_up s"
proof -
  have pump: "\<not> pump_up s"
    using assms mux_turns.pump_works [of s 0 id_of beh] by (auto simp: undisturbed_def)
  have "\<not> muxer_up s"
  proof
    assume up: "muxer_up s"
    then have "Post None \<in> set (muxer_box s)" "DrainMarker \<notin> set (muxer_box s)"
      using assms(1) pump by (auto simp: undisturbed_def)
    then obtain m ms where box: "muxer_box s = Post m # ms"
      by (cases "muxer_box s") (use mux_mail.exhaust in auto)
    obtain answer where "answer \<in> beh" using assms(2) by blast
    then show False
      using assms(3) up box by (cases m) (blast intro: mux_turns.intros)+
  qed
  with pump show ?thesis by simp
qed

text \<open>Every turn uses up a message, an event, an item of the stream or the pump.\<close>

definition work_left :: "('i, 't) mux_system \<Rightarrow> nat" where
  "work_left s = 2 * source_length (stream (pump_state s)) + (if pump_up s then 3 else 0)
    + length (muxer_box s) + length (muxer_evts s)"

lemma turn_uses_work:
  assumes "mux_turns id_of beh s s'" and "finite_source (stream (pump_state s))"
  shows "finite_source (stream (pump_state s')) \<and> work_left s' < work_left s"
  using assms(1)
proof cases
  case (pump_works n)
  have rest: "finite_source (snd (next_item (stream (pump_state s))))"
    "source_length (snd (next_item (stream (pump_state s)))) \<le> source_length (stream (pump_state s))"
    using assms(2) finite_source_Item by (cases "stream (pump_state s)"; force)+
  show ?thesis
    by (rule pump_turn_cases [of "s\<lparr>pump_box := n\<rparr>"])
      (use pump_works assms(2) rest in \<open>auto simp: work_left_def dest!: finite_source_Item\<close>)
qed (use assms(2) in \<open>auto simp: work_left_def muxer_turn_def Let_def\<close>)

lemma turns_use_work:
  "(mux_turns id_of beh ^^ n) s s' \<Longrightarrow> finite_source (stream (pump_state s)) \<Longrightarrow> n + work_left s' \<le> work_left s
     \<and> finite_source (stream (pump_state s'))"
proof (induction n arbitrary: s')
  case 0
  then show ?case by simp
next
  case (Suc n)
  then obtain t where t: "(mux_turns id_of beh ^^ n) s t" "mux_turns id_of beh t s'" by auto
  then show ?case using Suc.IH [OF t(1) Suc.prems(2)] turn_uses_work [OF t(2)] by auto
qed

section \<open>A drained muxer\<close>

text \<open>Once drained, the muxer has no other items than those cast to it before.\<close>

definition cut_off :: "'i list \<Rightarrow> ('i, 't) mux_system \<Rightarrow> bool" where
  "cut_off items s \<longleftrightarrow> draining s \<and> prefix (taken s @ items_in (muxer_box s)) items
    \<and> Post None \<notin> set (muxer_box s) \<and> StopActor (Some ''End of stream'') \<notin> set (calls s)"

lemma cut_off_turn:
  assumes "mux_turns id_of beh s s'" and "cut_off items s"
  shows "cut_off items s'"
  using assms(1)
proof cases
  case (pump_works n)
  show ?thesis
    by (rule pump_turn_cases [of "s\<lparr>pump_box := n\<rparr>"])
      (use pump_works assms(2) in \<open>auto simp: cut_off_def\<close>)
next
  case (takes_item x ms answer)
  then show ?thesis
    using assms(2) mux_received_stops [of "Some ''End of stream''" id_of x answer "muxer s"]
    by (auto simp: cut_off_def muxer_turn_def Let_def)
qed (use assms(2) in \<open>auto simp: cut_off_def muxer_turn_def Let_def\<close>)

interpretation cut: step_invariant "mux_step id_of beh" "cut_off items" for id_of beh items
proof
  fix s s'
  assume "mux_step id_of beh s s'" and inv: "cut_off items s"
  then show "cut_off items s'"
  proof cases
    case turn
    then show ?thesis using inv by (rule cut_off_turn)
  qed (use inv in \<open>auto simp: cut_off_def\<close>)
qed

section \<open>A run: one item, one target that fails on it\<close>

definition demo_mux :: "(string, nat actor_cell) mux_state" where
  "demo_mux = \<lparr>mux_targets = [''a'', ''b''], stop_processing_target_on_failure = True,
     mux_pump = \<lparr>get_id = 1, get_name = Some ''pump''\<rparr>\<rparr>"

definition a_fails :: "string \<Rightarrow> unit result" where
  "a_fails t = (if t = ''a'' then Inl (Error ''full'') else Ok_unit)"

definition demo_calls :: "(nat, string) mux_effect list" where
  "demo_calls = [MessageReceived ''a'' 5, TargetFailed ''a'' (Error ''full''), MessageReceived ''b'' 5,
     StopActor (Some ''End of stream''), EndOfStream]"

lemma demo_mux_run:
  "\<exists>s. (mux_turns (\<lambda>t. t) {a_fails} ^^ 4) (mux_init demo_mux (source_of_list [5])) s
    \<and> calls s = demo_calls \<and> taken s = [5] \<and> mux_targets (muxer s) = [''b''] \<and> \<not> muxer_up s \<and> \<not> pump_up s"
proof -
  let ?turn = "mux_turns (\<lambda>t. t) {a_fails}"
  let ?s0 = "mux_init demo_mux (source_of_list [5 :: nat])"
  let ?s1 = "pump_turn (?s0\<lparr>pump_box := 0\<rparr>)"
  let ?s2 = "muxer_turn (\<lambda>t. t) (Received 5 a_fails) (?s1\<lparr>muxer_box := [], taken := [5]\<rparr>)"
  let ?s3 = "pump_turn (?s2\<lparr>pump_box := 0\<rparr>)"
  let ?s4 = "muxer_turn (\<lambda>t. t) NoMoreItems (?s3\<lparr>muxer_box := []\<rparr>)"
  have s1: "?s1 = ?s0\<lparr>pump_state := \<lparr>stream = Eof, receiver = ()\<rparr>, muxer_box := [Post (Some 5)]\<rparr>"
    by (subst pump_turn_item [of _ 5 Eof]) (simp_all add: mux_init_def muxer_cast_def)
  have s2: "?s2 = ?s0\<lparr>pump_state := \<lparr>stream = Eof, receiver = ()\<rparr>, taken := [5],
      muxer := demo_mux\<lparr>mux_targets := [''b'']\<rparr>, calls := take 3 demo_calls\<rparr>"
    unfolding s1 by (simp add: muxer_turn_def mux_init_def demo_mux_def demo_calls_def mux_handle_def item_received_def
      a_fails_def halts_def Let_def)
  have s3: "?s3 = ?s0\<lparr>pump_state := \<lparr>stream = Eof, receiver = ()\<rparr>, taken := [5], pump_box := 0, pump_up := False,
      muxer := demo_mux\<lparr>mux_targets := [''b'']\<rparr>, calls := take 3 demo_calls, muxer_box := [Post None],
      muxer_evts := muxer_evts ?s0 @ [ActorTerminated (mux_pump demo_mux) None]\<rparr>"
    unfolding s2 by (subst pump_turn_eof) (simp_all add: mux_init_def muxer_cast_def demo_mux_def)
  have "?turn ?s0 ?s1" by (rule mux_turns.pump_works) (simp_all add: mux_init_def)
  moreover have "?turn ?s1 ?s2"
    using mux_turns.takes_item [of ?s1 5 "[]" a_fails "{a_fails}" "\<lambda>t. t"]
    by (simp only: s1) (simp add: mux_init_def)
  moreover have "?turn ?s2 ?s3" by (rule mux_turns.pump_works) (simp_all only: s2, simp_all add: mux_init_def)
  moreover have "?turn ?s3 ?s4"
    by (rule mux_turns.takes_end) (simp_all only: s3, simp_all add: mux_init_def)
  ultimately have "(?turn ^^ 4) ?s0 ?s4"
    by (simp add: numeral_eq_Suc relcompp_apply) blast
  moreover have "calls ?s4 = demo_calls" "taken ?s4 = [5]" "mux_targets (muxer ?s4) = [''b'']"
    "\<not> muxer_up ?s4" "\<not> pump_up ?s4"
    unfolding s3 by (simp_all add: muxer_turn_def mux_init_def demo_mux_def demo_calls_def halts_def Let_def)
  ultimately show ?thesis by blast
qed

section \<open>A run that serves everyone\<close>

text \<open>The pump casts its whole stream before the muxer takes anything; then no target fails.\<close>

lemma pump_runs_ahead:
  assumes "muxer_up s" and "\<not> draining s" and "pump_up s" and "pump_box s = 1"
    and "stream (pump_state s) = source_of_list xs"
  shows "(mux_turns id_of beh)\<^sup>*\<^sup>* s (s\<lparr>pump_state := \<lparr>stream = Eof, receiver = ()\<rparr>, pump_up := False, pump_box := 0,
      muxer_box := muxer_box s @ map (\<lambda>x. Post (Some x)) xs @ [Post None],
      muxer_evts := muxer_evts s @ [ActorTerminated (mux_pump (muxer s)) None]\<rparr>)"
  using assms
proof (induction xs arbitrary: s)
  case Nil
  then have "mux_turns id_of beh s (pump_turn (s\<lparr>pump_box := 0\<rparr>))"
    by (intro mux_turns.pump_works) simp_all
  also have "pump_turn (s\<lparr>pump_box := 0\<rparr>) = s\<lparr>pump_state := \<lparr>stream = Eof, receiver = ()\<rparr>, pump_up := False,
      pump_box := 0, muxer_box := muxer_box s @ [Post None],
      muxer_evts := muxer_evts s @ [ActorTerminated (mux_pump (muxer s)) None]\<rparr>"
    using Nil by (subst pump_turn_eof) (simp_all add: muxer_cast_def)
  finally show ?case by simp
next
  case (Cons x xs)
  let ?t = "s\<lparr>pump_state := \<lparr>stream = source_of_list xs, receiver = ()\<rparr>, pump_up := True, pump_box := 1,
      muxer_box := muxer_box s @ [Post (Some x)]\<rparr>"
  have "mux_turns id_of beh s (pump_turn (s\<lparr>pump_box := 0\<rparr>))"
    using Cons.prems by (intro mux_turns.pump_works) simp_all
  also have "pump_turn (s\<lparr>pump_box := 0\<rparr>) = ?t"
    using Cons.prems by (subst pump_turn_item) (simp_all add: muxer_cast_def)
  finally have "mux_turns id_of beh s ?t" .
  then show ?case using Cons.IH [of ?t] Cons.prems by (auto intro: converse_rtranclp_into_rtranclp)
qed

lemma muxer_serves_the_box:
  assumes "muxer_up s" and "muxer_box s = map (\<lambda>x. Post (Some x)) xs @ Post None # ms"
    and "mux_targets (muxer s) \<noteq> []" and "answer \<in> beh" and "\<And>t. answer t = Ok_unit"
  shows "(mux_turns id_of beh)\<^sup>*\<^sup>* s (s\<lparr>muxer_box := ms, taken := taken s @ xs, muxer_up := False,
      calls := calls s @ concat (map (\<lambda>x. map (\<lambda>t. MessageReceived t x) (mux_targets (muxer s))) xs)
        @ [StopActor (Some ''End of stream''), EndOfStream]\<rparr>)"
  using assms(1-3)
proof (induction xs arbitrary: s)
  case Nil
  then have "mux_turns id_of beh s (muxer_turn id_of NoMoreItems (s\<lparr>muxer_box := ms\<rparr>))"
    by (intro mux_turns.takes_end) simp_all
  then show ?case by (simp add: muxer_turn_def halts_def Let_def)
next
  case (Cons x xs)
  have offers: "offers id_of answer x ts = map (\<lambda>t. MessageReceived t x) ts" for ts :: "'b list"
    using assms(5) by (induction ts) (simp_all add: offers_def offer_one_def)
  have "keep_working id_of answer (mux_targets (muxer s)) = mux_targets (muxer s)"
    using assms(5) by (simp add: keep_working_def failing_def)
  then have out: "mux_handle id_of (Received x answer) (muxer s)
      = Outcome (muxer s) (map (\<lambda>t. MessageReceived t x) (mux_targets (muxer s))) Ok_unit"
    using Cons.prems(3) offers
    by (cases "stop_processing_target_on_failure (muxer s)")
      (simp_all add: mux_handle_def item_received_on item_received_off)
  have quiet: "\<not> list_ex stops_mux (map (\<lambda>t. MessageReceived t x) ts)" for ts :: "'b list" by (induction ts) simp_all
  let ?t = "muxer_turn id_of (Received x answer)
      (s\<lparr>muxer_box := map (\<lambda>x. Post (Some x)) xs @ Post None # ms, taken := taken s @ [x]\<rparr>)"
  have t: "?t = s\<lparr>muxer_box := map (\<lambda>x. Post (Some x)) xs @ Post None # ms, taken := taken s @ [x],
      calls := calls s @ map (\<lambda>t. MessageReceived t x) (mux_targets (muxer s))\<rparr>"
    using Cons.prems(1) by (simp add: muxer_turn_def out quiet halts_def Let_def)
  have "mux_turns id_of beh s ?t" using Cons.prems assms(4) by (intro mux_turns.takes_item) simp_all
  then show ?case
    using Cons.IH [of ?t] Cons.prems unfolding t by (auto intro: converse_rtranclp_into_rtranclp)
qed

section \<open>Properties\<close>

text \<open>
  C8. However the pump and the muxer take turns, whatever the targets answer, and whenever the
  muxer is stopped or drained from outside: the muxer has taken a first part of the stream, in
  order; every target was handed a prefix of that part, all of it while it is still served, and
  a target is dropped only after the failure of one of its id was reported; the muxer asks to
  stop at most once and reports the end as often; and it gives the end of the stream as its
  reason only when it took the whole stream.
\<close>

theorem targets_get_a_prefix_of_the_stream:
  assumes "distinct (mux_targets st)" and "reaches (mux_step id_of beh) (mux_init st src) s"
  shows "(\<exists>rest. src = onto (taken s) rest)
    \<and> (\<forall>t \<in> set (mux_targets st). prefix (items_of t (calls s)) (taken s)
        \<and> (t \<in> set (mux_targets (muxer s)) \<longrightarrow> items_of t (calls s) = taken s)
        \<and> (t \<notin> set (mux_targets (muxer s)) \<longrightarrow> (\<exists>e. TargetFailed (id_of t) e \<in> set (calls s))))
    \<and> length (filter (\<lambda>e. e = EndOfStream) (calls s)) = length (filter stops_mux (calls s))
    \<and> length (filter stops_mux (calls s)) \<le> 1
    \<and> (StopActor (Some ''End of stream'') \<in> set (calls s) \<longrightarrow> src = source_of_list (taken s))"
proof -
  have inv: "mux_inv id_of (set (mux_targets st)) src s"
    using mux.inv_reaches [OF assms(2)] mux_inv_init [OF assms(1)] by blast
  then obtain rest where "src = onto (taken s) (onto (items_in (muxer_box s)) rest)"
    by (auto simp: mux_inv_def streaming_def)
  with inv show ?thesis unfolding mux_inv_def streaming_def serving_def ending_def by blast
qed

theorem targets_get_a_prefix_of_the_stream_witness:
  "items_of ''a'' demo_calls = [5] \<and> prefix (items_of ''b'' demo_calls) [5]"
proof -
  obtain s where run: "(mux_turns (\<lambda>t. t) {a_fails} ^^ 4) (mux_init demo_mux (source_of_list [5])) s"
    and s: "calls s = demo_calls" "taken s = [5]"
    using demo_mux_run by blast
  have "reaches (mux_step (\<lambda>t. t) {a_fails}) (mux_init demo_mux (source_of_list [5])) s"
    by (rule reaches_mono [OF reaches_relpowp [OF run] mux_step.turn])
  from targets_get_a_prefix_of_the_stream [OF _ this] s show ?thesis
    by (simp add: demo_mux_def) (simp add: demo_calls_def)
qed

text \<open>
  C15. Left alone, the pump and the muxer end: on a stream of \<open>n\<close> items no run has more than
  \<open>2 * n + 4\<close> turns, and where no turn is left both actors have ended, the end was reported
  exactly once, and every target was handed the whole stream or its failure was reported.
\<close>

theorem mux_system_ends:
  assumes "distinct (mux_targets st)" and "beh \<noteq> {}"
    and "(mux_turns id_of beh ^^ n) (mux_init st (source_of_list xs)) s"
  shows "n \<le> 2 * length xs + 4 \<and> ((\<nexists>s'. mux_turns id_of beh s s') \<longrightarrow> \<not> muxer_up s \<and> \<not> pump_up s
      \<and> length (filter (\<lambda>e. e = EndOfStream) (calls s)) = 1
      \<and> (\<forall>t \<in> set (mux_targets st). items_of t (calls s) = xs
          \<or> (\<exists>e. TargetFailed (id_of t) e \<in> set (calls s))))"
proof -
  let ?s0 = "mux_init st (source_of_list xs)"
  have "finite_source (stream (pump_state ?s0))" "work_left ?s0 = 2 * length xs + 4"
    by (auto simp: mux_init_def work_left_def finite_source_def)
  then have bound: "n \<le> 2 * length xs + 4" using turns_use_work [OF assms(3)] by simp
  have "undisturbed ?s0" by (simp add: undisturbed_def mux_init_def)
  then have inv: "undisturbed s" "mux_inv id_of (set (mux_targets st)) (source_of_list xs) s"
    using left_alone.inv_reaches [OF reaches_relpowp [OF assms(3)]] mux_inv_init [OF assms(1)] by blast+
  have "\<not> muxer_up s \<and> \<not> pump_up s \<and> end_reports (calls s) = 1
      \<and> (\<forall>t \<in> set (mux_targets st). items_of t (calls s) = xs
          \<or> (\<exists>e. TargetFailed (id_of t) e \<in> set (calls s)))" if stuck: "\<nexists>s'. mux_turns id_of beh s s'"
  proof -
    have down: "\<not> muxer_up s" "\<not> pump_up s" using no_turn_left [OF inv(1) assms(2) stuck] by simp_all
    then have "0 < stop_requests (calls s)" using inv(1) unfolding undisturbed_def by blast
    moreover have "end_reports (calls s) = stop_requests (calls s)" "stop_requests (calls s) \<le> 1"
      using inv(2) unfolding mux_inv_def ending_def by blast+
    ultimately have stops: "stop_requests (calls s) = 1" "end_reports (calls s) = 1" by linarith+
    then obtain e where e: "e \<in> set (calls s)" "stops_mux e" by (metis filter_empty_conv list.size(3) zero_neq_one)
    from e(2) obtain reason where "e = StopActor reason" by (rule stops_mux.elims(2))
    with e(1) have "StopActor reason \<in> set (calls s)" by simp
    then consider "taken s = xs" | "mux_targets (muxer s) = []"
      using inv(2) source_of_list_inj by (auto simp: mux_inv_def ending_def streaming_def dest: injD)
    then have "\<forall>t \<in> set (mux_targets st). items_of t (calls s) = xs \<or> (\<exists>e. TargetFailed (id_of t) e \<in> set (calls s))"
      using inv(2) by cases (force simp: mux_inv_def serving_def)+
    with down stops show ?thesis by blast
  qed
  with bound show ?thesis by blast
qed

theorem mux_system_ends_witness:
  "\<exists>s. (mux_turns (\<lambda>t. t) {a_fails} ^^ 4) (mux_init demo_mux (source_of_list [5 :: nat])) s
    \<and> length (filter (\<lambda>e. e = EndOfStream) (calls s)) = 1
    \<and> (\<forall>t \<in> {''a'', ''b''}. items_of t (calls s) = [5] \<or> (\<exists>e. TargetFailed t e \<in> set (calls s)))"
proof -
  obtain s where run: "(mux_turns (\<lambda>t. t) {a_fails} ^^ 4) (mux_init demo_mux (source_of_list [5 :: nat])) s"
    and down: "\<not> muxer_up s" "\<not> pump_up s" using demo_mux_run by blast
  have stuck: "\<nexists>s'. mux_turns (\<lambda>t. t) {a_fails} s s'" using down by (auto elim: mux_turns.cases)
  from mux_system_ends [OF _ _ run] stuck run show ?thesis by (intro exI [of _ s]) (simp add: demo_mux_def)
qed

text \<open>
  C21. Draining the muxer cuts its stream off: unless the pump had cast the end of the stream
  before, no target is ever handed more than the items cast before the drain, and the end of
  the stream is never the reason the muxer stops.
\<close>

theorem drain_cuts_the_stream:
  assumes "distinct (mux_targets st)" and "reaches (mux_step id_of beh) (mux_init st src) s"
    and "muxer_up s" and "Post None \<notin> set (muxer_box s)"
    and "reaches (mux_step id_of beh) (drain s) s'" and "t \<in> set (mux_targets st)"
  shows "prefix (items_of t (calls s')) (taken s @ items_in (muxer_box s))
    \<and> StopActor (Some ''End of stream'') \<notin> set (calls s')"
proof -
  let ?inv = "mux_inv id_of (set (mux_targets st)) src"
  have here: "?inv s" using mux.inv_reaches [OF assms(2)] mux_inv_init [OF assms(1)] by blast
  then have "StopActor (Some ''End of stream'') \<notin> set (calls s)"
    using assms(3) by (auto simp: mux_inv_def streaming_def)
  then have "cut_off (taken s @ items_in (muxer_box s)) (drain s)"
    using assms(4) by (simp add: cut_off_def drain_def)
  then have cut: "cut_off (taken s @ items_in (muxer_box s)) s'"
    using cut.inv_reaches [OF assms(5)] by blast
  have "serving id_of (set (mux_targets st)) (drain s)"
    using here by (simp add: mux_inv_def serving_def drain_def)
  then have "serving id_of (set (mux_targets st)) s'" using serve_on.inv_reaches [OF assms(5)] by blast
  then show ?thesis
    using cut assms(6) by (auto simp: cut_off_def serving_def intro: prefix_order.trans append_prefixD)
qed

theorem drain_cuts_the_stream_witness:
  "\<exists>s'. reaches (mux_step (\<lambda>t. t) {a_fails}) (drain (mux_init demo_mux (source_of_list [5 :: nat]))) s'
    \<and> \<not> muxer_up s' \<and> items_of ''a'' (calls s') = []"
proof -
  let ?s0 = "mux_init demo_mux (source_of_list [5 :: nat])"
  let ?s' = "(drain ?s0)\<lparr>muxer_box := [], muxer_up := False\<rparr>"
  have "mux_turns (\<lambda>t. t) {a_fails} (drain ?s0) ?s'"
    by (rule mux_turns.drained) (simp_all add: drain_def mux_init_def)
  then have r: "reaches (mux_step (\<lambda>t. t) {a_fails}) (drain ?s0) ?s'" by (intro reaches_one mux_step.turn)
  have "prefix (items_of ''a'' (calls ?s')) []"
    using drain_cuts_the_stream [where st = demo_mux and t = "''a''", OF _ reaches.start _ _ r]
    by (simp add: mux_init_def) (simp add: demo_mux_def)
  then show ?thesis using r by (intro exI [of _ ?s']) simp
qed

end
