(* ===== verification/Tcp_Stream.thy ===== *)
theory Tcp_Stream
  imports Prelude "HOL-Library.Word"
begin

text \<open>
  Network streams and their two halves: \<open>src/ractor_actors/src/net/tcp/mod.rs\<close> and the
  stream types and helpers of \<open>src/ractor_actors/src/net/tcp/session.rs\<close>.

  The sockets and the TLS sessions are \<open>tokio\<close>'s. Their operations are the fields of the
  two records \<open>read_io\<close> and \<open>write_io\<close>, which every definition that uses them takes as an
  argument; what the program relies on is \<open>lossless_reader\<close> and \<open>lossless_writer\<close>, the
  documented behaviour of \<open>AsyncReadExt\<close> and \<open>AsyncWriteExt\<close> on a connection without
  errors. The frame length travels as eight bytes in big-endian order.
\<close>

unbundle bit_operations_syntax

section \<open>Network streams\<close>

datatype ('addr, 'sock) network_stream =
    RawStream (peer_addr: 'addr) (local_addr: 'addr) (socket: 'sock)
  | TlsServer (peer_addr: 'addr) (local_addr: 'addr) (socket: 'sock)
  | TlsClient (peer_addr: 'addr) (local_addr: 'addr) (socket: 'sock)

record 'addr network_stream_info =
  info_peer_addr :: 'addr
  info_local_addr :: 'addr

definition stream_info_of :: "('addr, 'sock) network_stream \<Rightarrow> 'addr network_stream_info" where
  "stream_info_of s = \<lparr>info_peer_addr = peer_addr s, info_local_addr = local_addr s\<rparr>"

definition stream_peer_addr :: "('addr, 'sock) network_stream \<Rightarrow> 'addr" where
  "stream_peer_addr s =
    (case s of
       RawStream peer _ _ \<Rightarrow> peer
     | TlsServer peer _ _ \<Rightarrow> peer
     | TlsClient peer _ _ \<Rightarrow> peer)"

definition stream_local_addr :: "('addr, 'sock) network_stream \<Rightarrow> 'addr" where
  "stream_local_addr s =
    (case s of
       RawStream _ local _ \<Rightarrow> local
     | TlsServer _ local _ \<Rightarrow> local
     | TlsClient _ local _ \<Rightarrow> local)"

lemma stream_addrs:
  "stream_info_of s = \<lparr>info_peer_addr = stream_peer_addr s, info_local_addr = stream_local_addr s\<rparr>"
  by (cases s) (simp_all add: stream_info_of_def stream_peer_addr_def stream_local_addr_def)

datatype 'tls incoming_encryption_mode = RawMode | Tls 'tls

section \<open>Bytes on the wire\<close>

type_synonym byte = "8 word"
type_synonym frame = "byte list"

definition be_byte :: "64 word \<Rightarrow> nat \<Rightarrow> byte" where
  "be_byte n i = ucast (drop_bit (8 * i) n)"

definition be_bytes :: "64 word \<Rightarrow> byte list" where
  "be_bytes n = map (be_byte n) [7, 6, 5, 4, 3, 2, 1, 0]"

definition from_be :: "byte list \<Rightarrow> 64 word" where
  "from_be bs = foldl (\<lambda>acc b. push_bit 8 acc OR ucast b) 0 bs"

lemma shift_in_byte:
  "push_bit 8 (drop_bit (8 * Suc i) n) OR ucast (be_byte n i) = drop_bit (8 * i) n" for n :: "64 word"
  by (rule bit_word_eqI) (auto simp: be_byte_def bit_simps)

lemma top_byte: "ucast (be_byte n 7) = drop_bit 56 n"
  by (rule bit_word_eqI) (auto simp: be_byte_def bit_simps dest: bit_imp_le_length)

lemma from_be_bytes: "from_be (be_bytes n) = n"
  using shift_in_byte [of 0 n] shift_in_byte [of 1 n] shift_in_byte [of 2 n] shift_in_byte [of 3 n]
    shift_in_byte [of 4 n] shift_in_byte [of 5 n] shift_in_byte [of 6 n] top_byte [of n]
  by (simp add: from_be_def be_bytes_def)

lemma length_be_bytes: "length (be_bytes n) = 8"
  by (simp add: be_bytes_def)

text \<open>The contract of a length prefix: a fixed width, and decoding what was encoded.\<close>

definition max_buffer :: nat where
  "max_buffer = 2 ^ 63 - 1"

locale length_codec =
  fixes enc :: "64 word \<Rightarrow> byte list" and dec :: "byte list \<Rightarrow> 64 word" and width :: nat
  assumes dec_enc: "dec (enc n) = n"
    and length_enc: "length (enc n) = width"
begin

lemma prefix_of [simp]:
  "take width (enc n @ bs) = enc n" "drop width (enc n @ bs) = bs" "width \<le> length (enc n @ bs)"
  by (simp_all add: length_enc)

lemma length_roundtrip: "k \<le> max_buffer \<Longrightarrow> unat (dec (enc (word_of_nat k))) = k"
  by (simp add: dec_enc max_buffer_def unat_of_nat)

end

interpretation be: length_codec be_bytes from_be 8
  by unfold_locales (simp_all add: from_be_bytes length_be_bytes)

text \<open>
  A frame on the wire is its length followed by its bytes. The reference parser of a byte
  string cuts the complete frames off it, and tells what stopped it: too few bytes, or a
  length that no buffer can have (more than \<open>isize::MAX\<close> bytes).
\<close>

datatype parse_end = Closed | TooLong

definition encode_frame :: "frame \<Rightarrow> byte list" where
  "encode_frame f = be_bytes (word_of_nat (length f)) @ f"

function cut_frames :: "byte list \<Rightarrow> frame list \<times> parse_end" where
  "cut_frames bs =
    (if length bs < 8 then ([], Closed)
     else let n = unat (from_be (take 8 bs)); rest = drop 8 bs
          in if max_buffer < n then ([], TooLong)
             else if length rest < n then ([], Closed)
             else (case cut_frames (drop n rest) of (fs, e) \<Rightarrow> (take n rest # fs, e)))"
  by auto
termination by (relation "measure length") auto

declare cut_frames.simps [simp del]

lemma cut_short: "length bs < 8 \<Longrightarrow> cut_frames bs = ([], Closed)"
  by (simp add: cut_frames.simps)

lemma cut_encoded:
  assumes "length f \<le> max_buffer"
  shows "cut_frames (encode_frame f @ bs) = (f # fst (cut_frames bs), snd (cut_frames bs))"
proof -
  have "\<not> length (encode_frame f @ bs) < 8"
    using be.prefix_of(3) [of "word_of_nat (length f)" "f @ bs"] by (simp add: encode_frame_def)
  then show ?thesis
    using assms be.length_roundtrip [OF assms]
    by (subst cut_frames.simps)
      (simp add: encode_frame_def length_be_bytes Let_def split: prod.splits)
qed

lemma cut_encoded_all:
  "list_all (\<lambda>f. length f \<le> max_buffer) fs \<Longrightarrow> length bs < 8 \<Longrightarrow>
   cut_frames (concat (map encode_frame fs) @ bs) = (fs, Closed)"
  by (induction fs) (simp_all add: cut_short cut_encoded)

section \<open>The halves of a stream\<close>

datatype io_error = UnexpectedEof | OtherIo string

type_synonym 'a io_result = "io_error + 'a"

datatype 'w write_half = WriteServerTls 'w | WriteClientTls 'w | WriteRegular 'w
datatype 'r read_half = ReadServerTls 'r | ReadClientTls 'r | ReadRegular 'r

record 'w write_io =
  io_writable :: "'w \<Rightarrow> unit io_result \<times> 'w"
  io_write_u64 :: "64 word \<Rightarrow> 'w \<Rightarrow> unit io_result \<times> 'w"
  io_write_all :: "byte list \<Rightarrow> 'w \<Rightarrow> unit io_result \<times> 'w"
  io_flush :: "'w \<Rightarrow> unit io_result \<times> 'w"

record 'r read_io =
  io_readable :: "'r \<Rightarrow> unit io_result \<times> 'r"
  io_read_u64 :: "'r \<Rightarrow> 64 word io_result \<times> 'r"
  io_read :: "nat \<Rightarrow> 'r \<Rightarrow> byte list io_result \<times> 'r"

text \<open>Each method of a half is the method of the stream it wraps.\<close>

definition on_write_half :: "('w \<Rightarrow> 'a \<times> 'w) \<Rightarrow> 'w write_half \<Rightarrow> 'a \<times> 'w write_half" where
  "on_write_half f h =
    (case h of
       WriteServerTls t \<Rightarrow> (case f t of (r, t') \<Rightarrow> (r, WriteServerTls t'))
     | WriteClientTls t \<Rightarrow> (case f t of (r, t') \<Rightarrow> (r, WriteClientTls t'))
     | WriteRegular t \<Rightarrow> (case f t of (r, t') \<Rightarrow> (r, WriteRegular t')))"

definition on_read_half :: "('r \<Rightarrow> 'a \<times> 'r) \<Rightarrow> 'r read_half \<Rightarrow> 'a \<times> 'r read_half" where
  "on_read_half f h =
    (case h of
       ReadServerTls t \<Rightarrow> (case f t of (r, t') \<Rightarrow> (r, ReadServerTls t'))
     | ReadClientTls t \<Rightarrow> (case f t of (r, t') \<Rightarrow> (r, ReadClientTls t'))
     | ReadRegular t \<Rightarrow> (case f t of (r, t') \<Rightarrow> (r, ReadRegular t')))"

definition write_u64 :: "'w write_io \<Rightarrow> 64 word \<Rightarrow> 'w write_half \<Rightarrow> unit io_result \<times> 'w write_half" where
  "write_u64 io n = on_write_half (io_write_u64 io n)"

definition write_all :: "'w write_io \<Rightarrow> byte list \<Rightarrow> 'w write_half \<Rightarrow> unit io_result \<times> 'w write_half" where
  "write_all io data = on_write_half (io_write_all io data)"

definition flush :: "'w write_io \<Rightarrow> 'w write_half \<Rightarrow> unit io_result \<times> 'w write_half" where
  "flush io = on_write_half (io_flush io)"

definition read_u64 :: "'r read_io \<Rightarrow> 'r read_half \<Rightarrow> 64 word io_result \<times> 'r read_half" where
  "read_u64 io = on_read_half (io_read_u64 io)"

definition read_some :: "'r read_io \<Rightarrow> nat \<Rightarrow> 'r read_half \<Rightarrow> byte list io_result \<times> 'r read_half" where
  "read_some io room = on_read_half (io_read io room)"

text \<open>
  Reading exactly \<open>len\<close> bytes. The buffer is allocated first, which panics beyond
  \<open>isize::MAX\<close>; every read fills the buffer from the current position on. The loop ends
  because a read that returns nothing is the end of the stream.
\<close>

datatype read_fault = ReadError io_error | ReadPanic string

function read_loop :: "'r read_io \<Rightarrow> nat \<Rightarrow> 'r read_half \<Rightarrow> byte list \<Rightarrow> nat
    \<Rightarrow> (read_fault + byte list) \<times> 'r read_half" where
  "read_loop io len h buf c_len =
    (if c_len < len
     then (case read_some io (length (drop c_len buf)) h of
             (Inl e, h') \<Rightarrow> (Inl (ReadError e), h')
           | (Inr bs, h') \<Rightarrow>
               (if length bs = 0 then (Inl (ReadError UnexpectedEof), h')
                else read_loop io len h' (take c_len buf @ bs @ drop (c_len + length bs) buf)
                       (c_len + length bs)))
     else (Inr buf, h))"
  by auto
termination
  by (relation "measure (\<lambda>(io, len, h, buf, c_len). len - c_len)")
    (auto intro!: diff_less_mono2 simp flip: length_greater_0_conv)

definition read_n_bytes :: "'r read_io \<Rightarrow> nat \<Rightarrow> 'r read_half
    \<Rightarrow> (read_fault + byte list) \<times> 'r read_half" where
  "read_n_bytes io len h =
    (if max_buffer < len then (Inl (ReadPanic ''capacity overflow''), h)
     else let buf = replicate len 0
          in case h of
               ReadRegular r \<Rightarrow>
                 (case io_readable io r of
                    (Inl e, r') \<Rightarrow> (Inl (ReadError e), ReadRegular r')
                  | (Inr _, r') \<Rightarrow> read_loop io len (ReadRegular r') buf 0)
             | _ \<Rightarrow> read_loop io len h buf 0)"

declare read_loop.simps [simp del]

section \<open>A connection without errors\<close>

fun read_stream :: "'r read_half \<Rightarrow> 'r" where
  "read_stream (ReadServerTls t) = t"
| "read_stream (ReadClientTls t) = t"
| "read_stream (ReadRegular t) = t"

fun write_stream :: "'w write_half \<Rightarrow> 'w" where
  "write_stream (WriteServerTls t) = t"
| "write_stream (WriteClientTls t) = t"
| "write_stream (WriteRegular t) = t"

lemma on_read_half_sel [simp]:
  "fst (on_read_half f h) = fst (f (read_stream h))"
  "read_stream (snd (on_read_half f h)) = snd (f (read_stream h))"
  by (cases h; simp add: on_read_half_def split: prod.splits)+

lemma on_write_half_sel [simp]:
  "fst (on_write_half f h) = fst (f (write_stream h))"
  "write_stream (snd (on_write_half f h)) = snd (f (write_stream h))"
  by (cases h; simp add: on_write_half_def split: prod.splits)+

text \<open>
  \<open>pending r\<close> are the bytes the peer has sent, or will send before it closes, and that are
  not read yet. A read with room for a byte returns some of them, at most as many as it has
  room for, and none only at the end; \<open>read_u64\<close> reads eight bytes in big-endian order.
\<close>

definition lossless_reader :: "'r read_io \<Rightarrow> ('r \<Rightarrow> byte list) \<Rightarrow> bool" where
  "lossless_reader io pending \<longleftrightarrow>
    (\<forall>r. fst (io_readable io r) = Inr () \<and> pending (snd (io_readable io r)) = pending r)
    \<and> (\<forall>r. fst (io_read_u64 io r) = (if length (pending r) < 8 then Inl UnexpectedEof
                                    else Inr (from_be (take 8 (pending r))))
         \<and> (8 \<le> length (pending r) \<longrightarrow> pending (snd (io_read_u64 io r)) = drop 8 (pending r)))
    \<and> (\<forall>room r. 0 < room \<longrightarrow>
         (\<exists>bs. fst (io_read io room r) = Inr bs \<and> length bs \<le> room
            \<and> pending r = bs @ pending (snd (io_read io room r)) \<and> (bs = [] \<longrightarrow> pending r = [])))"

definition lossless_writer :: "'w write_io \<Rightarrow> ('w \<Rightarrow> byte list) \<Rightarrow> bool" where
  "lossless_writer io sent \<longleftrightarrow>
    (\<forall>w. fst (io_writable io w) = Inr () \<and> sent (snd (io_writable io w)) = sent w)
    \<and> (\<forall>n w. fst (io_write_u64 io n w) = Inr ()
         \<and> sent (snd (io_write_u64 io n w)) = sent w @ be_bytes n)
    \<and> (\<forall>data w. fst (io_write_all io data w) = Inr ()
         \<and> sent (snd (io_write_all io data w)) = sent w @ data)
    \<and> (\<forall>w. fst (io_flush io w) = Inr () \<and> sent (snd (io_flush io w)) = sent w)"

lemma read_loop_lossless:
  assumes "lossless_reader io pending" and "length buf = len" and "c_len \<le> len"
  shows "(let p = pending (read_stream h); need = len - c_len; res = read_loop io len h buf c_len
     in if need \<le> length p
        then fst res = Inr (take c_len buf @ take need p) \<and> pending (read_stream (snd res)) = drop need p
        else fst res = Inl (ReadError UnexpectedEof))"
  using assms
proof (induction io len h buf c_len rule: read_loop.induct)
  case (1 io len h buf c_len)
  show ?case
  proof (cases "c_len < len")
    case False
    then show ?thesis using 1 by (subst read_loop.simps) simp
  next
    case True
    let ?rd = "read_some io (length (drop c_len buf)) h"
    have "0 < length (drop c_len buf)" using True 1 by simp
    then obtain bs where bs: "fst (io_read io (length (drop c_len buf)) (read_stream h)) = Inr bs"
        "length bs \<le> length (drop c_len buf)"
        "pending (read_stream h) = bs @ pending (snd (io_read io (length (drop c_len buf)) (read_stream h)))"
        "bs = [] \<longrightarrow> pending (read_stream h) = []"
      using 1(2) unfolding lossless_reader_def by blast
    obtain h' where h': "?rd = (Inr bs, h')"
      using bs(1) by (cases ?rd) (metis fst_conv on_read_half_sel(1) read_some_def)
    have rest: "pending (read_stream h) = bs @ pending (read_stream h')"
      using bs(3) h' on_read_half_sel(2) [of "io_read io (length (drop c_len buf))" h]
      by (simp add: read_some_def)
    show ?thesis
    proof (cases "bs = []")
      case True
      then show ?thesis using bs(4) h' \<open>c_len < len\<close>
        by (subst read_loop.simps) simp
    next
      case False
      let ?buf = "take c_len buf @ bs @ drop (c_len + length bs) buf"
      have fits: "length ?buf = len" "c_len + length bs \<le> len"
        using bs(2) 1(3) \<open>c_len < len\<close> by auto
      have step: "read_loop io len h buf c_len = read_loop io len h' ?buf (c_len + length bs)"
        using h' False \<open>c_len < len\<close> by (subst read_loop.simps) simp
      have "take (c_len + length bs) ?buf = take c_len buf @ bs"
        using bs(2) 1(3) \<open>c_len < len\<close> by simp
      moreover have "take (len - c_len) (bs @ q) = bs @ take (len - (c_len + length bs)) q"
          "drop (len - c_len) (bs @ q) = drop (len - (c_len + length bs)) q" for q
        using fits(2) by simp_all
      moreover have "len - c_len \<le> length (bs @ q) \<longleftrightarrow> len - (c_len + length bs) \<le> length q" for q
        using fits(2) by auto
      ultimately show ?thesis
        using 1(1) [OF True h' [symmetric] refl] False fits 1(2) rest unfolding step
        by (simp add: Let_def)
    qed
  qed
qed

lemma read_n_bytes_lossless:
  assumes io: "lossless_reader io pending" and len: "len \<le> max_buffer"
  shows "(let p = pending (read_stream h); res = read_n_bytes io len h
     in if len \<le> length p
        then fst res = Inr (take len p) \<and> pending (read_stream (snd res)) = drop len p
        else fst res = Inl (ReadError UnexpectedEof))"
proof -
  have loop: "(let p = pending (read_stream h); res = read_loop io len h (replicate len 0) 0
     in if len \<le> length p
        then fst res = Inr (take len p) \<and> pending (read_stream (snd res)) = drop len p
        else fst res = Inl (ReadError UnexpectedEof))" for h
    using read_loop_lossless [OF io, of "replicate len 0" len 0 h] by (simp add: Let_def)
  show ?thesis
  proof (cases h)
    case (ReadRegular r)
    have "fst (io_readable io r) = Inr ()" and same: "pending (snd (io_readable io r)) = pending r"
      using io by (simp_all only: lossless_reader_def)
    then obtain r' where r': "io_readable io r = (Inr (), r')" by (cases "io_readable io r") simp
    have "read_n_bytes io len h = read_loop io len (ReadRegular r') (replicate len 0) 0"
      using ReadRegular r' len by (simp add: read_n_bytes_def Let_def)
    then show ?thesis using loop [of "ReadRegular r'"] same r' ReadRegular by simp
  qed (use loop [of h] len in \<open>simp_all add: read_n_bytes_def Let_def\<close>)
qed

lemma read_u64_lossless:
  assumes "lossless_reader io pending"
  shows "fst (read_u64 io h) = (if length (pending (read_stream h)) < 8 then Inl UnexpectedEof
      else Inr (from_be (take 8 (pending (read_stream h)))))"
    and "8 \<le> length (pending (read_stream h)) \<Longrightarrow>
      pending (read_stream (snd (read_u64 io h))) = drop 8 (pending (read_stream h))"
  using assms by (simp_all add: lossless_reader_def read_u64_def)

text \<open>A concrete connection: a socket that delivers its bytes in the chunks they arrived in.\<close>

fun chunk_read :: "nat \<Rightarrow> byte list list \<Rightarrow> byte list io_result \<times> byte list list" where
  "chunk_read room [] = (Inr [], [])"
| "chunk_read room ([] # cs) = chunk_read room cs"
| "chunk_read room ((b # bs) # cs) = (Inr (take room (b # bs)), drop room (b # bs) # cs)"

definition chunked_reader :: "byte list list read_io" where
  "chunked_reader =
    \<lparr>io_readable = \<lambda>cs. (Inr (), cs),
     io_read_u64 = \<lambda>cs. (if length (concat cs) < 8 then (Inl UnexpectedEof, cs)
                         else (Inr (from_be (take 8 (concat cs))), [drop 8 (concat cs)])),
     io_read = chunk_read\<rparr>"

definition buffer_writer :: "byte list write_io" where
  "buffer_writer =
    \<lparr>io_writable = \<lambda>w. (Inr (), w), io_write_u64 = \<lambda>n w. (Inr (), w @ be_bytes n),
     io_write_all = \<lambda>data w. (Inr (), w @ data), io_flush = \<lambda>w. (Inr (), w)\<rparr>"

lemma chunk_read_ok:
  "0 < room \<Longrightarrow> \<exists>bs. fst (chunk_read room cs) = Inr bs \<and> length bs \<le> room
     \<and> concat cs = bs @ concat (snd (chunk_read room cs)) \<and> (bs = [] \<longrightarrow> concat cs = [])"
proof (induction room cs rule: chunk_read.induct)
  case (3 room b bs cs)
  then show ?case
    by (intro exI [of _ "take room (b # bs)"]) (simp flip: append_assoc)
qed simp_all

lemma chunked_reader_lossless: "lossless_reader chunked_reader concat"
  by (simp add: lossless_reader_def chunked_reader_def chunk_read_ok del: concat_eq_Nil_conv)

lemma buffer_writer_lossless: "lossless_writer buffer_writer (\<lambda>w. w)"
  by (simp add: lossless_writer_def buffer_writer_def)

section \<open>Properties\<close>

text \<open>
  C31. Reading \<open>len\<close> bytes always ends, and on a connection without errors it gives
  exactly the next \<open>len\<close> bytes of the stream, in order, however the stream is cut into
  reads, and leaves the rest unread; if the stream closes before \<open>len\<close> bytes it is an
  UnexpectedEof and never a short buffer. A length above \<open>isize::MAX\<close>, which the peer is
  free to send, panics before anything is read.
\<close>

theorem read_n_bytes_reads_exactly:
  assumes "lossless_reader io pending"
  shows "(let p = pending (read_stream h); res = read_n_bytes io len h
     in if max_buffer < len then fst res = Inl (ReadPanic ''capacity overflow'') \<and> snd res = h
        else if len \<le> length p
        then fst res = Inr (take len p) \<and> pending (read_stream (snd res)) = drop len p
        else fst res = Inl (ReadError UnexpectedEof))"
  using read_n_bytes_lossless [OF assms, of len h]
  by (cases "max_buffer < len") (simp_all add: read_n_bytes_def Let_def)

theorem read_n_bytes_reads_exactly_witness:
  "fst (read_n_bytes chunked_reader 3 (ReadRegular [[1], [2, 3, 4]])) = Inr [1, 2, 3]
   \<and> fst (read_n_bytes chunked_reader 3 (ReadServerTls [[1], [], [2]])) = Inl (ReadError UnexpectedEof)"
  using read_n_bytes_reads_exactly [OF chunked_reader_lossless, of "ReadRegular [[1], [2, 3, 4]]" 3]
    read_n_bytes_reads_exactly [OF chunked_reader_lossless, of "ReadServerTls [[1], [], [2]]" 3]
  by (simp add: max_buffer_def Let_def)

end
