(* ===== verification/Tcp_Session.thy ===== *)
theory Tcp_Session
  imports Tcp_Stream
begin

text \<open>
  The TCP session of \<open>src/ractor_actors/src/net/tcp/session.rs\<close>: the session actor, and its
  two children, the writer, which puts every frame on the wire after its length, and the
  reader, which alternates between waiting for a length and reading a frame by sending
  itself messages.

  The runs of the writer and of the session are runs over the inputs they are given. The
  reader feeds itself: \<open>reader_run\<close> keeps its mailbox, and takes fuel, one unit for each
  message it handles, because a reader need not stop; \<open>None\<close> is a reader still running
  when the fuel is used up.
\<close>

section \<open>The writer\<close>

record 'w writer_state =
  writer :: "'w write_half option"

datatype writer_effect = StopWriter string

definition io_fault :: "io_error \<Rightarrow> fault" where
  "io_fault e = (case e of UnexpectedEof \<Rightarrow> Error ''unexpected end of file'' | OtherIo msg \<Rightarrow> Error msg)"

definition writer_pre_start :: "'w write_half \<Rightarrow> 'w writer_state result" where
  "writer_pre_start w = Inr \<lparr>writer = Some w\<rparr>"

definition writer_post_stop :: "'w writer_state \<Rightarrow> ('w writer_state, writer_effect) outcome" where
  "writer_post_stop st = Outcome (st\<lparr>writer := None\<rparr>) [] Ok_unit"

text \<open>Only a plain socket is asked whether it is writable.\<close>

definition await_writable :: "'w write_io \<Rightarrow> 'w write_half \<Rightarrow> unit io_result \<times> 'w write_half" where
  "await_writable io h =
    (case h of
       WriteRegular w \<Rightarrow> (case io_writable io w of (r, w') \<Rightarrow> (r, WriteRegular w'))
     | _ \<Rightarrow> (Inr (), h))"

definition writer_write :: "'w write_io \<Rightarrow> frame \<Rightarrow> 'w writer_state
    \<Rightarrow> ('w writer_state, writer_effect) outcome" where
  "writer_write io msg st =
    (case writer st of
       None \<Rightarrow> Outcome st [] Ok_unit
     | Some h \<Rightarrow>
       (case await_writable io h of
          (Inl e, h1) \<Rightarrow> Outcome \<lparr>writer = Some h1\<rparr> [] (Inl (io_fault e))
        | (Inr _, h1) \<Rightarrow>
          (case write_u64 io (word_of_nat (length msg)) h1 of
             (Inl write_err, h2) \<Rightarrow> Outcome \<lparr>writer = Some h2\<rparr> [] Ok_unit
           | (Inr _, h2) \<Rightarrow>
             (case write_all io msg h2 of
                (Inl write_err, h3) \<Rightarrow>
                  Outcome \<lparr>writer = Some h3\<rparr> [StopWriter ''channel_closed''] Ok_unit
              | (Inr _, h3) \<Rightarrow>
                (case flush io h3 of
                   (Inl e, h4) \<Rightarrow> Outcome \<lparr>writer = Some h4\<rparr> [] (Inl (io_fault e))
                 | (Inr _, h4) \<Rightarrow> Outcome \<lparr>writer = Some h4\<rparr> [] Ok_unit)))))"

abbreviation run_writer where
  "run_writer io \<equiv> run_actor (writer_write io) (\<lambda>_. True)"

section \<open>The reader\<close>

datatype reader_message = WaitForFrame | ReadFrame "64 word"

record 'r reader_state =
  reader :: "'r read_half option"

datatype reader_effect =
    CastReader reader_message
  | ToSession frame
  | StopReader string

fun stops_reader :: "reader_effect \<Rightarrow> bool" where
  "stops_reader (StopReader _) = True"
| "stops_reader _ = False"

definition reader_pre_start :: "'r read_half \<Rightarrow> ('r reader_state \<times> reader_effect list) result" where
  "reader_pre_start r = Inr (\<lparr>reader = Some r\<rparr>, [CastReader WaitForFrame])"

definition reader_post_stop :: "'r reader_state \<Rightarrow> ('r reader_state, reader_effect) outcome" where
  "reader_post_stop st = Outcome (st\<lparr>reader := None\<rparr>) [] Ok_unit"

text \<open>The end of the stream stops the actor, and still sends the message that would retry.\<close>

definition wait_for_frame :: "'r read_io \<Rightarrow> 'r reader_state \<Rightarrow> ('r reader_state, reader_effect) outcome" where
  "wait_for_frame io st =
    (case reader st of
       None \<Rightarrow> Outcome st [CastReader WaitForFrame] Ok_unit
     | Some h \<Rightarrow>
       (case read_u64 io h of
          (Inr n, h') \<Rightarrow> Outcome \<lparr>reader = Some h'\<rparr> [CastReader (ReadFrame n)] Ok_unit
        | (Inl UnexpectedEof, h') \<Rightarrow>
            Outcome \<lparr>reader = None\<rparr> [StopReader ''channel_closed'', CastReader WaitForFrame] Ok_unit
        | (Inl (OtherIo e), h') \<Rightarrow> Outcome \<lparr>reader = Some h'\<rparr> [CastReader WaitForFrame] Ok_unit))"

text \<open>\<open>session_cast\<close> is what casting a frame to the session returns.\<close>

definition read_frame :: "'r read_io \<Rightarrow> (frame \<Rightarrow> unit result) \<Rightarrow> 64 word \<Rightarrow> 'r reader_state
    \<Rightarrow> ('r reader_state, reader_effect) outcome" where
  "read_frame io session_cast n st =
    (case reader st of
       None \<Rightarrow> Outcome st [CastReader WaitForFrame] Ok_unit
     | Some h \<Rightarrow>
       (case read_n_bytes io (unat n) h of
          (Inr buf, h') \<Rightarrow>
            (case session_cast buf of
               Inl e \<Rightarrow> Outcome \<lparr>reader = Some h'\<rparr> [] (Inl e)
             | Inr _ \<Rightarrow> Outcome \<lparr>reader = Some h'\<rparr> [ToSession buf, CastReader WaitForFrame] Ok_unit)
        | (Inl (ReadError UnexpectedEof), h') \<Rightarrow>
            Outcome \<lparr>reader = None\<rparr> [StopReader ''channel_closed''] Ok_unit
        | (Inl (ReadError (OtherIo e)), h') \<Rightarrow>
            Outcome \<lparr>reader = Some h'\<rparr> [CastReader WaitForFrame] Ok_unit
        | (Inl (ReadPanic p), h') \<Rightarrow> Outcome \<lparr>reader = Some h'\<rparr> [] (Inl (Panic p))))"

definition reader_handle :: "'r read_io \<Rightarrow> (frame \<Rightarrow> unit result) \<Rightarrow> reader_message
    \<Rightarrow> 'r reader_state \<Rightarrow> ('r reader_state, reader_effect) outcome" where
  "reader_handle io session_cast msg st =
    (case msg of
       WaitForFrame \<Rightarrow> wait_for_frame io st
     | ReadFrame n \<Rightarrow> read_frame io session_cast n st)"

fun self_casts :: "reader_effect list \<Rightarrow> reader_message list" where
  "self_casts [] = []"
| "self_casts (CastReader m # es) = m # self_casts es"
| "self_casts (_ # es) = self_casts es"

fun to_session :: "reader_effect list \<Rightarrow> frame list" where
  "to_session [] = []"
| "to_session (ToSession f # es) = f # to_session es"
| "to_session (_ # es) = to_session es"

fun reader_run :: "nat \<Rightarrow> 'r read_io \<Rightarrow> (frame \<Rightarrow> unit result) \<Rightarrow> 'r reader_state
    \<Rightarrow> reader_message list \<Rightarrow> ('r reader_state, reader_effect) outcome option" where
  "reader_run 0 io session_cast st mailbox = None"
| "reader_run (Suc n) io session_cast st [] = None"
| "reader_run (Suc n) io session_cast st (m # mailbox) =
    (let out = reader_handle io session_cast m st
     in if halts stops_reader out then Some out
        else map_option (followed_by out)
               (reader_run n io session_cast (state_of out) (mailbox @ self_casts (effects out))))"

section \<open>The session\<close>

record ('id, 'addr) session_state =
  session_writer :: "'id actor_cell"
  session_reader :: "'id actor_cell"
  session_info :: "'addr network_stream_info"

datatype 'id session_input =
    Send frame
  | FrameReady frame "unit result"
  | SessionSupervised "'id supervision_event"

datatype session_effect =
    CastWriter frame
  | ReceiverFrameReady frame
  | StopChildren string
  | StopSession string

fun stops_session :: "session_effect \<Rightarrow> bool" where
  "stops_session (StopSession _) = True"
| "stops_session _ = False"

text \<open>The stream is split into halves of its own kind; the writer is spawned first.\<close>

definition split_stream :: "('sock \<Rightarrow> 'r \<times> 'w) \<Rightarrow> ('addr, 'sock) network_stream
    \<Rightarrow> 'r read_half \<times> 'w write_half" where
  "split_stream split s =
    (case split (socket s) of (r, w) \<Rightarrow>
       (case s of
          RawStream _ _ _ \<Rightarrow> (ReadRegular r, WriteRegular w)
        | TlsClient _ _ _ \<Rightarrow> (ReadClientTls r, WriteClientTls w)
        | TlsServer _ _ _ \<Rightarrow> (ReadServerTls r, WriteServerTls w)))"

definition session_pre_start :: "('sock \<Rightarrow> 'r \<times> 'w) \<Rightarrow> ('w write_half \<Rightarrow> fault + 'id actor_cell)
    \<Rightarrow> ('r read_half \<Rightarrow> fault + 'id actor_cell) \<Rightarrow> ('addr, 'sock) network_stream
    \<Rightarrow> ('id, 'addr) session_state result" where
  "session_pre_start split spawn_writer spawn_reader tcp_session =
    (let stream_info = stream_info_of tcp_session
     in case split_stream split tcp_session of (r, w) \<Rightarrow>
          (case spawn_writer w of
             Inl e \<Rightarrow> Inl e
           | Inr wr \<Rightarrow>
             (case spawn_reader r of
                Inl e \<Rightarrow> Inl e
              | Inr rd \<Rightarrow> Inr \<lparr>session_writer = wr, session_reader = rd, session_info = stream_info\<rparr>)))"

definition session_post_stop :: "('id, 'addr) session_state
    \<Rightarrow> (('id, 'addr) session_state, session_effect) outcome" where
  "session_post_stop st = Outcome st [] Ok_unit"

definition session_send :: "frame \<Rightarrow> ('id, 'addr) session_state
    \<Rightarrow> (('id, 'addr) session_state, session_effect) outcome" where
  "session_send msg st = Outcome st [CastWriter msg] Ok_unit"

definition session_frame_ready :: "frame \<Rightarrow> unit result \<Rightarrow> ('id, 'addr) session_state
    \<Rightarrow> (('id, 'addr) session_state, session_effect) outcome" where
  "session_frame_ready msg receiver_result st =
     Outcome st [ReceiverFrameReady msg] receiver_result"

text \<open>Which child it was is only logged: the exit of either, or of another, ends the session.\<close>

definition session_supervisor_evt :: "'id supervision_event \<Rightarrow> ('id, 'addr) session_state
    \<Rightarrow> (('id, 'addr) session_state, session_effect) outcome" where
  "session_supervisor_evt message st =
    (case message of
       ActorFailed who panic_msg \<Rightarrow>
         Outcome st [StopChildren ''session_stop_panic'', StopSession ''child_panic''] Ok_unit
     | ActorTerminated who exit_reason \<Rightarrow>
         Outcome st [StopChildren ''session_stop_terminated'', StopSession ''child_terminate''] Ok_unit
     | _ \<Rightarrow> Outcome st [] Ok_unit)"

definition session_handle :: "'id session_input \<Rightarrow> ('id, 'addr) session_state
    \<Rightarrow> (('id, 'addr) session_state, session_effect) outcome" where
  "session_handle inp st =
    (case inp of
       Send f \<Rightarrow> session_send f st
     | FrameReady f res \<Rightarrow> session_frame_ready f res st
     | SessionSupervised ev \<Rightarrow> session_supervisor_evt ev st)"

abbreviation run_session where
  "run_session \<equiv> run_actor session_handle stops_session"

section \<open>The reader parses the stream\<close>

text \<open>
  What a run of the reader over a byte string shows for: the complete frames, up to the
  first one the session refuses; then that refusal, or the end of the stream, or the panic
  of a length no buffer can have.
\<close>

definition reads_frames :: "(frame \<Rightarrow> unit result) \<Rightarrow> frame list \<Rightarrow> parse_end
    \<Rightarrow> ('r reader_state, reader_effect) outcome \<Rightarrow> bool" where
  "reads_frames session_cast fs e out \<longleftrightarrow>
    (let taken = takeWhile (\<lambda>f. session_cast f = Ok_unit) fs
     in to_session (effects out) = taken
        \<and> (if length taken < length fs then returned out = session_cast (fs ! length taken)
           else case e of
             Closed \<Rightarrow> returned out = Ok_unit \<and> reader (state_of out) = None
               \<and> StopReader ''channel_closed'' \<in> set (effects out)
           | TooLong \<Rightarrow> returned out = Inl (Panic ''capacity overflow'')))"

lemma reads_frames_next:
  assumes "session_cast f = Ok_unit" and "to_session (effects out1) = [f]"
    and "reads_frames session_cast fs e out"
  shows "reads_frames session_cast (f # fs) e (followed_by out1 out)"
proof -
  have "to_session (xs @ ys) = to_session xs @ to_session ys" for xs ys
    by (induction xs rule: to_session.induct) simp_all
  then show ?thesis
    using assms by (auto simp: reads_frames_def Let_def split: parse_end.splits if_splits)
qed

text \<open>The messages of one frame: the length, then the frame.\<close>

lemma wait_gets_length:
  assumes "lossless_reader io pending" and "8 \<le> length (pending (read_stream h))"
  obtains h' where "read_u64 io h = (Inr (from_be (take 8 (pending (read_stream h)))), h')"
    and "pending (read_stream h') = drop 8 (pending (read_stream h))"
  using read_u64_lossless [OF assms(1), of h] assms(2)
  by (cases "read_u64 io h") (simp split: if_splits)

lemma wait_gets_eof:
  assumes "lossless_reader io pending" and "length (pending (read_stream h)) < 8"
  shows "wait_for_frame io \<lparr>reader = Some h\<rparr>
    = Outcome \<lparr>reader = None\<rparr> [StopReader ''channel_closed'', CastReader WaitForFrame] Ok_unit"
  using read_u64_lossless(1) [OF assms(1), of h] assms(2)
  by (cases "read_u64 io h") (simp add: wait_for_frame_def)

lemma reader_run_two:
  assumes "reader_handle io sc WaitForFrame st = Outcome st1 [CastReader (ReadFrame n)] Ok_unit"
  shows "reader_run (Suc (Suc k)) io sc st [WaitForFrame] =
    (let out = reader_handle io sc (ReadFrame n) st1
     in if halts stops_reader out then Some (followed_by (Outcome st1 [CastReader (ReadFrame n)] Ok_unit) out)
        else map_option (\<lambda>rest. followed_by (Outcome st1 [CastReader (ReadFrame n)] Ok_unit)
                 (followed_by out rest))
               (reader_run k io sc (state_of out) (self_casts (effects out))))"
  using assms
  by (simp add: halts_def Let_def option.map_comp comp_def)

text \<open>A turn that waits for a frame, and one that reads it, on a connection without errors.\<close>

lemma wait_turn_cases:
  assumes io: "lossless_reader io pending"
  obtains (eof) "length (pending (read_stream h)) < 8"
      "reader_handle io sc WaitForFrame \<lparr>reader = Some h\<rparr>
        = Outcome \<lparr>reader = None\<rparr> [StopReader ''channel_closed'', CastReader WaitForFrame] Ok_unit"
  | (head) h' where "8 \<le> length (pending (read_stream h))"
      "pending (read_stream h') = drop 8 (pending (read_stream h))"
      "reader_handle io sc WaitForFrame \<lparr>reader = Some h\<rparr>
        = Outcome \<lparr>reader = Some h'\<rparr> [CastReader (ReadFrame (from_be (take 8 (pending (read_stream h)))))] Ok_unit"
proof (cases "length (pending (read_stream h)) < 8")
  case True
  then show thesis using eof wait_gets_eof [OF io True] by (simp add: reader_handle_def)
next
  case False
  then obtain h1 where "read_u64 io h = (Inr (from_be (take 8 (pending (read_stream h)))), h1)"
      "pending (read_stream h1) = drop 8 (pending (read_stream h))"
    using wait_gets_length [OF io, of h] by auto
  then show thesis using head [of h1] False by (simp add: reader_handle_def wait_for_frame_def)
qed

lemma read_turn_cases:
  fixes h :: "'r read_half" and n :: "64 word" and sc :: "frame \<Rightarrow> unit result"
  assumes io: "lossless_reader io pending"
  defines "out \<equiv> reader_handle io sc (ReadFrame n) \<lparr>reader = Some h\<rparr>"
  obtains (long) "max_buffer < unat n" "out = Outcome \<lparr>reader = Some h\<rparr> [] (Inl (Panic ''capacity overflow''))"
  | (short) "unat n \<le> max_buffer" "length (pending (read_stream h)) < unat n"
      "out = Outcome \<lparr>reader = None\<rparr> [StopReader ''channel_closed''] Ok_unit"
  | (frame) h' where "unat n \<le> max_buffer" "unat n \<le> length (pending (read_stream h))"
      "pending (read_stream h') = drop (unat n) (pending (read_stream h))"
      "out = (case sc (take (unat n) (pending (read_stream h))) of
         Inl e \<Rightarrow> Outcome \<lparr>reader = Some h'\<rparr> [] (Inl e)
       | Inr u \<Rightarrow> Outcome \<lparr>reader = Some h'\<rparr>
           [ToSession (take (unat n) (pending (read_stream h))), CastReader WaitForFrame] Ok_unit)"
proof -
  let ?p = "pending (read_stream h)"
  note exact = read_n_bytes_lossless [OF io, of "unat n" h]
  consider (a) "max_buffer < unat n" | (b) "unat n \<le> max_buffer" "length ?p < unat n"
    | (c) "unat n \<le> max_buffer" "unat n \<le> length ?p" by linarith
  then show thesis
  proof cases
    case a
    then show thesis using long by (simp add: out_def reader_handle_def read_frame_def read_n_bytes_def)
  next
    case b
    then obtain h2 where "read_n_bytes io (unat n) h = (Inl (ReadError UnexpectedEof), h2)"
      using exact by (cases "read_n_bytes io (unat n) h") (simp add: Let_def)
    then show thesis using short b by (simp add: out_def reader_handle_def read_frame_def)
  next
    case c
    then obtain h2 where "read_n_bytes io (unat n) h = (Inr (take (unat n) ?p), h2)"
        "pending (read_stream h2) = drop (unat n) ?p"
      using exact by (cases "read_n_bytes io (unat n) h") (simp add: Let_def)
    then show thesis using frame [of h2] c by (simp add: out_def reader_handle_def read_frame_def)
  qed
qed

text \<open>How the reference parser goes on behind a length.\<close>

lemma cut_behind_length:
  assumes "8 \<le> length bs" and "n = from_be (take 8 bs)" and "rest = drop 8 bs"
  shows "max_buffer < unat n \<Longrightarrow> cut_frames bs = ([], TooLong)"
    and "unat n \<le> max_buffer \<Longrightarrow> length rest < unat n \<Longrightarrow> cut_frames bs = ([], Closed)"
    and "unat n \<le> max_buffer \<Longrightarrow> unat n \<le> length rest \<Longrightarrow> cut_frames bs
      = (take (unat n) rest # fst (cut_frames (drop (unat n) rest)), snd (cut_frames (drop (unat n) rest)))"
  using assms by (subst cut_frames.simps, simp add: Let_def split: prod.splits)+

lemma reader_run_refines:
  assumes io: "lossless_reader io pending"
    and fuel: "2 * length (fst (cut_frames (pending (read_stream h)))) + 2 \<le> fuel"
  shows "\<exists>out. reader_run fuel io sc \<lparr>reader = Some h\<rparr> [WaitForFrame] = Some out
    \<and> reads_frames sc (fst (cut_frames (pending (read_stream h))))
        (snd (cut_frames (pending (read_stream h)))) out"
  using fuel
proof (induction "length (pending (read_stream h))" arbitrary: h fuel rule: less_induct)
  case less
  let ?p = "pending (read_stream h)"
  have "fuel = Suc (Suc (fuel - 2))" using less.prems by linarith
  then obtain k where fuel: "fuel = Suc (Suc k)" by blast
  show ?case
  proof (rule wait_turn_cases [OF io, of h sc])
    assume "length ?p < 8" "reader_handle io sc WaitForFrame \<lparr>reader = Some h\<rparr>
        = Outcome \<lparr>reader = None\<rparr> [StopReader ''channel_closed'', CastReader WaitForFrame] Ok_unit"
    then show ?case by (simp add: fuel halts_def reads_frames_def cut_short)
  next
    fix h1
    let ?w = "from_be (take 8 ?p)" and ?rest = "drop 8 ?p"
    assume eight: "8 \<le> length ?p" and p1: "pending (read_stream h1) = ?rest"
      and step: "reader_handle io sc WaitForFrame \<lparr>reader = Some h\<rparr>
        = Outcome \<lparr>reader = Some h1\<rparr> [CastReader (ReadFrame ?w)] Ok_unit"
    note two = reader_run_two [of io sc "\<lparr>reader = Some h\<rparr>" "\<lparr>reader = Some h1\<rparr>" ?w k, OF step]
    note cut = cut_behind_length [OF eight refl refl]
    show ?case
    proof (rule read_turn_cases [OF io, of ?w sc h1], goal_cases)
      case 1
      then show ?case unfolding fuel two by (simp add: cut(1) halts_def reads_frames_def)
    next
      case 2
      then show ?case unfolding fuel two by (simp add: cut(2) p1 halts_def reads_frames_def)
    next
      case (3 h2)
      let ?f = "take (unat ?w) ?rest" and ?q = "drop (unat ?w) ?rest"
      have whole: "cut_frames ?p = (?f # fst (cut_frames ?q), snd (cut_frames ?q))"
        using 3(1,2) by (simp add: cut(3) p1)
      show ?case
      proof (cases "sc ?f")
        case (Inl e)
        then show ?thesis
          unfolding fuel two using 3 whole by (simp add: p1 halts_def reads_frames_def)
      next
        case (Inr v)
        have "length (pending (read_stream h2)) < length ?p" using eight 3(3) by (simp add: p1)
        moreover have "2 * length (fst (cut_frames (pending (read_stream h2)))) + 2 \<le> k"
          using less.prems whole 3(3) fuel by (simp add: p1)
        ultimately obtain out where "reader_run k io sc \<lparr>reader = Some h2\<rparr> [WaitForFrame] = Some out"
          "reads_frames sc (fst (cut_frames ?q)) (snd (cut_frames ?q)) out"
          using less.hyps [of h2 k] 3(3) by (auto simp: p1)
        then show ?thesis
          unfolding fuel two using 3(4) Inr whole
          by (simp add: p1 halts_def reads_frames_next flip: followed_by_assoc)
      qed
    qed
  qed
qed

section \<open>The writer on a connection without errors\<close>

lemma writer_write_lossless:
  assumes "lossless_writer io sent"
  obtains h' where "writer_write io f \<lparr>writer = Some h\<rparr> = Outcome \<lparr>writer = Some h'\<rparr> [] Ok_unit"
    and "sent (write_stream h') = sent (write_stream h) @ encode_frame f"
proof -
  note laws = assms [unfolded lossless_writer_def]
  have wr: "fst (await_writable io h) = Inr ()
      \<and> sent (write_stream (snd (await_writable io h))) = sent (write_stream h)"
    using laws by (cases h) (simp_all add: await_writable_def case_prod_unfold)
  obtain h1 where h1: "await_writable io h = (Inr (), h1)"
    and s1: "sent (write_stream h1) = sent (write_stream h)"
    using wr by (cases "await_writable io h") simp
  have "fst (write_u64 io (word_of_nat (length f)) h1) = Inr ()
      \<and> sent (write_stream (snd (write_u64 io (word_of_nat (length f)) h1)))
        = sent (write_stream h1) @ be_bytes (word_of_nat (length f))"
    using laws by (simp add: write_u64_def)
  then obtain h2 where h2: "write_u64 io (word_of_nat (length f)) h1 = (Inr (), h2)"
    and s2: "sent (write_stream h2) = sent (write_stream h1) @ be_bytes (word_of_nat (length f))"
    by (cases "write_u64 io (word_of_nat (length f)) h1") simp
  have "fst (write_all io f h2) = Inr ()
      \<and> sent (write_stream (snd (write_all io f h2))) = sent (write_stream h2) @ f"
    using laws by (simp add: write_all_def)
  then obtain h3 where h3: "write_all io f h2 = (Inr (), h3)"
    and s3: "sent (write_stream h3) = sent (write_stream h2) @ f"
    by (cases "write_all io f h2") simp
  have "fst (flush io h3) = Inr ()
      \<and> sent (write_stream (snd (flush io h3))) = sent (write_stream h3)"
    using laws by (simp add: flush_def)
  then obtain h4 where h4: "flush io h3 = (Inr (), h4)"
    and s4: "sent (write_stream h4) = sent (write_stream h3)"
    by (cases "flush io h3") simp
  show ?thesis
    by (rule that [of h4]) (simp_all add: writer_write_def h1 h2 h3 h4 s1 s2 s3 s4 encode_frame_def)
qed

lemma run_writer_lossless:
  assumes "lossless_writer io sent"
  shows "\<exists>h'. run_writer io \<lparr>writer = Some h\<rparr> fs = Outcome \<lparr>writer = Some h'\<rparr> [] Ok_unit
    \<and> sent (write_stream h') = sent (write_stream h) @ concat (map encode_frame fs)"
proof (induction fs arbitrary: h)
  case Nil
  then show ?case by simp
next
  case (Cons f fs)
  obtain h1 where h1: "writer_write io f \<lparr>writer = Some h\<rparr> = Outcome \<lparr>writer = Some h1\<rparr> [] Ok_unit"
    "sent (write_stream h1) = sent (write_stream h) @ encode_frame f"
    using writer_write_lossless [OF assms] by blast
  then show ?case using Cons.IH [of h1] by (auto simp: halts_def)
qed

section \<open>Runs of the session\<close>

fun to_writer :: "session_effect list \<Rightarrow> frame list" where
  "to_writer [] = []"
| "to_writer (CastWriter f # es) = f # to_writer es"
| "to_writer (_ # es) = to_writer es"

fun to_receiver :: "session_effect list \<Rightarrow> frame list" where
  "to_receiver [] = []"
| "to_receiver (ReceiverFrameReady f # es) = f # to_receiver es"
| "to_receiver (_ # es) = to_receiver es"

lemma to_writer_append [simp]: "to_writer (xs @ ys) = to_writer xs @ to_writer ys"
  by (induction xs rule: to_writer.induct) simp_all

lemma to_receiver_append [simp]: "to_receiver (xs @ ys) = to_receiver xs @ to_receiver ys"
  by (induction xs rule: to_receiver.induct) simp_all

text \<open>What ends a session: the exit of a child, and a frame its receiver refuses.\<close>

fun child_exit :: "'id session_input \<Rightarrow> bool" where
  "child_exit (SessionSupervised (ActorFailed _ _)) = True"
| "child_exit (SessionSupervised (ActorTerminated _ _)) = True"
| "child_exit _ = False"

fun refused_frame :: "'id session_input \<Rightarrow> bool" where
  "refused_frame (FrameReady _ res) = is_err res"
| "refused_frame _ = False"

definition up_to_end :: "'id session_input list \<Rightarrow> 'id session_input list" where
  "up_to_end is = (let quiet = (\<lambda>i. \<not> child_exit i \<and> \<not> refused_frame i)
     in takeWhile quiet is @ take 1 (dropWhile quiet is))"

lemma up_to_end_simps [simp]:
  "up_to_end [] = []"
  "up_to_end (i # is) = i # (if child_exit i \<or> refused_frame i then [] else up_to_end is)"
  by (simp_all add: up_to_end_def Let_def)

fun frame_to_send :: "'id session_input \<Rightarrow> frame list" where
  "frame_to_send (Send f) = [f]"
| "frame_to_send _ = []"

fun frame_received :: "'id session_input \<Rightarrow> frame list" where
  "frame_received (FrameReady f _) = [f]"
| "frame_received _ = []"

lemma session_handle_one:
  "state_of (session_handle i st) = st"
  "is_err (returned (session_handle i st)) \<longleftrightarrow> refused_frame i"
  "list_ex stops_session (effects (session_handle i st)) \<longleftrightarrow> child_exit i"
  "to_writer (effects (session_handle i st)) = frame_to_send i"
  "to_receiver (effects (session_handle i st)) = frame_received i"
  by (cases i rule: child_exit.cases;
      simp add: session_handle_def session_send_def session_frame_ready_def session_supervisor_evt_def)+

lemma session_run:
  "state_of (run_session st is) = st
   \<and> to_writer (effects (run_session st is)) = concat (map frame_to_send (up_to_end is))
   \<and> to_receiver (effects (run_session st is)) = concat (map frame_received (up_to_end is))
   \<and> (is_err (returned (run_session st is)) \<longleftrightarrow> list_ex refused_frame (up_to_end is))
   \<and> (list_ex stops_session (effects (run_session st is)) \<longleftrightarrow> list_ex child_exit (up_to_end is))"
proof (induction "is")
  case (Cons i "is")
  have "\<not> (child_exit i \<and> refused_frame i)" by (cases i rule: child_exit.cases) simp_all
  then show ?case using Cons by (auto simp: session_handle_one halts_def)
qed simp

text \<open>The children are stopped right before the session itself, and nothing follows.\<close>

lemma session_stop_order:
  "list_ex stops_session (effects (run_session st is)) \<Longrightarrow>
   \<exists>es why reason. effects (run_session st is) = es @ [StopChildren why, StopSession reason]
     \<and> \<not> list_ex stops_session es"
proof (induction "is")
  case (Cons i "is")
  show ?case
  proof (cases "halts stops_session (session_handle i st)")
    case True
    with Cons.prems have "child_exit i" by (simp add: session_handle_one)
    then show ?thesis using True
      by (cases i rule: child_exit.cases) (auto simp: session_handle_def session_supervisor_evt_def)
  next
    case False
    then have stay: "\<not> list_ex stops_session (effects (session_handle i st))" by (simp add: halts_def)
    have "list_ex stops_session (effects (run_session st is))"
      using Cons.prems False stay by (simp add: session_handle_one)
    from Cons.IH [OF this] obtain es why reason where
      "effects (run_session st is) = es @ [StopChildren why, StopSession reason]"
      "\<not> list_ex stops_session es" by blast
    then show ?thesis using False stay
      by (intro exI [of _ "effects (session_handle i st) @ es"] exI [of _ why] exI [of _ reason])
        (simp add: session_handle_one)
  qed
qed simp

text \<open>A reader whose connection keeps failing with anything but the end of the stream.\<close>

lemma reader_retries:
  assumes "\<And>r. fst (io_read_u64 io r) = Inl (OtherIo e)"
  shows "reader_run n io sc \<lparr>reader = Some h\<rparr> [WaitForFrame] = None"
proof (induction n arbitrary: h)
  case (Suc n)
  have "fst (read_u64 io h) = Inl (OtherIo e)" using assms by (simp add: read_u64_def)
  then obtain h' where "read_u64 io h = (Inl (OtherIo e), h')" by (cases "read_u64 io h") simp
  then show ?case
    using Suc.IH [of h'] by (simp add: reader_handle_def wait_for_frame_def halts_def)
qed simp

section \<open>Properties\<close>

text \<open>
  C11. The reader is a parser of its connection: whatever bytes the peer sends and however
  they are cut into reads, with enough fuel (two messages for each frame and two for the
  end) the reader stops, and what it has cast to the session is exactly the frames the
  reference parser finds in those bytes, in order, up to the first one the session refuses.
  If none is refused it has dropped the stream and stopped as "channel_closed" when the
  bytes ended, between frames or within one, and it panicked when they held a length above
  \<open>isize::MAX\<close>.
\<close>

theorem reader_delivers_the_parsed_frames:
  assumes "lossless_reader io pending"
    and "2 * length (fst (cut_frames (pending (read_stream h)))) + 2 \<le> fuel"
  shows "\<exists>out. reader_run fuel io session_cast \<lparr>reader = Some h\<rparr> [WaitForFrame] = Some out
    \<and> (case cut_frames (pending (read_stream h)) of
         (fs, e) \<Rightarrow> reads_frames session_cast fs e out)"
  using reader_run_refines [OF assms, of session_cast] by (simp add: case_prod_unfold)

theorem reader_delivers_the_parsed_frames_witness:
  "\<exists>out. reader_run 4 chunked_reader (\<lambda>_. Ok_unit)
      \<lparr>reader = Some (ReadRegular [[0, 0, 0], [0, 0, 0, 0, 2, 7], [8], [0]])\<rparr> [WaitForFrame] = Some out
    \<and> to_session (effects out) = [[7, 8]] \<and> returned out = Ok_unit"
proof -
  let ?h = "ReadRegular [[0, 0, 0], [0, 0, 0, 0, 2, 7], [8], [0 :: byte]]"
  have "cut_frames (concat (read_stream ?h)) = ([[7, 8]], Closed)"
    by (subst cut_frames.simps)
      (simp add: from_be_def max_buffer_def Let_def cut_short)
  then show ?thesis
    using reader_delivers_the_parsed_frames [OF chunked_reader_lossless, of ?h 4 "\<lambda>_. Ok_unit"]
    by (auto simp: reads_frames_def)
qed

text \<open>What one session is asked to send, the receiver of the session at the other end gets.\<close>

lemma frames_get_across:
  assumes "lossless_writer wio sent" and "lossless_reader rio pending"
    and "list_all (\<lambda>f. length f \<le> max_buffer) fs"
    and "sent (write_stream w) = []"
    and "pending (read_stream r)
      = sent (write_stream (the (writer (state_of (run_actor (writer_write wio) (\<lambda>_. True)
          \<lparr>writer = Some w\<rparr>
          (to_writer (effects (run_actor session_handle stops_session a (map Send fs)))))))))"
    and "2 * length fs + 2 \<le> fuel"
  shows "\<exists>out. reader_run fuel rio (\<lambda>_. Ok_unit) \<lparr>reader = Some r\<rparr> [WaitForFrame] = Some out
    \<and> to_receiver (effects (run_actor session_handle stops_session b
          (map (\<lambda>f. FrameReady f Ok_unit) (to_session (effects out))))) = fs
    \<and> StopReader ''channel_closed'' \<in> set (effects out)"
proof -
  have quiet: "up_to_end (map Send fs) = map Send fs"
    "up_to_end (map (\<lambda>f. FrameReady f Ok_unit) fs) = map (\<lambda>f. FrameReady f Ok_unit) fs" for fs
    by (induction fs) simp_all
  have sends: "to_writer (effects (run_session a (map Send fs))) = fs"
    using session_run [of a "map Send fs"] by (simp add: quiet comp_def)
  have receives: "to_receiver (effects (run_session b (map (\<lambda>f. FrameReady f Ok_unit) fs))) = fs"
    using session_run [of b "map (\<lambda>f. FrameReady f Ok_unit) fs"] by (simp add: quiet comp_def)
  obtain w' where "run_writer wio \<lparr>writer = Some w\<rparr> fs = Outcome \<lparr>writer = Some w'\<rparr> [] Ok_unit"
    and "sent (write_stream w') = concat (map encode_frame fs)"
    using run_writer_lossless [OF assms(1), of w fs] assms(4) by auto
  then have "pending (read_stream r) = concat (map encode_frame fs) @ []"
    using assms(5) sends by simp
  then have cut: "cut_frames (pending (read_stream r)) = (fs, Closed)"
    using cut_encoded_all [OF assms(3), of "[]"] by simp
  obtain out where run: "reader_run fuel rio (\<lambda>_. Ok_unit) \<lparr>reader = Some r\<rparr> [WaitForFrame] = Some out"
    and "reads_frames (\<lambda>_. Ok_unit) fs Closed out"
    using reader_run_refines [OF assms(2), of r fuel "\<lambda>_. Ok_unit"] assms(6) cut by auto
  then have "to_session (effects out) = fs" "StopReader ''channel_closed'' \<in> set (effects out)"
    by (simp_all add: reads_frames_def Let_def takeWhile_eq_all_conv [THEN iffD2])
  then show ?thesis using run receives by auto
qed

text \<open>
  C5. Frames cross a connection without errors unchanged, from session to session. When no write
  of the one end and no read of the other reports an error: what one session is asked to send,
  its writer puts on the wire, and if the peer's reader then sees those bytes, cut into reads in
  any way, it casts the same frames to its session, which hands them to its receiver: none lost,
  split, merged or out of order, for frames of up to \<open>isize::MAX\<close> bytes.
\<close>

theorem sessions_exchange_frames:
  assumes "lossless_writer wio sent" and "lossless_reader rio pending"
    and "list_all (\<lambda>f. length f \<le> max_buffer) fs"
    and "sent (write_stream w) = []"
    and "pending (read_stream r)
      = sent (write_stream (the (writer (state_of (run_actor (writer_write wio) (\<lambda>_. True)
          \<lparr>writer = Some w\<rparr>
          (to_writer (effects (run_actor session_handle stops_session a (map Send fs)))))))))"
    and "2 * length fs + 2 \<le> fuel"
  shows "\<exists>out. reader_run fuel rio (\<lambda>_. Ok_unit) \<lparr>reader = Some r\<rparr> [WaitForFrame] = Some out
    \<and> to_receiver (effects (run_actor session_handle stops_session b
          (map (\<lambda>f. FrameReady f Ok_unit) (to_session (effects out))))) = fs
    \<and> StopReader ''channel_closed'' \<in> set (effects out)"
  using assms by (rule frames_get_across)

theorem sessions_exchange_frames_witness:
  "\<exists>out. reader_run 6 chunked_reader (\<lambda>_. Ok_unit)
      \<lparr>reader = Some (ReadRegular [encode_frame [1, 2], encode_frame [3]])\<rparr> [WaitForFrame] = Some out
    \<and> to_receiver (effects (run_actor session_handle stops_session
         \<lparr>session_writer = \<lparr>get_id = 1 :: nat, get_name = None\<rparr>,
          session_reader = \<lparr>get_id = 2, get_name = None\<rparr>,
          session_info = \<lparr>info_peer_addr = ''peer'', info_local_addr = ''local''\<rparr>\<rparr>
         (map (\<lambda>f. FrameReady f Ok_unit) (to_session (effects out))))) = [[1, 2], [3]]"
proof -
  let ?s = "\<lparr>session_writer = \<lparr>get_id = 1 :: nat, get_name = None\<rparr>,
    session_reader = \<lparr>get_id = 2, get_name = None\<rparr>,
    session_info = \<lparr>info_peer_addr = ''peer'', info_local_addr = ''local''\<rparr>\<rparr>"
  have "write_stream (the (writer (state_of (run_writer buffer_writer \<lparr>writer = Some (WriteRegular [])\<rparr>
      (to_writer (effects (run_session ?s (map Send [[1, 2], [3]]))))))))
    = concat [encode_frame [1, 2], encode_frame [3]]"
    by (simp add: session_handle_def session_send_def halts_def buffer_writer_def writer_write_def
        await_writable_def write_u64_def write_all_def flush_def on_write_half_def encode_frame_def)
  then show ?thesis
    using sessions_exchange_frames [OF buffer_writer_lossless chunked_reader_lossless,
        of "[[1, 2], [3]]" "WriteRegular []"
          "ReadRegular [encode_frame [1, 2], encode_frame [3]]" ?s 6 ?s]
    by (auto simp: max_buffer_def)
qed

text \<open>
  Only the end of the stream stops the reader. On a connection whose reads keep
  failing with any other error, the reader never stops, reports nothing and fails never:
  however much fuel it is given, it is still sending itself \<open>WaitForFrame\<close> when the fuel is
  used up.
\<close>

theorem reader_spins_on_a_broken_connection:
  assumes "\<And>r. fst (io_read_u64 io r) = Inl (OtherIo e)"
  shows "reader_run fuel io session_cast \<lparr>reader = Some h\<rparr> [WaitForFrame] = None"
  using assms by (rule reader_retries)

theorem reader_spins_on_a_broken_connection_witness:
  "reader_run 1000 \<lparr>io_readable = \<lambda>r. (Inr (), r), io_read_u64 = \<lambda>r. (Inl (OtherIo ''reset''), r),
     io_read = \<lambda>_ r. (Inl (OtherIo ''reset''), r)\<rparr> (\<lambda>_. Ok_unit)
     \<lparr>reader = Some (ReadRegular ())\<rparr> [WaitForFrame] = None"
  by (rule reader_spins_on_a_broken_connection) simp

text \<open>
  The writer treats its two failures differently. If writing the length of a frame
  fails, the handler returns without an error, the actor does not stop, nothing more of the
  frame is written, and the next frames are written to the stream as it was left. If
  writing the frame itself fails, the actor stops and takes no further frame.
\<close>

theorem writer_failures:
  assumes "await_writable io h = (Inr (), h1)"
  shows "(\<forall>e h2. write_u64 io (word_of_nat (length f)) h1 = (Inl e, h2) \<longrightarrow>
      run_actor (writer_write io) (\<lambda>_. True) \<lparr>writer = Some h\<rparr> (f # fs)
        = run_actor (writer_write io) (\<lambda>_. True) \<lparr>writer = Some h2\<rparr> fs)
    \<and> (\<forall>h2 e h3. write_u64 io (word_of_nat (length f)) h1 = (Inr (), h2)
          \<and> write_all io f h2 = (Inl e, h3) \<longrightarrow>
      run_actor (writer_write io) (\<lambda>_. True) \<lparr>writer = Some h\<rparr> (f # fs)
        = Outcome \<lparr>writer = Some h3\<rparr> [StopWriter ''channel_closed''] Ok_unit)"
  using assms by (simp add: writer_write_def halts_def)

text \<open>
  A writer that breaks off its first length after three bytes, and then recovers: the peer
  of a session that sent two frames reads one, the empty frame nobody sent.
\<close>

definition flaky_writer :: "(bool \<times> byte list) write_io" where
  "flaky_writer =
    \<lparr>io_writable = \<lambda>w. (Inr (), w),
     io_write_u64 = \<lambda>n (ok, w). (if ok then (Inr (), (ok, w @ be_bytes n))
        else (Inl (OtherIo ''timed out''), (True, w @ take 3 (be_bytes n)))),
     io_write_all = \<lambda>data (ok, w). (Inr (), (ok, w @ data)), io_flush = \<lambda>w. (Inr (), w)\<rparr>"

theorem writer_failures_witness:
  "let wire = snd (write_stream (the (writer (state_of (run_actor (writer_write flaky_writer) (\<lambda>_. True)
         \<lparr>writer = Some (WriteServerTls (False, []))\<rparr> [[5, 6], [9]])))))
   in wire = [0, 0, 0] @ encode_frame [9] \<and> fst (cut_frames wire) = [[]]"
proof -
  have lost: "run_writer flaky_writer \<lparr>writer = Some (WriteServerTls (False, []))\<rparr> [[5, 6], [9]]
      = run_writer flaky_writer \<lparr>writer = Some (WriteServerTls (True, [0, 0, 0]))\<rparr> [[9]]"
    using writer_failures [of flaky_writer "WriteServerTls (False, [])" "WriteServerTls (False, [])"
        "[5, 6]" "[[9]]"]
    by (simp add: await_writable_def write_u64_def on_write_half_def flaky_writer_def be_bytes_def
        be_byte_def eval_nat_numeral)
  have wire: "snd (write_stream (the (writer (state_of (run_writer flaky_writer
      \<lparr>writer = Some (WriteServerTls (True, [0, 0, 0]))\<rparr> [[9]]))))) = [0, 0, 0] @ encode_frame [9]"
    by (simp add: writer_write_def await_writable_def write_u64_def write_all_def flush_def
        on_write_half_def flaky_writer_def encode_frame_def halts_def)
  have "encode_frame [9] = [0, 0, 0, 0, 0, 0, 0, 1, 9]"
    by (simp add: encode_frame_def be_bytes_def be_byte_def)
  then have "cut_frames ([0, 0, 0] @ encode_frame [9]) = ([[]], Closed)"
    by (subst cut_frames.simps) (simp add: from_be_def max_buffer_def Let_def cut_short)
  then show ?thesis using lost wire by simp
qed

text \<open>
  C32. A session passes on everything until it ends, and ends with its first child: over
  any inputs, up to and including the first child exit or refused frame, it casts to the
  writer exactly the frames it was asked to send and hands to the receiver exactly the
  frames it was given, each in order, and nothing after that. It fails exactly on a refused
  frame, and stops exactly on a child's exit, its children being stopped just before itself.
\<close>

theorem session_lives_until_a_child_exits:
  "let out = run_actor session_handle stops_session st is; taken = up_to_end is
   in to_writer (effects out) = concat (map frame_to_send taken)
      \<and> to_receiver (effects out) = concat (map frame_received taken)
      \<and> (is_err (returned out) \<longleftrightarrow> list_ex refused_frame taken)
      \<and> (list_ex stops_session (effects out) \<longleftrightarrow> list_ex child_exit taken)
      \<and> (list_ex stops_session (effects out) \<longrightarrow>
           (\<exists>es why reason. effects out = es @ [StopChildren why, StopSession reason]
              \<and> \<not> list_ex stops_session es))"
  unfolding Let_def using session_run [of st "is"] session_stop_order [of st "is"] by blast

theorem session_lives_until_a_child_exits_witness:
  "list_ex stops_session (effects (run_actor session_handle stops_session
     \<lparr>session_writer = \<lparr>get_id = 1 :: nat, get_name = None\<rparr>,
      session_reader = \<lparr>get_id = 2, get_name = None\<rparr>,
      session_info = \<lparr>info_peer_addr = ''peer'', info_local_addr = ''local''\<rparr>\<rparr>
     [Send [1], SessionSupervised (ActorTerminated \<lparr>get_id = 2, get_name = None\<rparr> None), Send [2]]))"
  using session_lives_until_a_child_exits [of
      "\<lparr>session_writer = \<lparr>get_id = 1 :: nat, get_name = None\<rparr>,
        session_reader = \<lparr>get_id = 2, get_name = None\<rparr>,
        session_info = \<lparr>info_peer_addr = ''peer'', info_local_addr = ''local''\<rparr>\<rparr>"
      "[Send [1], SessionSupervised (ActorTerminated \<lparr>get_id = 2, get_name = None\<rparr> None), Send [2]]"]
  by (simp add: Let_def session_handle_one del: run_actor.simps)

end
