(* ===== verification/Tcp_System.thy ===== *)
theory Tcp_System
  imports Tcp_Session "HOL-Library.Sublist"
begin

text \<open>
  One end of a connection as a system of three actors: the session of
  \<open>src/ractor_actors/src/net/tcp/session.rs\<close> with its writer and its reader, each with its
  own mailbox, taking turns in any order, next to clients that ask the session to send and
  to stop. The actor runtime delivers supervision events before messages and stop requests
  before both; the model allows every order, so what holds of it holds of the runtime's.

  A cast to an actor that has ended fails. The state of a writer that has ended is kept as it
  was, because it holds what was put on the wire; nobody can reach it.
\<close>

section \<open>The state of one end\<close>

datatype tcp_session_message = MsgSend frame | MsgFrameReady frame

record ('r, 'w, 'id, 'addr) connection =
  session :: "('id, 'addr) session_state"
  session_up :: bool
  session_box :: "tcp_session_message list"
  session_evts :: "'id supervision_event list"
  writer_actor :: "'w writer_state"
  writer_up :: bool
  writer_box :: "frame list"
  reader_actor :: "'r reader_state"
  reader_up :: bool
  reader_box :: "reader_message list"
  requested :: "frame list"   \<comment> \<open>what clients asked the session to send\<close>
  delivered :: "frame list"   \<comment> \<open>what the receiver was called with\<close>

text \<open>A session whose two children have started, as \<open>pre_start\<close> leaves it.\<close>

definition connection_init :: "('id, 'addr) session_state \<Rightarrow> 'r read_half \<Rightarrow> 'w write_half
    \<Rightarrow> ('r, 'w, 'id, 'addr) connection" where
  "connection_init st r w =
    \<lparr>session = st, session_up = True, session_box = [],
     session_evts = [ActorStarted (session_writer st), ActorStarted (session_reader st)],
     writer_actor = \<lparr>writer = Some w\<rparr>, writer_up = True, writer_box = [],
     reader_actor = \<lparr>reader = Some r\<rparr>, reader_up = True, reader_box = [WaitForFrame],
     requested = [], delivered = []\<rparr>"

section \<open>Turns\<close>

text \<open>The session takes one input.\<close>

fun session_does :: "session_effect \<Rightarrow> ('r, 'w, 'id, 'addr) connection \<Rightarrow> ('r, 'w, 'id, 'addr) connection" where
  "session_does (CastWriter f) s = (if writer_up s then s\<lparr>writer_box := writer_box s @ [f]\<rparr> else s)"
| "session_does (ReceiverFrameReady f) s = s\<lparr>delivered := delivered s @ [f]\<rparr>"
| "session_does (StopChildren _) s = s"
| "session_does (StopSession _) s = s"

definition session_turn :: "'id session_input \<Rightarrow> ('r, 'w, 'id, 'addr) connection
    \<Rightarrow> ('r, 'w, 'id, 'addr) connection" where
  "session_turn inp s =
    (let out = session_handle inp (session s)
     in fold session_does (effects out)
          (s\<lparr>session := state_of out, session_up := \<not> halts stops_session out\<rparr>))"

fun input_of :: "unit result \<Rightarrow> tcp_session_message \<Rightarrow> 'id session_input" where
  "input_of receiver_result (MsgSend f) = Send f"
| "input_of receiver_result (MsgFrameReady f) = FrameReady f receiver_result"

text \<open>The writer writes one frame.\<close>

definition writer_turn :: "'w write_io \<Rightarrow> frame \<Rightarrow> ('r, 'w, 'id, 'addr) connection
    \<Rightarrow> ('r, 'w, 'id, 'addr) connection" where
  "writer_turn wio f s =
    (let out = writer_write wio f (writer_actor s); ends = halts (\<lambda>_. True) out
     in s\<lparr>writer_actor := state_of out, writer_up := \<not> ends,
          session_evts := session_evts s @
            (if ends then [exit_event (session_writer (session s)) (Some ''channel_closed'') (returned out)]
             else [])\<rparr>)"

text \<open>The reader takes one of its own messages; a cast to a session that has ended fails.\<close>

definition session_cast_of :: "('r, 'w, 'id, 'addr) connection \<Rightarrow> frame \<Rightarrow> unit result" where
  "session_cast_of s f =
    (if session_up s then Ok_unit else Inl (Error ''Messaging failed to enqueue the message''))"

definition reader_turn :: "'r read_io \<Rightarrow> reader_message \<Rightarrow> ('r, 'w, 'id, 'addr) connection
    \<Rightarrow> ('r, 'w, 'id, 'addr) connection" where
  "reader_turn rio m s =
    (let out = reader_handle rio (session_cast_of s) m (reader_actor s); ends = halts stops_reader out
     in s\<lparr>reader_actor := state_of out, reader_up := \<not> ends,
          reader_box := reader_box s @ self_casts (effects out),
          session_box := session_box s @ map MsgFrameReady (to_session (effects out)),
          session_evts := session_evts s @
            (if ends then [exit_event (session_reader (session s)) (Some ''channel_closed'') (returned out)]
             else [])\<rparr>)"

inductive connection_step :: "'r read_io \<Rightarrow> 'w write_io \<Rightarrow> ('r, 'w, 'id, 'addr) connection
    \<Rightarrow> ('r, 'w, 'id, 'addr) connection \<Rightarrow> bool" for rio wio where
  client_sends: "session_up s
    \<Longrightarrow> connection_step rio wio s
          (s\<lparr>session_box := session_box s @ [MsgSend f], requested := requested s @ [f]\<rparr>)"
| client_stops: "connection_step rio wio s (s\<lparr>session_up := False\<rparr>)"
| session_message: "session_up s \<Longrightarrow> session_box s = m # ms
    \<Longrightarrow> connection_step rio wio s (session_turn (input_of res m) (s\<lparr>session_box := ms\<rparr>))"
| session_event: "session_up s \<Longrightarrow> session_evts s = evt # evts
    \<Longrightarrow> connection_step rio wio s (session_turn (SessionSupervised evt) (s\<lparr>session_evts := evts\<rparr>))"
| writer_writes: "writer_up s \<Longrightarrow> writer_box s = f # fs
    \<Longrightarrow> connection_step rio wio s (writer_turn wio f (s\<lparr>writer_box := fs\<rparr>))"
| writer_stops: "writer_up s \<Longrightarrow> \<not> session_up s
    \<Longrightarrow> connection_step rio wio s (s\<lparr>writer_up := False\<rparr>)"
| reader_reads: "reader_up s \<Longrightarrow> reader_box s = m # ms
    \<Longrightarrow> connection_step rio wio s (reader_turn rio m (s\<lparr>reader_box := ms\<rparr>))"
| reader_stops: "reader_up s \<Longrightarrow> \<not> session_up s
    \<Longrightarrow> connection_step rio wio s (s\<lparr>reader_up := False\<rparr>)"

abbreviation connection_reaches :: "'r read_io \<Rightarrow> 'w write_io \<Rightarrow> ('r, 'w, 'id, 'addr) connection
    \<Rightarrow> ('r, 'w, 'id, 'addr) connection \<Rightarrow> bool" where
  "connection_reaches rio wio \<equiv> reaches (connection_step rio wio)"

section \<open>What a turn changes\<close>

lemma session_turn_simps [simp]:
  "session_turn (Send f) s = (if writer_up s
     then s\<lparr>session_up := True, writer_box := writer_box s @ [f]\<rparr> else s\<lparr>session_up := True\<rparr>)"
  "session_turn (FrameReady f res) s = s\<lparr>session_up := \<not> is_err res, delivered := delivered s @ [f]\<rparr>"
  "session_turn (SessionSupervised evt) s = s\<lparr>session_up := \<not> child_exit (SessionSupervised evt)\<rparr>"
  by (cases evt; simp add: session_turn_def session_handle_def session_send_def session_frame_ready_def
      session_supervisor_evt_def halts_def)+

text \<open>The bytes of the length the reader has read and not yet used.\<close>

fun holds :: "reader_message \<Rightarrow> byte list" where
  "holds WaitForFrame = []"
| "holds (ReadFrame n) = be_bytes n"

lemma cut_be_bytes:
  "8 \<le> length bs \<Longrightarrow> cut_frames (be_bytes (from_be (take 8 bs)) @ drop 8 bs) = cut_frames bs"
  by (subst (1 2) cut_frames.simps) (simp add: length_be_bytes from_be_bytes)

lemma cut_held:
  "cut_frames (be_bytes n @ rest) =
    (if max_buffer < unat n then ([], TooLong)
     else if length rest < unat n then ([], Closed)
     else (case cut_frames (drop (unat n) rest) of (fs, e) \<Rightarrow> (take (unat n) rest # fs, e)))"
  by (subst cut_frames.simps) (simp add: length_be_bytes from_be_bytes Let_def)

definition turns_left :: "reader_message \<Rightarrow> byte list \<Rightarrow> nat" where
  "turns_left m bs = 2 * length bs + (case m of WaitForFrame \<Rightarrow> 0 | ReadFrame _ \<Rightarrow> 1)"

text \<open>
  A turn of the reader on a connection without errors: it ends the reader and passes no
  frame on, because there is none or the session refuses it, or what the reader still has
  to read is what it passed on and what is left.
\<close>

lemma reader_turn_lossless:
  assumes io: "lossless_reader rio pending"
  obtains (ends) "halts stops_reader (reader_handle rio sc m \<lparr>reader = Some h\<rparr>)"
      "to_session (effects (reader_handle rio sc m \<lparr>reader = Some h\<rparr>)) = []"
      "(\<forall>f. sc f = Ok_unit) \<longrightarrow> fst (cut_frames (holds m @ pending (read_stream h))) = []"
  | (goes) h' m' fs where "\<not> halts stops_reader (reader_handle rio sc m \<lparr>reader = Some h\<rparr>)"
      "state_of (reader_handle rio sc m \<lparr>reader = Some h\<rparr>) = \<lparr>reader = Some h'\<rparr>"
      "self_casts (effects (reader_handle rio sc m \<lparr>reader = Some h\<rparr>)) = [m']"
      "to_session (effects (reader_handle rio sc m \<lparr>reader = Some h\<rparr>)) = fs"
      "fst (cut_frames (holds m @ pending (read_stream h)))
        = fs @ fst (cut_frames (holds m' @ pending (read_stream h')))"
      "turns_left m' (pending (read_stream h')) < turns_left m (pending (read_stream h))"
proof (cases m)
  case WaitForFrame
  show ?thesis
    by (rule wait_turn_cases [OF io, of h sc])
      (use ends goes [of _ "ReadFrame (from_be (take 8 (pending (read_stream h))))" "[]"] WaitForFrame in
        \<open>simp_all add: halts_def cut_short cut_be_bytes turns_left_def\<close>)
next
  case (ReadFrame n)
  let ?p = "pending (read_stream h)"
  show ?thesis
  proof (rule read_turn_cases [OF io, of n sc h], goal_cases)
    case 1
    then show ?case using ends ReadFrame by (simp add: halts_def cut_held)
  next
    case 2
    then show ?case using ends ReadFrame by (simp add: halts_def cut_held)
  next
    case (3 h2)
    show ?case
    proof (cases "sc (take (unat n) ?p)")
      case (Inl e)
      then have "\<not> (\<forall>f. sc f = Ok_unit)" by (metis Inl_Inr_False)
      then show ?thesis using ends ReadFrame 3(4) Inl by (auto simp: halts_def)
    next
      case (Inr u)
      then show ?thesis
        using goes [of h2 WaitForFrame "[take (unat n) ?p]"] ReadFrame 3
        by (simp add: halts_def cut_held turns_left_def split: prod.splits)
    qed
  qed
qed

section \<open>Receiving\<close>

fun ready :: "tcp_session_message list \<Rightarrow> frame list" where
  "ready [] = []"
| "ready (MsgFrameReady f # ms) = f # ready ms"
| "ready (MsgSend _ # ms) = ready ms"

fun to_send :: "tcp_session_message list \<Rightarrow> frame list" where
  "to_send [] = []"
| "to_send (MsgSend f # ms) = f # to_send ms"
| "to_send (MsgFrameReady _ # ms) = to_send ms"

lemma queue_append [simp]:
  "ready (xs @ ys) = ready xs @ ready ys" "to_send (xs @ ys) = to_send xs @ to_send ys"
  by (induction xs rule: ready.induct) simp_all

lemma queue_ready [simp]:
  "ready (map MsgFrameReady fs) = fs" "to_send (map MsgFrameReady fs) = []"
  by (induction fs) simp_all

text \<open>
  What has been delivered, what waits in the session's mailbox and what the reader has not
  read yet are together the frames of the connection, in order.
\<close>

definition receiving :: "('r \<Rightarrow> byte list) \<Rightarrow> frame list \<Rightarrow> ('r, 'w, 'id, 'addr) connection \<Rightarrow> bool" where
  "receiving pending fs s \<longleftrightarrow>
    prefix (delivered s @ ready (session_box s)) fs
    \<and> (reader_up s \<longrightarrow> (\<exists>h m. reader_actor s = \<lparr>reader = Some h\<rparr> \<and> reader_box s = [m]
         \<and> fs = delivered s @ ready (session_box s) @ fst (cut_frames (holds m @ pending (read_stream h)))))"

lemma receiving_cong:
  assumes "receiving pending fs s" and "reader_actor s' = reader_actor s" and "reader_box s' = reader_box s"
    and "reader_up s' \<Longrightarrow> reader_up s"
    and "delivered s' @ ready (session_box s') = delivered s @ ready (session_box s)"
  shows "receiving pending fs s'"
  using assms by (auto simp: receiving_def)

lemma receiving_reader:
  assumes io: "lossless_reader rio pending" and inv: "receiving pending fs s"
    and up: "reader_up s" "reader_box s = m # ms"
  shows "receiving pending fs (reader_turn rio m (s\<lparr>reader_box := ms\<rparr>))"
proof -
  obtain h where h: "reader_actor s = \<lparr>reader = Some h\<rparr>" "ms = []"
    and fs: "fs = delivered s @ ready (session_box s) @ fst (cut_frames (holds m @ pending (read_stream h)))"
    using inv up by (auto simp: receiving_def)
  let ?s = "s\<lparr>reader_box := ms\<rparr>"
  show ?thesis
    by (rule reader_turn_lossless [OF io, of "session_cast_of ?s" m h])
      (use fs h in \<open>auto simp: reader_turn_def receiving_def Let_def\<close>)
qed

lemma connection_step_receiving:
  assumes "lossless_reader rio pending" and "connection_step rio wio s s'" and "receiving pending fs s"
  shows "receiving pending fs s'"
  using assms(2)
proof cases
  case (session_message m ms res)
  then show ?thesis
    by (cases m) (auto intro: receiving_cong [OF assms(3)])
next
  case (reader_reads m ms)
  then show ?thesis using receiving_reader [OF assms(1,3)] by simp
qed (auto intro: receiving_cong [OF assms(3)] simp: writer_turn_def Let_def)

interpretation recv: step_invariant "connection_step rio wio"
  "\<lambda>s. lossless_reader rio pending \<longrightarrow> receiving pending fs s" for rio wio pending fs
  by unfold_locales (blast intro: connection_step_receiving)

lemma connection_receiving:
  assumes "lossless_reader rio pending" and "connection_reaches rio wio (connection_init st r w) s"
  shows "receiving pending (fst (cut_frames (pending (read_stream r)))) s"
  using recv.inv_reaches [OF assms(2)] assms(1) by (simp add: receiving_def connection_init_def)

section \<open>Sending\<close>

text \<open>
  What is on the wire is some of the frames that were asked for, encoded, in order; while
  the writer is up the others wait in its mailbox and in the session's.
\<close>

definition sending :: "('w \<Rightarrow> byte list) \<Rightarrow> byte list \<Rightarrow> ('r, 'w, 'id, 'addr) connection \<Rightarrow> bool" where
  "sending sent sent0 s \<longleftrightarrow>
    (\<exists>h written. writer_actor s = \<lparr>writer = Some h\<rparr>
       \<and> sent (write_stream h) = sent0 @ concat (map encode_frame written)
       \<and> prefix written (requested s)
       \<and> (writer_up s \<longrightarrow> requested s = written @ writer_box s @ to_send (session_box s)))"

lemma sending_cong:
  assumes "sending sent sent0 s" and "writer_actor s' = writer_actor s"
    and "prefix (requested s) (requested s')"
    and "writer_up s' \<Longrightarrow> writer_up s"
    and "writer_up s' \<Longrightarrow> \<exists>new. requested s' = requested s @ new
       \<and> writer_box s' @ to_send (session_box s') = writer_box s @ to_send (session_box s) @ new"
  shows "sending sent sent0 s'"
proof -
  obtain h written where h: "writer_actor s = \<lparr>writer = Some h\<rparr>"
    "sent (write_stream h) = sent0 @ concat (map encode_frame written)" "prefix written (requested s)"
    "writer_up s \<longrightarrow> requested s = written @ writer_box s @ to_send (session_box s)"
    using assms(1) by (auto simp: sending_def)
  have "prefix written (requested s')" using h(3) assms(3) by (rule prefix_order.trans)
  moreover have "writer_up s' \<longrightarrow> requested s' = written @ writer_box s' @ to_send (session_box s')"
    using h(4) assms(4,5) by fastforce
  ultimately show ?thesis unfolding sending_def using h assms(2) by auto
qed

lemma sending_writer:
  assumes io: "lossless_writer wio sent" and inv: "sending sent sent0 s"
    and up: "writer_up s" "writer_box s = f # fs"
  shows "sending sent sent0 (writer_turn wio f (s\<lparr>writer_box := fs\<rparr>))"
proof -
  obtain h written where h: "writer_actor s = \<lparr>writer = Some h\<rparr>"
    "sent (write_stream h) = sent0 @ concat (map encode_frame written)"
    "requested s = written @ (f # fs) @ to_send (session_box s)"
    using inv up by (auto simp: sending_def)
  obtain h' where h': "writer_write wio f \<lparr>writer = Some h\<rparr> = Outcome \<lparr>writer = Some h'\<rparr> [] Ok_unit"
    "sent (write_stream h') = sent (write_stream h) @ encode_frame f"
    using writer_write_lossless [OF io] by blast
  then show ?thesis
    using h unfolding sending_def
    by (intro exI [of _ h'] exI [of _ "written @ [f]"]) (simp add: writer_turn_def halts_def Let_def)
qed

lemma connection_step_sending:
  assumes "lossless_writer wio sent" and "connection_step rio wio s s'" and "sending sent sent0 s"
  shows "sending sent sent0 s'"
  using assms(2)
proof cases
  case (session_message m ms res)
  then show ?thesis
    by (cases m) (auto intro: sending_cong [OF assms(3)])
next
  case (writer_writes f fs)
  then show ?thesis using sending_writer [OF assms(1,3)] by simp
qed (auto intro: sending_cong [OF assms(3)] simp: reader_turn_def Let_def)

interpretation send: step_invariant "connection_step rio wio"
  "\<lambda>s. lossless_writer wio sent \<longrightarrow> sending sent sent0 s" for rio wio sent sent0
  by unfold_locales (blast intro: connection_step_sending)

lemma connection_sending:
  assumes "lossless_writer wio sent" and "connection_reaches rio wio (connection_init st r w) s"
  shows "sending sent (sent (write_stream w)) s"
  using send.inv_reaches [OF assms(2)] assms(1) by (simp add: sending_def connection_init_def)

section \<open>Noticing a dead child\<close>

text \<open>A session that is up and has lost a child has that child's exit waiting.\<close>

definition noticed :: "('r, 'w, 'id, 'addr) connection \<Rightarrow> bool" where
  "noticed s \<longleftrightarrow> session_up s \<longrightarrow>
    (writer_up s \<and> reader_up s) \<or> (\<exists>evt \<in> set (session_evts s). child_exit (SessionSupervised evt))"

lemma exit_event_exits [simp]: "child_exit (SessionSupervised (exit_event cell reason r))"
  by (cases r) (simp_all add: exit_event_def)

lemma connection_step_noticed:
  assumes "connection_step rio wio s s'" and "noticed s"
  shows "noticed s'"
  using assms
proof cases
  case (session_message m ms res)
  then show ?thesis using assms(2) by (cases m) (auto simp: noticed_def)
qed (auto simp: noticed_def writer_turn_def reader_turn_def Let_def)

interpretation notice: step_invariant "connection_step rio wio" noticed for rio wio
  by unfold_locales (rule connection_step_noticed)

lemma connection_noticed:
  assumes "connection_reaches rio wio (connection_init st r w) s"
  shows "noticed s"
  using notice.inv_reaches [OF assms] by (simp add: noticed_def connection_init_def)

text \<open>
  The session alone takes the supervision events that are waiting, one turn for each, as long
  as it is up.
\<close>

primrec session_takes :: "'id supervision_event list \<Rightarrow> ('r, 'w, 'id, 'addr) connection
    \<Rightarrow> ('r, 'w, 'id, 'addr) connection" where
  "session_takes [] s = s"
| "session_takes (evt # evts) s =
    (if session_up s then session_takes evts (session_turn (SessionSupervised evt) (s\<lparr>session_evts := evts\<rparr>)) else s)"

lemma session_takes_reaches:
  "session_evts s = evts \<Longrightarrow> connection_reaches rio wio s (session_takes evts s)"
proof (induction evts arbitrary: s)
  case (Cons evt evts)
  let ?s = "session_turn (SessionSupervised evt) (s\<lparr>session_evts := evts\<rparr>)"
  have "connection_reaches rio wio s ?s" if "session_up s"
    using that Cons.prems by (intro reaches_one connection_step.session_event) auto
  moreover have "connection_reaches rio wio ?s (session_takes evts ?s)"
    by (rule Cons.IH) simp
  ultimately show ?case using reaches_trans by (auto simp: reaches.start)
qed (simp add: reaches.start)

lemma session_takes_down [simp]: "\<not> session_up s \<Longrightarrow> session_takes evts s = s"
  by (cases evts) simp_all

lemma session_takes_exit:
  "\<exists>evt \<in> set evts. child_exit (SessionSupervised evt) \<Longrightarrow> \<not> session_up (session_takes evts s)"
  by (induction evts arbitrary: s) auto

lemma session_takes_keeps [simp]:
  "delivered (session_takes evts s) = delivered s" "session_box (session_takes evts s) = session_box s"
  "requested (session_takes evts s) = requested s"
  by (induction evts arbitrary: s) simp_all

text \<open>A session that has ended hands nothing over any more.\<close>

lemma connection_step_ended:
  "connection_step rio wio s s' \<Longrightarrow> \<not> session_up s \<and> delivered s = ds \<Longrightarrow> \<not> session_up s' \<and> delivered s' = ds"
  by (erule connection_step.cases) (auto simp: writer_turn_def reader_turn_def Let_def)

interpretation ended: step_invariant "connection_step rio wio" "\<lambda>s. \<not> session_up s \<and> delivered s = ds" for rio wio ds
  by unfold_locales (rule connection_step_ended)

section \<open>A reader left to itself\<close>

lemma reader_finishes:
  assumes io: "lossless_reader rio pending"
    and "session_up s" and "reader_up s" and "reader_actor s = \<lparr>reader = Some h\<rparr>" and "reader_box s = [m]"
  shows "\<exists>s'. connection_reaches rio wio s s' \<and> session_up s' \<and> \<not> reader_up s'
    \<and> delivered s' = delivered s
    \<and> session_box s' = session_box s @ map MsgFrameReady (fst (cut_frames (holds m @ pending (read_stream h))))
    \<and> (\<exists>res. session_evts s' = session_evts s @ [exit_event (session_reader (session s)) (Some ''channel_closed'') res])"
  using assms(2-)
proof (induction "turns_left m (pending (read_stream h))" arbitrary: s h m rule: less_induct)
  case less
  let ?s = "reader_turn rio m (s\<lparr>reader_box := []\<rparr>)"
  have one: "connection_reaches rio wio s ?s"
    using less.prems by (auto intro: reaches.intros connection_step.reader_reads)
  have cast: "session_cast_of (s\<lparr>reader_box := []\<rparr>) = (\<lambda>_. Ok_unit)"
    using less.prems by (simp add: session_cast_of_def fun_eq_iff)
  show ?case
  proof (rule reader_turn_lossless [OF io, of "\<lambda>_. Ok_unit" m h])
    assume ends: "halts stops_reader (reader_handle rio (\<lambda>_. Ok_unit) m \<lparr>reader = Some h\<rparr>)"
      "to_session (effects (reader_handle rio (\<lambda>_. Ok_unit) m \<lparr>reader = Some h\<rparr>)) = []"
      "(\<forall>f :: frame. Ok_unit = Ok_unit) \<longrightarrow> fst (cut_frames (holds m @ pending (read_stream h))) = []"
    then show ?thesis
      using one less.prems by (intro exI [of _ ?s]) (simp add: reader_turn_def cast Let_def, blast)
  next
    fix h' m' fs
    assume goes: "\<not> halts stops_reader (reader_handle rio (\<lambda>_. Ok_unit) m \<lparr>reader = Some h\<rparr>)"
      "state_of (reader_handle rio (\<lambda>_. Ok_unit) m \<lparr>reader = Some h\<rparr>) = \<lparr>reader = Some h'\<rparr>"
      "self_casts (effects (reader_handle rio (\<lambda>_. Ok_unit) m \<lparr>reader = Some h\<rparr>)) = [m']"
      "to_session (effects (reader_handle rio (\<lambda>_. Ok_unit) m \<lparr>reader = Some h\<rparr>)) = fs"
      "fst (cut_frames (holds m @ pending (read_stream h)))
        = fs @ fst (cut_frames (holds m' @ pending (read_stream h')))"
      "turns_left m' (pending (read_stream h')) < turns_left m (pending (read_stream h))"
    have next_state: "session_up ?s" "reader_up ?s" "reader_actor ?s = \<lparr>reader = Some h'\<rparr>"
      "reader_box ?s = [m']" "delivered ?s = delivered s"
      "session_box ?s = session_box s @ map MsgFrameReady fs" "session_evts ?s = session_evts s" "session ?s = session s"
      using goes less.prems by (simp_all add: reader_turn_def cast Let_def)
    from less.hyps [OF goes(6) next_state(1-4)] show ?thesis
      using reaches_trans [OF _ one] next_state(5-8) goes(5) by auto
  qed
qed

text \<open>A session that takes its frames hands them all to a receiver that accepts them.\<close>

lemma session_takes_frames:
  "session_up s \<Longrightarrow> session_box s = map MsgFrameReady fs \<Longrightarrow>
   \<exists>s'. connection_reaches rio wio s s' \<and> delivered s' = delivered s @ fs"
proof (induction fs arbitrary: s)
  case Nil
  then show ?case by (intro exI [of _ s]) (simp add: reaches.start)
next
  case (Cons f fs)
  let ?s = "session_turn (input_of Ok_unit (MsgFrameReady f)) (s\<lparr>session_box := map MsgFrameReady fs\<rparr>)"
  have one: "connection_reaches rio wio s ?s"
    using Cons.prems
    by (intro reaches_one connection_step.session_message) auto
  obtain s' where "connection_reaches rio wio ?s s'" "delivered s' = delivered ?s @ fs"
    using Cons.IH [of ?s] by auto
  then show ?case using reaches_trans [OF _ one] by (intro exI [of _ s']) simp
qed

lemma reader_then_session:
  assumes "lossless_reader rio pending"
  obtains s where "connection_reaches rio wio (connection_init st r w) s" "session_up s"
    "delivered s = []" "session_box s = map MsgFrameReady (fst (cut_frames (pending (read_stream r))))"
    "\<exists>res. session_evts s = [ActorStarted (session_writer st), ActorStarted (session_reader st),
       exit_event (session_reader st) (Some ''channel_closed'') res]"
  using reader_finishes [OF assms, of "connection_init st r w" r WaitForFrame wio]
  by (auto simp: connection_init_def)

lemma receiver_may_get_all:
  assumes "lossless_reader rio pending"
  shows "\<exists>s. connection_reaches rio wio (connection_init st r w) s
    \<and> delivered s = fst (cut_frames (pending (read_stream r)))"
proof -
  obtain s where s: "connection_reaches rio wio (connection_init st r w) s" "session_up s"
      "delivered s = []" "session_box s = map MsgFrameReady (fst (cut_frames (pending (read_stream r))))"
    using reader_then_session [OF assms] by blast
  show ?thesis
    using session_takes_frames [OF s(2,4)] s(3) reaches_trans [OF _ s(1)] by fastforce
qed

section \<open>Prefixes of the wire\<close>

text \<open>A peer that has seen only some of the bytes has parsed only some of the frames.\<close>

lemma cut_frames_mono: "prefix (fst (cut_frames p)) (fst (cut_frames (p @ q)))"
proof (induction p rule: cut_frames.induct)
  case (1 p)
  let ?n = "unat (from_be (take 8 p))" and ?rest = "drop 8 p"
  show ?case
  proof (cases "length p < 8 \<or> max_buffer < ?n \<or> length ?rest < ?n")
    case True
    then have "fst (cut_frames p) = []" by (subst cut_frames.simps) (auto simp: Let_def)
    then show ?thesis by simp
  next
    case False
    then have "prefix (fst (cut_frames (drop ?n ?rest))) (fst (cut_frames (drop ?n ?rest @ q)))"
      using 1 [of ?n ?rest] by simp
    moreover have longer: "\<not> length (drop 8 (p @ q)) < ?n" using False by auto
    moreover have "fst (cut_frames p) = take ?n ?rest # fst (cut_frames (drop ?n ?rest))"
      using False by (subst cut_frames.simps) (simp add: Let_def split: prod.splits)
    moreover have "fst (cut_frames (p @ q)) = take ?n ?rest # fst (cut_frames (drop ?n ?rest @ q))"
      using False longer by (subst cut_frames.simps) (simp add: Let_def split: prod.splits)
    ultimately show ?thesis by simp
  qed
qed

section \<open>Properties\<close>

text \<open>
  C1. Two sessions exchange frames in order under any interleaving, on a connection without
  errors: the first end's writes and the second end's reads report none, and no frame that was
  asked for is longer than a buffer can be. However the actors of both ends then take turns,
  whoever is stopped when, whatever the receivers answer, and however much of what one end has
  put on the wire the other has seen: the frames the second end's receiver was called with are a
  prefix of the frames the first end's session was asked to send. No frame is altered, invented,
  repeated or overtaken. (After a failed write none of this holds: see
  \<open>writer_failures\<close> of \<open>Tcp_Session\<close>.)
\<close>

theorem connection_delivers_a_prefix:
  assumes "lossless_writer wio sent" and "lossless_reader rio pending"
    and "connection_reaches rio' wio (connection_init a r' w) sa" and "sent (write_stream w) = []"
    and "writer (writer_actor sa) = Some wire"
    and "prefix (pending (read_stream r)) (sent (write_stream wire))"
    and "connection_reaches rio wio' (connection_init b r w') sb"
    and "list_all (\<lambda>f. length f \<le> max_buffer) (requested sa)"
  shows "prefix (delivered sb) (requested sa)"
proof -
  obtain written where wire: "sent (write_stream wire) = concat (map encode_frame written)"
    and asked: "prefix written (requested sa)"
    using connection_sending [OF assms(1,3)] assms(4,5) by (auto simp: sending_def)
  have "list_all (\<lambda>f. length f \<le> max_buffer) written"
    using asked assms(8) by (auto simp: prefix_def)
  then have "fst (cut_frames (sent (write_stream wire))) = written"
    using wire cut_encoded_all [of written "[]"] by simp
  then have "prefix (fst (cut_frames (pending (read_stream r)))) written"
    using assms(6) cut_frames_mono by (metis prefixE)
  moreover have "prefix (delivered sb) (fst (cut_frames (pending (read_stream r))))"
    using connection_receiving [OF assms(2,7)] by (auto simp: receiving_def intro: append_prefixD)
  ultimately show ?thesis using asked by (blast intro: prefix_order.trans)
qed

text \<open>A session for the examples, and a run that sends one frame.\<close>

definition demo_session :: "(nat, string) session_state" where
  "demo_session = \<lparr>session_writer = \<lparr>get_id = 1, get_name = None\<rparr>,
     session_reader = \<lparr>get_id = 2, get_name = None\<rparr>,
     session_info = \<lparr>info_peer_addr = ''peer'', info_local_addr = ''local''\<rparr>\<rparr>"

lemma demo_sends:
  "\<exists>s. connection_reaches chunked_reader buffer_writer
      (connection_init demo_session (ReadRegular []) (WriteRegular [])) s
    \<and> requested s = [f] \<and> writer (writer_actor s) = Some (WriteRegular (encode_frame f))"
proof -
  let ?s0 = "connection_init demo_session (ReadRegular []) (WriteRegular []) ::
    (byte list list, byte list, nat, string) connection"
  let ?s1 = "?s0\<lparr>session_box := [MsgSend f], requested := [f]\<rparr>"
  let ?s2 = "?s0\<lparr>writer_box := [f], requested := [f]\<rparr>"
  let ?s3 = "writer_turn buffer_writer f (?s0\<lparr>requested := [f]\<rparr>)"
  let ?step = "connection_step chunked_reader buffer_writer"
  have "?step ?s0 ?s1"
    using connection_step.client_sends [of ?s0 chunked_reader buffer_writer f] by (simp add: connection_init_def)
  moreover have "?step ?s1 ?s2"
    using connection_step.session_message [of ?s1 "MsgSend f" "[]" chunked_reader buffer_writer]
    by (simp add: connection_init_def)
  moreover have "?step ?s2 ?s3"
    using connection_step.writer_writes [of ?s2 f "[]" chunked_reader buffer_writer]
    by (simp add: connection_init_def)
  ultimately have "connection_reaches chunked_reader buffer_writer ?s0 ?s3"
    by (meson reaches.intros)
  moreover have "requested ?s3 = [f] \<and> writer (writer_actor ?s3) = Some (WriteRegular (encode_frame f))"
    by (simp add: writer_turn_def connection_init_def buffer_writer_def writer_write_def await_writable_def
        write_u64_def write_all_def flush_def on_write_half_def encode_frame_def Let_def)
  ultimately show ?thesis by blast
qed

theorem connection_delivers_a_prefix_witness:
  "\<exists>(sa :: (byte list list, byte list, nat, string) connection)
     (sb :: (byte list list, byte list, nat, string) connection).
     requested sa = [[1, 2]] \<and> delivered sb = [[1, 2]] \<and> prefix (delivered sb) (requested sa)"
proof -
  obtain sa where sa: "connection_reaches chunked_reader buffer_writer
      (connection_init demo_session (ReadRegular []) (WriteRegular [])) sa"
    "requested sa = [[1, 2]]" "writer (writer_actor sa) = Some (WriteRegular (encode_frame [1, 2]))"
    using demo_sends by blast
  have "fst (cut_frames (encode_frame [1, 2])) = [[1, 2]]"
    using cut_encoded_all [of "[[1, 2]]" "[]"] by (simp add: max_buffer_def)
  then obtain sb where sb: "connection_reaches chunked_reader buffer_writer
      (connection_init demo_session (ReadRegular [encode_frame [1, 2]]) (WriteRegular [])) sb"
    "delivered sb = [[1, 2]]"
    using receiver_may_get_all [OF chunked_reader_lossless, where r = "ReadRegular [encode_frame [1, 2]]"]
    by fastforce
  have "prefix (delivered sb) (requested sa)"
    by (rule connection_delivers_a_prefix [OF buffer_writer_lossless chunked_reader_lossless sa(1) _ sa(3) _ sb(1)])
      (simp_all add: sa max_buffer_def)
  then show ?thesis using sa sb by blast
qed

text \<open>
  C14. No end stays half dead. If the reader or the writer of a session has ended, for any
  reason and on any connection, while the session is up, then the exit is waiting for the
  session; and when the session takes the supervision events it has, in their order and with
  nothing else happening, it ends, without handing over any frame that was still in its mailbox.
\<close>

theorem half_dead_session_ends:
  assumes "connection_reaches rio wio (connection_init st r w) s"
    and "session_up s" and "\<not> (writer_up s \<and> reader_up s)"
  shows "(\<exists>evt \<in> set (session_evts s). child_exit (SessionSupervised evt))
    \<and> (let s' = session_takes (session_evts s) s
       in connection_reaches rio wio s s' \<and> \<not> session_up s' \<and> delivered s' = delivered s
          \<and> session_box s' = session_box s)"
proof -
  have waiting: "\<exists>evt \<in> set (session_evts s). child_exit (SessionSupervised evt)"
    using connection_noticed [OF assms(1)] assms(2,3) by (auto simp: noticed_def)
  then show ?thesis by (simp add: session_takes_exit session_takes_reaches Let_def)
qed

theorem half_dead_session_ends_witness:
  "let s = reader_turn chunked_reader WaitForFrame
       ((connection_init demo_session (ReadRegular []) (WriteRegular ([] :: byte list)))\<lparr>reader_box := []\<rparr>)
   in session_up s \<and> \<not> session_up (session_takes (session_evts s) s)"
proof -
  let ?s0 = "connection_init demo_session (ReadRegular []) (WriteRegular []) ::
    (byte list list, byte list, nat, string) connection"
  let ?s1 = "reader_turn chunked_reader WaitForFrame (?s0\<lparr>reader_box := []\<rparr>)"
  have "connection_step chunked_reader buffer_writer ?s0 ?s1"
    by (rule connection_step.reader_reads) (simp_all add: connection_init_def)
  then have "connection_reaches chunked_reader buffer_writer ?s0 ?s1"
    by (meson reaches.intros)
  moreover have "session_up ?s1 \<and> \<not> reader_up ?s1"
    by (simp add: reader_turn_def connection_init_def reader_handle_def wait_for_frame_def read_u64_def
        on_read_half_def chunked_reader_def halts_def Let_def)
  ultimately show ?thesis
    using half_dead_session_ends [of chunked_reader buffer_writer demo_session "ReadRegular []" "WriteRegular []" ?s1]
    by (simp add: Let_def)
qed

text \<open>
  C19. What a peer sent before it closed may be lost. On every connection without read errors
  there is a run in which the receiver gets every complete frame the peer sent, and a run in
  which the reader reads them all and casts them to the session, and then ends, so that they and
  the reader's exit wait for a session that is still up. When the session takes its supervision
  events before its messages, which is the order of the actor runtime, it ends by the reader's
  exit with all the frames in its mailbox, and whatever happens afterwards, not a single one is
  ever handed over.
\<close>

theorem frames_may_be_lost_at_close:
  assumes "lossless_reader rio pending"
  shows "(\<exists>s. connection_reaches rio wio (connection_init st r w) s
        \<and> delivered s = fst (cut_frames (pending (read_stream r))))
    \<and> (\<exists>s res. connection_reaches rio wio (connection_init st r w) s \<and> session_up s \<and> delivered s = []
        \<and> session_box s = map MsgFrameReady (fst (cut_frames (pending (read_stream r))))
        \<and> session_evts s = [ActorStarted (session_writer st), ActorStarted (session_reader st),
             exit_event (session_reader st) (Some ''channel_closed'') res]
        \<and> (let s' = session_takes (session_evts s) s
           in connection_reaches rio wio s s' \<and> \<not> session_up s' \<and> session_box s' = session_box s
              \<and> (\<forall>t. connection_reaches rio wio s' t \<longrightarrow> delivered t = [])))"
proof (intro conjI receiver_may_get_all [OF assms])
  obtain s res where s: "connection_reaches rio wio (connection_init st r w) s" "session_up s" "delivered s = []"
      "session_box s = map MsgFrameReady (fst (cut_frames (pending (read_stream r))))"
      "session_evts s = [ActorStarted (session_writer st), ActorStarted (session_reader st),
         exit_event (session_reader st) (Some ''channel_closed'') res]"
    using reader_then_session [OF assms] by blast
  let ?s = "session_takes (session_evts s) s"
  have ends: "\<not> session_up ?s" by (rule session_takes_exit) (simp add: s(5))
  have "delivered t = []" if "connection_reaches rio wio ?s t" for t
    using ended.inv_reaches [OF that] ends s(3) by simp
  then show "\<exists>s res. connection_reaches rio wio (connection_init st r w) s \<and> session_up s \<and> delivered s = []
      \<and> session_box s = map MsgFrameReady (fst (cut_frames (pending (read_stream r))))
      \<and> session_evts s = [ActorStarted (session_writer st), ActorStarted (session_reader st),
           exit_event (session_reader st) (Some ''channel_closed'') res]
      \<and> (let s' = session_takes (session_evts s) s
         in connection_reaches rio wio s s' \<and> \<not> session_up s' \<and> session_box s' = session_box s
            \<and> (\<forall>t. connection_reaches rio wio s' t \<longrightarrow> delivered t = []))"
    using s ends session_takes_reaches [of s "session_evts s" rio wio]
    by (intro exI [of _ s] exI [of _ res]) (simp add: Let_def del: session_takes.simps)
qed

theorem frames_may_be_lost_at_close_witness:
  "\<exists>s res. connection_reaches chunked_reader buffer_writer (connection_init
        demo_session (ReadRegular [encode_frame [7]]) (WriteRegular [])) s
     \<and> session_box s = [MsgFrameReady [7]]
     \<and> session_evts s = [ActorStarted (session_writer demo_session), ActorStarted (session_reader demo_session),
          exit_event (session_reader demo_session) (Some ''channel_closed'') res]
     \<and> \<not> session_up (session_takes (session_evts s) s) \<and> delivered (session_takes (session_evts s) s) = []"
proof -
  have one: "fst (cut_frames (concat (read_stream (ReadRegular [encode_frame [7 :: byte]])))) = [[7]]"
    using cut_encoded_all [of "[[7]]" "[]"] by (simp add: max_buffer_def)
  show ?thesis
    using conjunct2 [OF frames_may_be_lost_at_close [OF chunked_reader_lossless, of buffer_writer demo_session
        "ReadRegular [encode_frame [7]]" "WriteRegular []"]] unfolding one Let_def list.map
    by (elim exE conjE, intro exI conjI) (assumption | simp del: session_takes.simps)+
qed

end
