(* ===== verification/Tcp_Listener.thy ===== *)
theory Tcp_Listener
  imports Tcp_Stream
begin

text \<open>
  The TCP listener of \<open>src/ractor_actors/src/net/tcp/listener.rs\<close>: an actor that owns a
  bound socket and accepts one connection for each message it sends itself, wraps it as the
  configured encryption asks for, and hands it to its acceptor.

  Binding, accepting, the address of a socket, the TLS handshake and the acceptor are the
  environment's: an input of the handler carries what each of them returns.
\<close>

section \<open>State and environment\<close>

record ('l, 'tls) listener_state =
  tcp_listener :: "'l option"
  encryption :: "'tls incoming_encryption_mode"

record 'tls listener_startup_args =
  port :: "16 word"
  args_encryption :: "'tls incoming_encryption_mode"

text \<open>What the environment answers to one turn of the handler.\<close>

record ('addr, 'sock, 'tls) accept_answers =
  accepted :: "string + 'sock \<times> 'addr"
  local_addr_of :: "'sock \<Rightarrow> string + 'addr"
  handshake :: "'tls \<Rightarrow> 'sock \<Rightarrow> string + 'sock"
  new_session :: "('addr, 'sock) network_stream \<Rightarrow> unit result"

datatype ('addr, 'sock) listener_effect =
    CastListener
  | NewSession "('addr, 'sock) network_stream"

section \<open>Handlers\<close>


text \<open>\<open>format!("[::]:{}", port)\<close>.\<close>

definition listen_addr :: "16 word \<Rightarrow> string" where
  "listen_addr p = ''[::]:'' @ decimal (unat p)"

definition listener_pre_start :: "(string \<Rightarrow> string + 'l) \<Rightarrow> 'tls listener_startup_args
    \<Rightarrow> (('l, 'tls) listener_state \<times> ('addr, 'sock) listener_effect list) result" where
  "listener_pre_start bind args =
    (case bind (listen_addr (port args)) of
       Inl err \<Rightarrow> Inl (Error err)
     | Inr l \<Rightarrow> Inr (\<lparr>tcp_listener = Some l, encryption = args_encryption args\<rparr>, [CastListener]))"

definition listener_post_stop :: "('l, 'tls) listener_state
    \<Rightarrow> (('l, 'tls) listener_state, ('addr, 'sock) listener_effect) outcome" where
  "listener_post_stop st = Outcome (st\<lparr>tcp_listener := None\<rparr>) [] Ok_unit"

text \<open>
  One turn. A connection that cannot be accepted or secured is skipped; an unknown local
  address or an acceptor that refuses the session fails the listener.
\<close>

definition accept :: "('addr, 'sock, 'tls) accept_answers \<Rightarrow> ('l, 'tls) listener_state
    \<Rightarrow> (('l, 'tls) listener_state, ('addr, 'sock) listener_effect) outcome" where
  "accept env st =
    (case tcp_listener st of
       None \<Rightarrow> Outcome st [CastListener] Ok_unit
     | Some l \<Rightarrow>
       (case accepted env of
          Inl socket_accept_error \<Rightarrow> Outcome st [CastListener] Ok_unit
        | Inr (sock, addr) \<Rightarrow>
          (case local_addr_of env sock of
             Inl err \<Rightarrow> Outcome st [] (Inl (Error err))
           | Inr here \<Rightarrow>
             (let strm = (case encryption st of
                 RawMode \<Rightarrow> Some (RawStream addr here sock)
               | Tls acceptor \<Rightarrow>
                 (case handshake env acceptor sock of
                    Inr enc_stream \<Rightarrow> Some (TlsServer addr here enc_stream)
                  | Inl some_err \<Rightarrow> None))
              in case strm of
                   None \<Rightarrow> Outcome st [CastListener] Ok_unit
                 | Some s \<Rightarrow>
                   (case new_session env s of
                      Inl err \<Rightarrow> Outcome st [NewSession s] (Inl err)
                    | Inr _ \<Rightarrow> Outcome st [NewSession s, CastListener] Ok_unit)))))"

section \<open>What one turn does\<close>

text \<open>The stream a turn offers to the acceptor, and what fails a turn.\<close>

definition offered_stream :: "'tls incoming_encryption_mode \<Rightarrow> ('addr, 'sock, 'tls) accept_answers
    \<Rightarrow> ('addr, 'sock) network_stream option" where
  "offered_stream mode env =
    (case accepted env of
       Inr (sock, addr) \<Rightarrow>
         (case (local_addr_of env sock, mode) of
            (Inr here, RawMode) \<Rightarrow> Some (RawStream addr here sock)
          | (Inr here, Tls acceptor) \<Rightarrow>
              (case handshake env acceptor sock of
                 Inr enc_stream \<Rightarrow> Some (TlsServer addr here enc_stream) | Inl _ \<Rightarrow> None)
          | _ \<Rightarrow> None)
     | Inl _ \<Rightarrow> None)"

definition fails_turn :: "'tls incoming_encryption_mode \<Rightarrow> ('addr, 'sock, 'tls) accept_answers \<Rightarrow> bool" where
  "fails_turn mode env =
    ((case accepted env of Inr (sock, addr) \<Rightarrow> is_err (local_addr_of env sock) | Inl _ \<Rightarrow> False)
     \<or> (case offered_stream mode env of Some s \<Rightarrow> is_err (new_session env s) | None \<Rightarrow> False))"

fun sessions_of :: "('addr, 'sock) listener_effect list \<Rightarrow> ('addr, 'sock) network_stream list" where
  "sessions_of [] = []"
| "sessions_of (NewSession s # es) = s # sessions_of es"
| "sessions_of (CastListener # es) = sessions_of es"

abbreviation turns_requested :: "('addr, 'sock) listener_effect list \<Rightarrow> nat" where
  "turns_requested es \<equiv> length (filter (\<lambda>e. e = CastListener) es)"

lemma sessions_of_append [simp]: "sessions_of (xs @ ys) = sessions_of xs @ sessions_of ys"
  by (induction xs rule: sessions_of.induct) simp_all

lemma accept_turn:
  assumes "tcp_listener st = Some l"
  shows "state_of (accept env st) = st"
    and "is_err (returned (accept env st)) \<longleftrightarrow> fails_turn (encryption st) env"
    and "sessions_of (effects (accept env st))
      = (case offered_stream (encryption st) env of Some s \<Rightarrow> [s] | None \<Rightarrow> [])"
    and "turns_requested (effects (accept env st)) = (if fails_turn (encryption st) env then 0 else 1)"
  using assms
  by (auto simp: accept_def fails_turn_def offered_stream_def Let_def
      split: sum.splits prod.splits incoming_encryption_mode.splits option.splits)

lemma listener_run:
  assumes "tcp_listener st = Some l" and "\<not> list_ex (fails_turn (encryption st)) envs"
  shows "state_of (run_actor accept (\<lambda>_. False) st envs) = st
    \<and> returned (run_actor accept (\<lambda>_. False) st envs) = Ok_unit
    \<and> sessions_of (effects (run_actor accept (\<lambda>_. False) st envs))
        = List.map_filter (offered_stream (encryption st)) envs
    \<and> turns_requested (effects (run_actor accept (\<lambda>_. False) st envs)) = length envs"
  using assms(2)
proof (induction envs)
  case (Cons env envs)
  have "\<not> halts (\<lambda>_. False) (accept env st)"
    using Cons.prems accept_turn(2) [OF assms(1), of env] by (simp add: halts_def list_ex_iff)
  then show ?case
    using Cons accept_turn [OF assms(1), of env]
    by (simp add: map_filter_simps split: option.splits)
qed (simp add: map_filter_simps)

section \<open>Properties\<close>

text \<open>
  C33. The listener outlives every bad connection: while no acceptor refuses a session and
  every accepted socket has a local address, the listener accepts on each turn and asks
  for exactly one more turn, so it never stops; the sessions it opens are, in order, the
  connections that were accepted and, in TLS mode, secured, each with its own addresses. It
  fails on the first turn where one of the two errors occurs, and then asks for no more.
\<close>

theorem listener_outlives_bad_connections:
  assumes "tcp_listener st = Some l" and "\<not> list_ex (fails_turn (encryption st)) envs"
    and "fails_turn (encryption st) bad"
  shows "let out = run_actor accept (\<lambda>_. False) st envs;
             dead = run_actor accept (\<lambda>_. False) st (envs @ bad # later)
    in returned out = Ok_unit \<and> state_of out = st
       \<and> sessions_of (effects out) = List.map_filter (offered_stream (encryption st)) envs
       \<and> turns_requested (effects out) = length envs
       \<and> is_err (returned dead) \<and> turns_requested (effects dead) = length envs"
proof -
  note run = listener_run [OF assms(1,2)]
  have nostop: "\<not> list_ex (\<lambda>_. False) es" for es :: "('c, 'd) listener_effect list"
    by (simp add: list_ex_iff)
  have go: "\<not> halts (\<lambda>_. False) (run_actor accept (\<lambda>_. False) st envs)"
    using run nostop by (simp add: halts_def)
  have "halts (\<lambda>_. False) (accept bad st)"
    using accept_turn(2) [OF assms(1), of bad] assms(3) by (simp add: halts_def)
  then have "run_actor accept (\<lambda>_. False) st (envs @ bad # later)
      = followed_by (run_actor accept (\<lambda>_. False) st envs) (accept bad st)"
    unfolding run_actor_append [OF go] using run by simp
  then show ?thesis
    using run accept_turn [OF assms(1), of bad] assms(3) by (simp add: Let_def)
qed

theorem listener_outlives_bad_connections_witness:
  "sessions_of (effects (run_actor accept (\<lambda>_. False)
      \<lparr>tcp_listener = Some (), encryption = Tls ()\<rparr>
      [\<lparr>accepted = Inl ''too many files'', local_addr_of = \<lambda>_. Inr ''l'', handshake = \<lambda>_ s. Inr s,
        new_session = \<lambda>_. Ok_unit\<rparr>,
       \<lparr>accepted = Inr (1 :: nat, ''p''), local_addr_of = \<lambda>_. Inr ''l'', handshake = \<lambda>_ _. Inl ''bad'',
        new_session = \<lambda>_. Ok_unit\<rparr>,
       \<lparr>accepted = Inr (2, ''q''), local_addr_of = \<lambda>_. Inr ''l'', handshake = \<lambda>_ s. Inr s,
        new_session = \<lambda>_. Ok_unit\<rparr>])) = [TlsServer ''q'' ''l'' 2]"
  using listener_outlives_bad_connections [of "\<lparr>tcp_listener = Some (), encryption = Tls ()\<rparr>" "()"
      "[\<lparr>accepted = Inl ''too many files'', local_addr_of = \<lambda>_. Inr ''l'', handshake = \<lambda>_ s. Inr s,
        new_session = \<lambda>_. Ok_unit\<rparr>,
       \<lparr>accepted = Inr (1 :: nat, ''p''), local_addr_of = \<lambda>_. Inr ''l'', handshake = \<lambda>_ _. Inl ''bad'',
        new_session = \<lambda>_. Ok_unit\<rparr>,
       \<lparr>accepted = Inr (2, ''q''), local_addr_of = \<lambda>_. Inr ''l'', handshake = \<lambda>_ s. Inr s,
        new_session = \<lambda>_. Ok_unit\<rparr>]"
      "\<lparr>accepted = Inr (3, ''r''), local_addr_of = \<lambda>_. Inl ''gone'', handshake = \<lambda>_ s. Inr s,
        new_session = \<lambda>_. Ok_unit\<rparr>" "[]"]
  by (simp add: fails_turn_def offered_stream_def Let_def)

end
