(* ===== verification/Dep_Tracker.thy ===== *)
theory Dep_Tracker
  imports Prelude "HOL-Library.Word" "HOL-Library.Product_Lexorder" "HOL-Library.List_Lexorder"
    "HOL-Library.Char_ord"
begin

text \<open>
  The dependency tracker of \<open>src/xtask/src\<close>: the command that checks the enabled
  dependencies of the configuration against crates.io, and for each one with a new
  Cargo-major version rewrites the manifest, updates the lock file and opens a pull request.

  The file system, the network and the programs the tool starts are an environment whose
  state is \<open>'x\<close>; the TOML document and the semantic versions are those of the crates
  \<open>toml_edit\<close> and \<open>semver\<close>. Their operations are the fields of the record \<open>sys\<close>, which
  every definition that uses them takes as an argument. What the tool writes and which
  programs it starts is recorded in a trace. Printing to the terminal is left out.
\<close>

section \<open>Versions, configuration and environment\<close>

record version =
  major :: "64 word"
  minor :: "64 word"
  patch :: "64 word"
  pre :: string
  build :: string

record settings =
  schedule :: string
  branch_prefix :: string
  labels :: "string list"
  draft_prs :: bool

record dependency_config =
  enabled :: bool
  track :: string
  bump_strategy :: string

record config =
  config_version :: "32 word"
  config_settings :: settings
  dependencies :: "(string, dependency_config) hashmap"

record check_deps_options =
  config_path :: string
  dry_run :: bool
  no_push :: bool
  ci :: bool

record version_info =
  num :: string
  yanked :: bool

datatype action =
    WriteManifest string
  | Exec string "string list"

record 'x tool_state =
  world :: 'x
  trace :: "action list"

text \<open>
  \<open>http_get\<close> is the request to crates.io: a transport error, or whether the status was a
  success, the status, and the decoded body. \<open>exec\<close> starts a program: an error if it
  cannot be started, or whether it succeeded, and its standard error. \<open>dep_version\<close> and
  \<open>dep_str\<close> are the two look-ups \<open>doc["dependencies"][name]["version"].as_str()\<close> and
  \<open>doc["dependencies"][name].as_str()\<close>; indexing a document may panic. \<open>package_version\<close> is \<open>doc["package"]["version"].as_str()\<close> in the
  same way: a missing key panics, a value that is not a string is no version.
\<close>

record ('x, 'd) sys =
  http_get :: "string \<Rightarrow> 'x \<Rightarrow> (string + bool \<times> string \<times> (string + version_info list)) \<times> 'x"
  read_config :: "string \<Rightarrow> 'x \<Rightarrow> string + config"
  read_manifest :: "'x \<Rightarrow> string + string"
  write_manifest :: "string \<Rightarrow> 'x \<Rightarrow> (string + unit) \<times> 'x"
  exec :: "string \<Rightarrow> string list \<Rightarrow> 'x \<Rightarrow> (string + bool \<times> string) \<times> 'x"
  toml_parse :: "string \<Rightarrow> string + 'd"
  toml_print :: "'d \<Rightarrow> string"
  dep_version :: "'d \<Rightarrow> string \<Rightarrow> fault + string option"
  dep_str :: "'d \<Rightarrow> string \<Rightarrow> fault + string option"
  dep_is_table :: "'d \<Rightarrow> string \<Rightarrow> bool"
  dep_is_str :: "'d \<Rightarrow> string \<Rightarrow> bool"
  set_dep_version :: "string \<Rightarrow> string \<Rightarrow> 'd \<Rightarrow> 'd"
  set_dep_str :: "string \<Rightarrow> string \<Rightarrow> 'd \<Rightarrow> 'd"
  package_version :: "'d \<Rightarrow> fault + string option"
  set_package_version :: "string \<Rightarrow> 'd \<Rightarrow> 'd"
  version_parse :: "string \<Rightarrow> version option"
  version_string :: "version \<Rightarrow> string"
  version_less :: "version \<Rightarrow> version \<Rightarrow> bool"
  caret_matches :: "version \<Rightarrow> version \<Rightarrow> bool"

section \<open>Versions: \<open>deps/version.rs\<close> and \<open>deps/crates_io.rs\<close>\<close>

definition is_major_update :: "('x, 'd) sys \<Rightarrow> version \<Rightarrow> version \<Rightarrow> bool" where
  "is_major_update sys current latest \<longleftrightarrow>
     version_less sys current latest \<and> \<not> caret_matches sys current latest"

definition is_minor_update :: "('x, 'd) sys \<Rightarrow> version \<Rightarrow> version \<Rightarrow> bool" where
  "is_minor_update sys current latest \<longleftrightarrow>
     version_less sys current latest \<and> caret_matches sys current latest"

text \<open>The tool is built with overflow checks: the sum panics at the largest number.\<close>

definition checked_inc :: "64 word \<Rightarrow> 64 word result" where
  "checked_inc n = (if n = - 1 then Inl (Panic ''attempt to add with overflow'') else Inr (n + 1))"

definition version_new :: "64 word \<Rightarrow> 64 word \<Rightarrow> 64 word \<Rightarrow> version" where
  "version_new ma mi pa = \<lparr>major = ma, minor = mi, patch = pa, pre = '''', build = ''''\<rparr>"

definition bump_version :: "version \<Rightarrow> string \<Rightarrow> version result" where
  "bump_version current strategy =
    (if strategy = ''major'' then map_sum id (\<lambda>n. version_new n 0 0) (checked_inc (major current))
     else if strategy = ''minor'' then
       map_sum id (\<lambda>n. version_new (major current) n 0) (checked_inc (minor current))
     else if strategy = ''patch'' then
       map_sum id (\<lambda>n. version_new (major current) (minor current) n) (checked_inc (patch current))
     else Inr current)"

text \<open>\<open>Iterator::max\<close>: of equally great elements, the last one.\<close>

fun last_max :: "('a \<Rightarrow> 'a \<Rightarrow> bool) \<Rightarrow> 'a list \<Rightarrow> 'a option" where
  "last_max lt [] = None"
| "last_max lt (x # xs) = Some (foldl (\<lambda>best y. if lt y best then best else y) x xs)"

definition stable_versions :: "('x, 'd) sys \<Rightarrow> version_info list \<Rightarrow> version list" where
  "stable_versions sys vs =
     filter (\<lambda>v. pre v = '''') (List.map_filter (\<lambda>i. version_parse sys (num i)) (filter (\<lambda>i. \<not> yanked i) vs))"

definition get_latest_major_version :: "('x, 'd) sys \<Rightarrow> string \<Rightarrow> 'x tool_state
    \<Rightarrow> version result \<times> 'x tool_state" where
  "get_latest_major_version sys crate st =
    (case http_get sys (''https://crates.io/api/v1/crates/'' @ crate) (world st) of (resp, w) \<Rightarrow>
      (let st' = st\<lparr>world := w\<rparr>
       in case resp of
            Inl _ \<Rightarrow> (Inl (Error ''Failed to send request to crates.io''), st')
          | Inr (success, status, body) \<Rightarrow>
            (if \<not> success then (Inl (Error (''crates.io API returned error: '' @ status)), st')
             else case body of
                    Inl _ \<Rightarrow> (Inl (Error ''Failed to parse crates.io response''), st')
                  | Inr vs \<Rightarrow>
                    (case last_max (version_less sys) (stable_versions sys vs) of
                       None \<Rightarrow> (Inl (Error ''No stable versions found''), st')
                     | Some v \<Rightarrow> (Inr v, st')))))"

section \<open>The manifest: \<open>deps/updater.rs\<close>\<close>

definition split_dots :: "string \<Rightarrow> string list" where
  "split_dots s = foldr (\<lambda>c parts. if c = CHR ''.'' then [] # parts
     else (c # hd parts) # tl parts) s [[]]"

definition complete_version :: "string \<Rightarrow> string" where
  "complete_version req =
    (case split_dots req of
       [p0] \<Rightarrow> p0 @ ''.0.0''
     | [p0, p1] \<Rightarrow> p0 @ ''.'' @ p1 @ ''.0''
     | _ \<Rightarrow> req)"

definition current_version_in :: "('x, 'd) sys \<Rightarrow> string \<Rightarrow> string \<Rightarrow> version result" where
  "current_version_in sys dep content =
    (case toml_parse sys content of
       Inl _ \<Rightarrow> Inl (Error ''Failed to parse Cargo.toml'')
     | Inr doc \<Rightarrow>
       (case (case dep_version sys doc dep of
                Inl p \<Rightarrow> Inl p
              | Inr (Some s) \<Rightarrow> Inr (Some s)
              | Inr None \<Rightarrow> dep_str sys doc dep) of
          Inl p \<Rightarrow> Inl p
        | Inr None \<Rightarrow> Inl (Error (''Dependency '' @ dep @ '' not found''))
        | Inr (Some version_str) \<Rightarrow>
          (let version_req = dropWhile (\<lambda>c. c = CHR ''~'') (dropWhile (\<lambda>c. c = CHR ''^'') version_str)
           in case version_parse sys version_req of
                Some v \<Rightarrow> Inr v
              | None \<Rightarrow>
                (case version_parse sys (complete_version version_req) of
                   Some v \<Rightarrow> Inr v
                 | None \<Rightarrow> Inl (Error (''Failed to parse version: '' @ version_str))))))"

definition get_current_version :: "('x, 'd) sys \<Rightarrow> string \<Rightarrow> 'x tool_state \<Rightarrow> version result" where
  "get_current_version sys dep st =
    (case read_manifest sys (world st) of
       Inl _ \<Rightarrow> Inl (Error ''Failed to read Cargo.toml'')
     | Inr content \<Rightarrow> current_version_in sys dep content)"

text \<open>Starting a program, and writing the manifest, are recorded.\<close>

definition run_program :: "('x, 'd) sys \<Rightarrow> string \<Rightarrow> string list \<Rightarrow> 'x tool_state
    \<Rightarrow> (string + bool \<times> string) \<times> 'x tool_state" where
  "run_program sys prog args st =
    (case exec sys prog args (world st) of (r, w) \<Rightarrow>
       (r, \<lparr>world = w, trace = trace st @ [Exec prog args]\<rparr>))"

definition update_lockfile :: "('x, 'd) sys \<Rightarrow> string \<Rightarrow> string \<Rightarrow> 'x tool_state
    \<Rightarrow> unit result \<times> 'x tool_state" where
  "update_lockfile sys dep new_version st =
    (case run_program sys ''cargo'' [''update'', ''-p'', dep, ''--precise'', new_version] st of
       (Inl _, st') \<Rightarrow> (Inl (Error ''Failed to run cargo update''), st')
     | (Inr (success, stderr), st') \<Rightarrow>
         (if success then Ok_unit else Inl (Error (''cargo update failed: '' @ stderr)), st'))"

definition set_dependency :: "('x, 'd) sys \<Rightarrow> string \<Rightarrow> string \<Rightarrow> 'd \<Rightarrow> 'd option" where
  "set_dependency sys dep new_version doc =
    (if dep_is_table sys doc dep then Some (set_dep_version sys dep new_version doc)
     else if dep_is_str sys doc dep then Some (set_dep_str sys dep new_version doc)
     else None)"

definition update_dependency :: "('x, 'd) sys \<Rightarrow> string \<Rightarrow> string \<Rightarrow> string \<Rightarrow> 'x tool_state
    \<Rightarrow> unit result \<times> 'x tool_state" where
  "update_dependency sys dep new_version strategy st =
    (case read_manifest sys (world st) of
       Inl _ \<Rightarrow> (Inl (Error ''Failed to read Cargo.toml''), st)
     | Inr content \<Rightarrow>
     (case toml_parse sys content of
       Inl _ \<Rightarrow> (Inl (Error ''Failed to parse Cargo.toml''), st)
     | Inr doc \<Rightarrow>
     (case set_dependency sys dep new_version doc of
       None \<Rightarrow> (Inl (Error (''Dependency '' @ dep @ '' not found or has unexpected format'')), st)
     | Some doc' \<Rightarrow>
     (case package_version sys doc' of
       Inl p \<Rightarrow> (Inl p, st)
     | Inr None \<Rightarrow> (Inl (Error ''Failed to get current ractor_actors version''), st)
     | Inr (Some current_version_str) \<Rightarrow>
     (case version_parse sys current_version_str of
       None \<Rightarrow> (Inl (Error ''Failed to parse current version''), st)
     | Some current_version \<Rightarrow>
     (case bump_version current_version strategy of
       Inl p \<Rightarrow> (Inl p, st)
     | Inr new_ractor_version \<Rightarrow>
       (let text = toml_print sys (set_package_version sys (version_string sys new_ractor_version) doc')
        in case write_manifest sys text (world st) of (written, w) \<Rightarrow>
          (let st' = \<lparr>world = w, trace = trace st @ [WriteManifest text]\<rparr>
           in case written of
                Inl _ \<Rightarrow> (Inl (Error ''Failed to write Cargo.toml''), st')
              | Inr _ \<Rightarrow> update_lockfile sys dep new_version st'))))))))"

section \<open>Pull requests: \<open>deps/pr_generator.rs\<close>\<close>

definition then_do :: "('s \<Rightarrow> unit result \<times> 's) \<Rightarrow> ('s \<Rightarrow> unit result \<times> 's) \<Rightarrow> 's \<Rightarrow> unit result \<times> 's" where
  "then_do f g st = (case f st of (Inl e, st') \<Rightarrow> (Inl e, st') | (Inr _, st') \<Rightarrow> g st')"

fun join :: "string \<Rightarrow> string list \<Rightarrow> string" where
  "join sep [] = ''''"
| "join sep [x] = x"
| "join sep (x # xs) = x @ sep @ join sep xs"

definition whitespace :: "char \<Rightarrow> bool" where
  "whitespace c \<longleftrightarrow> c \<in> {CHR '' '', CHR 0x09, CHR 0x0A, CHR 0x0B, CHR 0x0C, CHR 0x0D}"

definition trim :: "string \<Rightarrow> string" where
  "trim s = rev (dropWhile whitespace (rev (dropWhile whitespace s)))"

definition run_git :: "('x, 'd) sys \<Rightarrow> string list \<Rightarrow> 'x tool_state \<Rightarrow> unit result \<times> 'x tool_state" where
  "run_git sys args st =
    (case run_program sys ''git'' args st of
       (Inl _, st') \<Rightarrow> (Inl (Error (''Failed to spawn `git '' @ join '' '' args @ ''`'')), st')
     | (Inr (success, stderr), st') \<Rightarrow>
         (if success then Ok_unit
          else Inl (Error (''`git '' @ join '' '' args @ ''` failed: '' @ trim stderr)), st'))"

definition run_gh :: "('x, 'd) sys \<Rightarrow> string list \<Rightarrow> 'x tool_state \<Rightarrow> unit result \<times> 'x tool_state" where
  "run_gh sys args st =
    (case run_program sys ''gh'' args st of
       (Inl _, st') \<Rightarrow> (Inl (Error ''Failed to create PR with gh CLI''), st')
     | (Inr (success, stderr), st') \<Rightarrow>
         (if success then Ok_unit else Inl (Error (''gh pr create failed: '' @ stderr)), st'))"

definition get_changelog_url :: "string \<Rightarrow> string" where
  "get_changelog_url dep =
    (if dep = ''ractor'' then ''https://github.com/slawlor/ractor/releases''
     else if dep = ''chrono'' then ''https://github.com/chronotope/chrono/blob/main/CHANGELOG.md''
     else if dep = ''cron'' then ''https://github.com/zslayton/cron/releases''
     else if dep = ''notify'' then ''https://github.com/notify-rs/notify/blob/main/CHANGELOG.md''
     else ''https://crates.io/crates/'' @ dep @ ''/versions'')"

text \<open>
  The text of the pull request, line by line. Strings are the bytes of their UTF-8 encoding,
  and the four characters of the text beyond ASCII are written as such.
\<close>

definition arrow :: string where "arrow = [CHR 0xE2, CHR 0x86, CHR 0x92]"
definition package_sign :: string where "package_sign = [CHR 0xF0, CHR 0x9F, CHR 0x93, CHR 0xA6]"
definition memo_sign :: string where "memo_sign = [CHR 0xF0, CHR 0x9F, CHR 0x93, CHR 0x9D]"
definition lens_sign :: string where "lens_sign = [CHR 0xF0, CHR 0x9F, CHR 0x94, CHR 0x8D]"

definition generate :: "string \<Rightarrow> string \<Rightarrow> string \<Rightarrow> string" where
  "generate dep_name old_version new_version =
    concat (map (\<lambda>line. line @ [CHR 0x0A])
     [''## Dependency Update: '' @ dep_name @ '' '' @ old_version @ '' '' @ arrow @ '' '' @ new_version,
      '''',
      ''This PR updates **'' @ dep_name @ ''** from version **'' @ old_version @ ''** to **'' @ new_version @ ''**.'',
      '''',
      ''### Links'',
      '''',
      ''- '' @ package_sign @ '' [crates.io](https://crates.io/crates/'' @ dep_name @ '')'',
      ''- '' @ memo_sign @ '' [Changelog/Releases]('' @ get_changelog_url dep_name @ '')'',
      ''- '' @ lens_sign @ '' [Diff](https://github.com/search?q=repo%3Aslawlor%2Fractor_actors+'' @ dep_name
        @ ''&type=commits)'',
      '''',
      ''### Changes'',
      '''',
      ''This is a **major version update** and may include breaking changes. Please review the changelog ''
        @ ''for migration notes.'',
      '''',
      ''### Version Bump'',
      '''',
      ''The `ractor_actors` version has been bumped accordingly to reflect this dependency update.'',
      '''',
      ''### Checklist'',
      '''',
      ''- [ ] Reviewed changelog for breaking changes'',
      ''- [ ] Tests pass locally'',
      ''- [ ] CI passes'',
      '''',
      ''---'',
      '''',
      ''*This PR was automatically generated by the dependency tracker workflow.*''])"

definition branch_name :: "string \<Rightarrow> string \<Rightarrow> string" where
  "branch_name dep new_version = ''auto-deps/'' @ dep @ ''-'' @ new_version"

definition gh_args :: "string \<Rightarrow> string \<Rightarrow> string list \<Rightarrow> string list" where
  "gh_args title description labs =
     [''pr'', ''create'', ''--title'', title, ''--body'', description, ''--base'', ''main'']
     @ (if labs \<noteq> [] then [''--label'', join '','' labs] else [])"

definition commit_msg :: "string \<Rightarrow> string \<Rightarrow> string" where
  "commit_msg dep new_version = ''deps: Update '' @ dep @ '' to '' @ new_version"

definition create_pr :: "('x, 'd) sys \<Rightarrow> string \<Rightarrow> string \<Rightarrow> string \<Rightarrow> string list \<Rightarrow> 'x tool_state
    \<Rightarrow> unit result \<times> 'x tool_state" where
  "create_pr sys dep new_version description labs st =
    (let branch = branch_name dep new_version
     in case run_program sys ''git'' [''rev-parse'', ''--verify'', branch] st of (r, st1) \<Rightarrow>
          (let branch_exists = (case r of Inr (success, _) \<Rightarrow> success | Inl _ \<Rightarrow> False)
           in if branch_exists then (Ok_unit, st1)
              else then_do (run_git sys [''checkout'', ''-b'', branch])
                  (then_do (run_git sys [''add'', ''ractor_actors/Cargo.toml'', ''Cargo.lock''])
                  (then_do (run_git sys [''commit'', ''-m'', commit_msg dep new_version])
                  (then_do (run_git sys [''push'', ''-u'', ''origin'', branch])
                  (then_do (run_gh sys (gh_args (commit_msg dep new_version) description labs))
                           (run_git sys [''checkout'', ''-'']))))) st1))"

section \<open>The command: \<open>deps/mod.rs\<close> and \<open>deps/config.rs\<close>\<close>

definition load_config :: "('x, 'd) sys \<Rightarrow> string \<Rightarrow> 'x tool_state \<Rightarrow> config result" where
  "load_config sys path st =
    (case read_config sys path (world st) of
       Inl err \<Rightarrow> Inl (Error err)
     | Inr cfg \<Rightarrow> if config_version cfg \<noteq> 1 then Inl (Error (''Unsupported config version: '' @ decimal (unat (config_version cfg))))
         else Inr cfg)"

text \<open>
  One turn of the loop over the dependencies: whether an update was found. An error is
  printed and the loop goes on; a panic ends the tool.
\<close>

definition check_dependency :: "('x, 'd) sys
    \<Rightarrow> check_deps_options \<Rightarrow> string list \<Rightarrow> string \<Rightarrow> dependency_config \<Rightarrow> 'x tool_state
    \<Rightarrow> bool result \<times> 'x tool_state" where
  "check_dependency sys options labs dep dep_config st =
    (if \<not> enabled dep_config then (Inr False, st)
     else case get_latest_major_version sys dep st of
       (Inl (Panic p), st1) \<Rightarrow> (Inl (Panic p), st1)
     | (Inl (Error e), st1) \<Rightarrow> (Inr False, st1)
     | (Inr latest, st1) \<Rightarrow>
     (case get_current_version sys dep st1 of
       Inl (Panic p) \<Rightarrow> (Inl (Panic p), st1)
     | Inl (Error e) \<Rightarrow> (Inr False, st1)
     | Inr current \<Rightarrow>
       if \<not> is_major_update sys current latest then (Inr False, st1)
       else if dry_run options then (Inr True, st1)
       else case update_dependency sys dep (version_string sys latest) (bump_strategy dep_config) st1 of
         (Inl (Panic p), st2) \<Rightarrow> (Inl (Panic p), st2)
       | (Inl (Error e), st2) \<Rightarrow> (Inr True, st2)
       | (Inr _, st2) \<Rightarrow>
         (let description = generate dep (version_string sys current) (version_string sys latest)
          in if \<not> no_push options \<and> ci options
             then (case create_pr sys dep (version_string sys latest) description labs st2 of
                     (_, st3) \<Rightarrow> (Inr True, st3))
             else (Inr True, st2))))"

fun check_all :: "('x, 'd) sys \<Rightarrow> check_deps_options
    \<Rightarrow> string list \<Rightarrow> (string \<times> dependency_config) list \<Rightarrow> bool \<Rightarrow> 'x tool_state
    \<Rightarrow> bool result \<times> 'x tool_state" where
  "check_all sys options labs [] updates_found st = (Inr updates_found, st)"
| "check_all sys options labs ((dep, dep_config) # deps) updates_found st =
    (case check_dependency sys options labs dep dep_config st of
       (Inl p, st') \<Rightarrow> (Inl p, st')
     | (Inr found, st') \<Rightarrow> check_all sys options labs deps (updates_found \<or> found) st')"

text \<open>
  The clients the command sets up. \<open>builder\<close> is the builder of the \<open>reqwest\<close> client with its two
  settings; \<open>manifest_dir\<close> is the directory of the tool at build time. The parent of a path is
  what is before its last component.
\<close>

definition user_agent :: string where
  "user_agent = ''ractor-dependency-tracker (https://github.com/slawlor/ractor)''"

definition crates_io_client :: "(string \<Rightarrow> nat \<Rightarrow> string + 'client) \<Rightarrow> 'client result" where
  "crates_io_client builder =
    (case builder user_agent 30 of
       Inl _ \<Rightarrow> Inl (Error ''Failed to create HTTP client'')
     | Inr client \<Rightarrow> Inr client)"

definition unslashed :: "string \<Rightarrow> string" where
  "unslashed p = rev (dropWhile (\<lambda>c. c = CHR 0x2F) (rev p))"

definition path_parent :: "string \<Rightarrow> string option" where
  "path_parent p =
    (if unslashed p = '''' then None
     else let before = rev (dropWhile (\<lambda>c. c \<noteq> CHR 0x2F) (rev (unslashed p)))
          in Some (if before \<noteq> '''' \<and> unslashed before = '''' then ''/'' else unslashed before))"

definition path_join :: "string \<Rightarrow> string \<Rightarrow> string" where
  "path_join p q = (if p = '''' \<or> last p = CHR 0x2F then p @ q else p @ ''/'' @ q)"

record dependency_updater =
  workspace_root :: string
  ractor_actors_manifest :: string

definition updater_new :: "string \<Rightarrow> dependency_updater result" where
  "updater_new manifest_dir =
    (case path_parent manifest_dir of
       None \<Rightarrow> Inl (Error ''Failed to get workspace root'')
     | Some root \<Rightarrow> Inr \<lparr>workspace_root = root, ractor_actors_manifest = path_join root ''ractor_actors/Cargo.toml''\<rparr>)"

definition check_dependencies :: "('x, 'd) sys
    \<Rightarrow> (string, dependency_config) iter_order \<Rightarrow> string \<Rightarrow> (string \<Rightarrow> nat \<Rightarrow> string + 'client) \<Rightarrow> check_deps_options
    \<Rightarrow> 'x tool_state \<Rightarrow> bool result \<times> 'x tool_state" where
  "check_dependencies sys ord manifest_dir builder options st =
    (case load_config sys (config_path options) st of
       Inl e \<Rightarrow> (Inl e, st)
     | Inr cfg \<Rightarrow>
       (case crates_io_client builder of
          Inl e \<Rightarrow> (Inl e, st)
        | Inr crates_io \<Rightarrow>
          (case updater_new manifest_dir of
             Inl e \<Rightarrow> (Inl e, st)
           | Inr updater \<Rightarrow> check_all sys options (labels (config_settings cfg)) (ord (dependencies cfg)) False st)))"

definition is_dependency_tracker_command :: "string option \<Rightarrow> bool" where
  "is_dependency_tracker_command command \<longleftrightarrow> command = Some ''check-deps''"

text \<open>
  \<open>main\<close>: any other command is handed to the \<open>xtaskops\<close> crate; the command line is parsed by
  \<open>clap\<close>, which ends the program on a usage error. Both are parameters.
\<close>

datatype commands = CheckDeps string bool bool bool

definition tool_main :: "('x, 'd) sys \<Rightarrow> (string, dependency_config) iter_order \<Rightarrow> string
    \<Rightarrow> (string \<Rightarrow> nat \<Rightarrow> string + 'client) \<Rightarrow> ('x tool_state \<Rightarrow> unit result \<times> 'x tool_state)
    \<Rightarrow> (string list \<Rightarrow> string + commands option) \<Rightarrow> string list
    \<Rightarrow> 'x tool_state \<Rightarrow> unit result \<times> 'x tool_state" where
  "tool_main sys ord manifest_dir builder xtaskops cli_parse argv st =
    (if \<not> is_dependency_tracker_command (if 1 < length argv then Some (argv ! 1) else None)
     then xtaskops st
     else case cli_parse argv of
       Inl usage \<Rightarrow> (Inl (Error usage), st)
     | Inr None \<Rightarrow> (Inl (Panic (''internal error: entered unreachable code: ''
         @ ''the check-deps command was detected before parsing'')), st)
     | Inr (Some (CheckDeps path dry no_p in_c)) \<Rightarrow>
         (let options = \<lparr>config_path = path, dry_run = dry, no_push = no_p, ci = in_c\<rparr>
          in map_prod (map_sum id (\<lambda>_. ())) id (check_dependencies sys ord manifest_dir builder options st)))"

section \<open>What the tool did\<close>

definition adds :: "(action \<Rightarrow> bool) \<Rightarrow> 'x tool_state \<Rightarrow> 'x tool_state \<Rightarrow> bool" where
  "adds P st st' \<longleftrightarrow> (\<exists>acts. trace st' = trace st @ acts \<and> list_all P acts)"

lemma adds_refl [simp, intro]: "adds P st st"
  by (simp add: adds_def)

lemma adds_trans: "adds P a b \<Longrightarrow> adds P b c \<Longrightarrow> adds P a c"
  by (auto simp: adds_def)

lemma run_program_trace: "trace (snd (run_program sys prog args st)) = trace st @ [Exec prog args]"
  by (simp add: run_program_def split: prod.splits)

lemma run_git_trace: "trace (snd (run_git sys args st)) = trace st @ [Exec ''git'' args]"
  using run_program_trace [of sys "''git''" args st]
  by (auto simp: run_git_def split: prod.splits sum.splits)

lemma run_gh_trace: "trace (snd (run_gh sys args st)) = trace st @ [Exec ''gh'' args]"
  using run_program_trace [of sys "''gh''" args st]
  by (auto simp: run_gh_def split: prod.splits sum.splits)

lemma lockfile_trace: "trace (snd (update_lockfile sys dep v st))
    = trace st @ [Exec ''cargo'' [''update'', ''-p'', dep, ''--precise'', v]]"
  using run_program_trace [of sys "''cargo''" "[''update'', ''-p'', dep, ''--precise'', v]" st]
  by (auto simp: update_lockfile_def split: prod.splits sum.splits)

lemma fetch_trace [simp]: "trace (snd (get_latest_major_version sys dep st)) = trace st"
  by (auto simp: get_latest_major_version_def Let_def split: prod.splits sum.splits option.splits)

text \<open>A chain of commands: it runs a prefix of them, all of them when it succeeds.\<close>

definition runs_prefix :: "('x tool_state \<Rightarrow> unit result \<times> 'x tool_state) \<Rightarrow> action list \<Rightarrow> bool" where
  "runs_prefix f acts \<longleftrightarrow> (\<forall>st. \<exists>k. 1 \<le> k \<and> k \<le> length acts
     \<and> trace (snd (f st)) = trace st @ take k acts \<and> (\<not> is_err (fst (f st)) \<longrightarrow> k = length acts))"

lemma runs_prefix_one: "(\<And>st. trace (snd (f st)) = trace st @ [a]) \<Longrightarrow> runs_prefix f [a]"
  by (auto simp: runs_prefix_def intro!: exI [of _ 1])

lemma runs_prefix_then:
  assumes f: "\<And>st. trace (snd (f st)) = trace st @ [a]" and g: "runs_prefix g acts"
  shows "runs_prefix (then_do f g) (a # acts)"
  unfolding runs_prefix_def
proof
  fix st
  obtain r st' where r: "f st = (r, st')" by fastforce
  with f [of st] have t: "trace st' = trace st @ [a]" by simp
  show "\<exists>k. 1 \<le> k \<and> k \<le> length (a # acts)
      \<and> trace (snd (then_do f g st)) = trace st @ take k (a # acts)
      \<and> (\<not> is_err (fst (then_do f g st)) \<longrightarrow> k = length (a # acts))"
  proof (cases r)
    case (Inl e)
    then show ?thesis using r t by (intro exI [of _ 1]) (simp add: then_do_def)
  next
    case (Inr u)
    obtain k where "1 \<le> k" "k \<le> length acts" "trace (snd (g st')) = trace st' @ take k acts"
      "\<not> is_err (fst (g st')) \<longrightarrow> k = length acts"
      using g unfolding runs_prefix_def by blast
    then show ?thesis using r t Inr by (intro exI [of _ "Suc k"]) (simp add: then_do_def)
  qed
qed

lemmas runs_prefix_rules = runs_prefix_then runs_prefix_one run_git_trace run_gh_trace

definition pr_commands :: "string \<Rightarrow> string \<Rightarrow> string \<Rightarrow> string list \<Rightarrow> action list" where
  "pr_commands dep new_version description labs =
    [Exec ''git'' [''rev-parse'', ''--verify'', branch_name dep new_version],
     Exec ''git'' [''checkout'', ''-b'', branch_name dep new_version],
     Exec ''git'' [''add'', ''ractor_actors/Cargo.toml'', ''Cargo.lock''],
     Exec ''git'' [''commit'', ''-m'', commit_msg dep new_version],
     Exec ''git'' [''push'', ''-u'', ''origin'', branch_name dep new_version],
     Exec ''gh'' (gh_args (commit_msg dep new_version) description labs),
     Exec ''git'' [''checkout'', ''-'']]"

lemma create_pr_runs:
  "\<exists>k. 1 \<le> k \<and> k \<le> 7
     \<and> trace (snd (create_pr sys dep v d labs st)) = trace st @ take k (pr_commands dep v d labs)
     \<and> (\<not> is_err (fst (create_pr sys dep v d labs st)) \<longrightarrow> k = 1 \<or> k = 7)
     \<and> (is_err (fst (create_pr sys dep v d labs st)) \<longrightarrow> 2 \<le> k)"
proof -
  let ?rest = "then_do (run_git sys [''checkout'', ''-b'', branch_name dep v])
      (then_do (run_git sys [''add'', ''ractor_actors/Cargo.toml'', ''Cargo.lock''])
      (then_do (run_git sys [''commit'', ''-m'', commit_msg dep v])
      (then_do (run_git sys [''push'', ''-u'', ''origin'', branch_name dep v])
      (then_do (run_gh sys (gh_args (commit_msg dep v) d labs)) (run_git sys [''checkout'', ''-''])))))"
  obtain r st1 where r: "run_program sys ''git'' [''rev-parse'', ''--verify'', branch_name dep v] st
      = (r, st1)" by fastforce
  then have t: "trace st1 = trace st @ take 1 (pr_commands dep v d labs)"
    using run_program_trace [of sys "''git''" "[''rev-parse'', ''--verify'', branch_name dep v]" st]
    by (simp add: pr_commands_def)
  have "runs_prefix ?rest (tl (pr_commands dep v d labs))"
    unfolding pr_commands_def list.sel by (intro runs_prefix_rules)
  then obtain k where k: "1 \<le> k" "k \<le> length (tl (pr_commands dep v d labs))"
      "trace (snd (?rest st1)) = trace st1 @ take k (tl (pr_commands dep v d labs))"
      "\<not> is_err (fst (?rest st1)) \<longrightarrow> k = length (tl (pr_commands dep v d labs))"
    unfolding runs_prefix_def by blast
  have len: "length (tl (pr_commands dep v d labs)) = 6" by (simp add: pr_commands_def)
  have join: "take 1 (pr_commands dep v d labs) @ take k (tl (pr_commands dep v d labs))
      = take (Suc k) (pr_commands dep v d labs)" by (simp add: pr_commands_def)
  show ?thesis
  proof (cases "case r of Inr (success, _) \<Rightarrow> success | Inl _ \<Rightarrow> False")
    case True
    have "create_pr sys dep v d labs st = (Ok_unit, st1)"
      unfolding create_pr_def Let_def r prod.case if_P [OF True] by (rule refl)
    then show ?thesis using t by (intro exI [of _ 1]) simp
  next
    case False
    have "create_pr sys dep v d labs st = ?rest st1"
      unfolding create_pr_def Let_def r prod.case if_not_P [OF False] by (rule refl)
    then show ?thesis using t k len join by (intro exI [of _ "Suc k"]) auto
  qed
qed

text \<open>What the options allow: nothing on a dry run, and git and gh only to open pull requests.\<close>

definition allowed :: "check_deps_options \<Rightarrow> action \<Rightarrow> bool" where
  "allowed options a \<longleftrightarrow> \<not> dry_run options \<and>
     (case a of WriteManifest _ \<Rightarrow> True
      | Exec prog args \<Rightarrow> prog = ''cargo'' \<or> ci options \<and> \<not> no_push options)"

lemma update_dependency_adds:
  "adds (\<lambda>a. case a of WriteManifest _ \<Rightarrow> True | Exec prog args \<Rightarrow> prog = ''cargo'')
     st (snd (update_dependency sys dep v strategy st))"
  by (auto simp: update_dependency_def adds_def lockfile_trace Let_def
      split: prod.splits sum.splits option.splits)

lemma create_pr_adds:
  "ci options \<Longrightarrow> \<not> no_push options \<Longrightarrow> \<not> dry_run options \<Longrightarrow>
   adds (allowed options) st (snd (create_pr sys dep v d labs st))"
proof -
  assume opts: "ci options" "\<not> no_push options" "\<not> dry_run options"
  have "list_all (allowed options) (pr_commands dep v d labs)"
    using opts by (simp add: pr_commands_def allowed_def)
  then have "list_all (allowed options) (take k (pr_commands dep v d labs))" for k
    by (auto simp: list_all_iff dest: in_set_takeD)
  then show ?thesis unfolding adds_def using create_pr_runs [of sys dep v d labs st] by blast
qed

lemma update_dependency_allowed:
  "\<not> dry_run options \<Longrightarrow> adds (allowed options) st (snd (update_dependency sys dep v strategy st))"
  using update_dependency_adds [of st sys dep v strategy]
  by (auto simp: adds_def allowed_def list_all_iff split: action.splits)

text \<open>The outcome of one dependency, when an update is due and is to be performed.\<close>

definition due :: "('x, 'd) sys \<Rightarrow> string \<Rightarrow> 'x tool_state \<Rightarrow> bool" where
  "due sys dep st \<longleftrightarrow> (\<exists>latest current st1. get_latest_major_version sys dep st = (Inr latest, st1)
     \<and> get_current_version sys dep st1 = Inr current \<and> is_major_update sys current latest)"

lemma check_dependency_not_due:
  "\<not> (enabled dc \<and> due sys dep st) \<Longrightarrow>
   trace (snd (check_dependency sys options labs dep dc st)) = trace st"
  using fetch_trace [of sys dep st]
  by (auto simp: check_dependency_def due_def simp del: fetch_trace
      split: prod.splits sum.splits fault.splits)

lemma check_dependency_adds:
  "adds (allowed options) st (snd (check_dependency sys options labs dep dc st))"
proof (cases "enabled dc \<and> due sys dep st \<and> \<not> dry_run options")
  case False
  have "trace (snd (check_dependency sys options labs dep dc st)) = trace st"
  proof (cases "enabled dc \<and> due sys dep st")
    case True
    with False have "dry_run options" by simp
    then show ?thesis using fetch_trace [of sys dep st]
      by (auto simp: check_dependency_def simp del: fetch_trace split: prod.splits sum.splits fault.splits)
  qed (rule check_dependency_not_due)
  then show ?thesis by (simp add: adds_def)
next
  case True
  then obtain latest current st1 where
    latest: "get_latest_major_version sys dep st = (Inr latest, st1)" and
    current: "get_current_version sys dep st1 = Inr current" and
    big: "is_major_update sys current latest" unfolding due_def by blast
  let ?upd = "update_dependency sys dep (version_string sys latest) (bump_strategy dc) st1"
  obtain r st2 where upd: "?upd = (r, st2)" by fastforce
  have "adds (allowed options) st st1"
    using fetch_trace [of sys dep st] latest by (simp add: adds_def)
  moreover have "adds (allowed options) st1 st2"
    using update_dependency_allowed [of options st1 sys dep "version_string sys latest"
        "bump_strategy dc"] True upd by simp
  ultimately have so_far: "adds (allowed options) st st2" by (rule adds_trans)
  let ?pr = "create_pr sys dep (version_string sys latest)
    (generate dep (version_string sys current) (version_string sys latest)) labs st2"
  have "snd (check_dependency sys options labs dep dc st)
      = (if \<not> is_err r \<and> \<not> no_push options \<and> ci options then snd ?pr else st2)"
    using True latest current big upd
    by (auto simp: check_dependency_def Let_def split: prod.splits sum.splits fault.splits)
  moreover have "adds (allowed options) st (snd ?pr)" if "\<not> no_push options \<and> ci options"
    by (rule adds_trans [OF so_far]) (use that True create_pr_adds in blast)
  ultimately show ?thesis using so_far by auto
qed

lemma check_all_adds:
  "adds (allowed options) st (snd (check_all sys options labs deps found st))"
proof (induction deps arbitrary: found st)
  case (Cons d deps)
  obtain dep dc where d: "d = (dep, dc)" by fastforce
  obtain r st' where r: "check_dependency sys options labs dep dc st = (r, st')" by fastforce
  have "adds (allowed options) st st'"
    using check_dependency_adds [of options st sys labs dep dc] r by simp
  then show ?case using Cons.IH r d by (cases r) (auto intro: adds_trans)
qed simp

lemma check_dependency_panics:
  "fst (check_dependency sys options labs dep dc st) \<noteq> Inl (Error e)"
  by (auto simp: check_dependency_def Let_def split: prod.splits sum.splits fault.splits)

lemma check_all_panics:
  "fst (check_all sys options labs deps found st) \<noteq> Inl (Error e)"
proof (induction deps arbitrary: found st)
  case (Cons d deps)
  obtain dep dc where d: "d = (dep, dc)" by fastforce
  obtain r st' where r: "check_dependency sys options labs dep dc st = (r, st')" by fastforce
  have "r \<noteq> Inl (Error e)"
    using check_dependency_panics [of sys options labs dep dc st e] r by simp
  then show ?case using Cons.IH r d by (cases r) auto
qed simp

text \<open>The greatest element under a strict total order.\<close>

definition strict_total :: "('a \<Rightarrow> 'a \<Rightarrow> bool) \<Rightarrow> bool" where
  "strict_total lt \<longleftrightarrow> (\<forall>a. \<not> lt a a) \<and> (\<forall>a b c. lt a b \<longrightarrow> lt b c \<longrightarrow> lt a c)
     \<and> (\<forall>a b. a \<noteq> b \<longrightarrow> lt a b \<or> lt b a)"

lemma foldl_max:
  assumes "strict_total lt"
  shows "foldl (\<lambda>best y. if lt y best then best else y) x xs \<in> set (x # xs)
    \<and> (\<forall>y \<in> set (x # xs). \<not> lt (foldl (\<lambda>best y. if lt y best then best else y) x xs) y)"
proof (induction xs arbitrary: x)
  case Nil
  then show ?case using assms by (simp add: strict_total_def)
next
  case (Cons y ys)
  let ?b = "if lt y x then x else y"
  let ?m = "foldl (\<lambda>best y. if lt y best then best else y) ?b ys"
  have m: "?m \<in> set (?b # ys)" "\<forall>z \<in> set (?b # ys). \<not> lt ?m z" using Cons.IH [of ?b] by blast+
  have irrefl: "\<not> lt a a" and trans: "lt a b \<Longrightarrow> lt b c \<Longrightarrow> lt a c"
    and total: "a = b \<or> lt a b \<or> lt b a" for a b c
    using assms unfolding strict_total_def by blast+
  have "\<not> lt ?m ?b" using m(2) by simp
  then have "\<not> lt ?m x \<and> \<not> lt ?m y"
  proof (cases "lt y x")
    case True
    with \<open>\<not> lt ?m ?b\<close> have "\<not> lt ?m x" by simp
    moreover have "\<not> lt ?m y" using trans [OF _ True, of ?m] \<open>\<not> lt ?m x\<close> by blast
    ultimately show ?thesis by blast
  next
    case False
    with \<open>\<not> lt ?m ?b\<close> have my: "\<not> lt ?m y" by simp
    moreover have "\<not> lt ?m x" using total [of x y] trans [of ?m x y] my False by blast
    ultimately show ?thesis by blast
  qed
  then show ?case using m by auto
qed

lemma last_max_greatest:
  assumes "strict_total lt" and "last_max lt xs = Some m"
  shows "m \<in> set xs \<and> (\<forall>y \<in> set xs. \<not> lt m y)"
proof (cases xs)
  case (Cons x ys)
  then show ?thesis using foldl_max [OF assms(1), of x ys] assms(2) by simp
qed (use assms in simp)

lemma last_max_None: "last_max lt xs = None \<longleftrightarrow> xs = []"
  by (cases xs) simp_all

lemma set_stable_versions:
  "v \<in> set (stable_versions sys vs) \<longleftrightarrow>
     pre v = '''' \<and> (\<exists>i \<in> set vs. \<not> yanked i \<and> version_parse sys (num i) = Some v)"
  by (force simp: stable_versions_def List.map_filter_def)

text \<open>
  Versions in lexicographic order, the order \<open>semver\<close> gives to releases; the model does not
  use it, it shows that the hypothesis on \<open>version_less\<close> can be met.
\<close>

definition version_key :: "'a version_scheme
    \<Rightarrow> 64 word \<times> 64 word \<times> 64 word \<times> string \<times> string \<times> 'a" where
  "version_key v = (major v, minor v, patch v, pre v, build v, version.more v)"

lemma version_key_inj: "version_key v = version_key w \<Longrightarrow> v = w"
  by (simp add: version_key_def version.equality)

instantiation version_ext :: (linorder) linorder
begin

definition less_version_ext :: "'a version_scheme \<Rightarrow> 'a version_scheme \<Rightarrow> bool" where
  "less_version_ext v w \<longleftrightarrow> version_key v < version_key w"

definition less_eq_version_ext :: "'a version_scheme \<Rightarrow> 'a version_scheme \<Rightarrow> bool" where
  "less_eq_version_ext v w \<longleftrightarrow> version_key v \<le> version_key w"

instance
proof
  fix v w u :: "'a version_scheme"
  show "v < w \<longleftrightarrow> v \<le> w \<and> \<not> w \<le> v"
    unfolding less_version_ext_def less_eq_version_ext_def by (rule less_le_not_le)
  show "v \<le> v" unfolding less_eq_version_ext_def by (rule order_refl)
  show "v \<le> w \<Longrightarrow> w \<le> u \<Longrightarrow> v \<le> u" unfolding less_eq_version_ext_def by (rule order_trans)
  show "v \<le> w \<Longrightarrow> w \<le> v \<Longrightarrow> v = w"
    unfolding less_eq_version_ext_def by (intro version_key_inj antisym)
  show "v \<le> w \<or> w \<le> v" unfolding less_eq_version_ext_def by (rule linear)
qed

end

lemma linorder_strict_total: "strict_total ((<) :: 'a :: linorder \<Rightarrow> 'a \<Rightarrow> bool)"
  unfolding strict_total_def using less_linear less_trans by blast

text \<open>The largest number, and one more than any other.\<close>

lemma largest_word: "unat n = 2 ^ 64 - 1 \<longleftrightarrow> n = - 1" for n :: "64 word"
proof
  assume "unat n = 2 ^ 64 - 1"
  then have "unat (n + 1) = 0" by (simp add: unat_word_ariths)
  then have "n + 1 = 0" by (metis unat_eq_zero)
  then show "n = - 1" by (simp add: eq_neg_iff_add_eq_0)
next
  assume "n = - 1"
  then show "unat n = 2 ^ 64 - 1" by (simp add: unsigned_minus_1_eq_mask mask_eq_exp_minus_1)
qed

lemma word_inc: "n \<noteq> - 1 \<Longrightarrow> unat (n + 1) = unat n + 1 \<and> n < n + 1" for n :: "64 word"
proof -
  assume "n \<noteq> - 1"
  then have "1 + n \<noteq> 0" by (metis add.commute add.right_inverse add_left_cancel)
  then have "unat (1 + n) = Suc (unat n)" by (rule unatSuc)
  then show ?thesis by (simp add: add.commute word_less_nat_alt)
qed

text \<open>An environment in which crates.io lists two releases and a pre-release, all of a name.\<close>

definition sample_sys :: "(unit, string) sys" where
  "sample_sys =
    \<lparr>http_get = \<lambda>url w. (Inr (True, ''200 OK'', Inr [\<lparr>num = ''1'', yanked = False\<rparr>,
        \<lparr>num = ''2'', yanked = False\<rparr>, \<lparr>num = ''3'', yanked = True\<rparr>]), w),
     read_config = \<lambda>path w. Inr \<lparr>config_version = 1,
        config_settings = \<lparr>schedule = '''', branch_prefix = ''deps'', labels = [], draft_prs = False\<rparr>,
        dependencies = [(''ractor'', \<lparr>enabled = True, track = ''major'', bump_strategy = ''minor''\<rparr>)]\<rparr>,
     read_manifest = \<lambda>w. Inr ''1'',
     write_manifest = \<lambda>text w. (Inr (), w),
     exec = \<lambda>prog args w. (Inr (prog \<noteq> ''gh'' \<and> hd args \<noteq> ''rev-parse'', ''denied''), w),
     toml_parse = Inr, toml_print = (\<lambda>d. d),
     dep_version = \<lambda>d dep. Inr (Some d), dep_str = \<lambda>d dep. Inr None,
     dep_is_table = \<lambda>d dep. True, dep_is_str = \<lambda>d dep. False,
     set_dep_version = \<lambda>dep v d. v, set_dep_str = \<lambda>dep v d. v,
     package_version = \<lambda>d. Inr (Some d), set_package_version = \<lambda>v d. d,
     version_parse = \<lambda>s. if s = ''1'' then Some (version_new 1 0 0)
        else if s = ''2'' then Some (version_new 2 0 0) else None,
     version_string = \<lambda>v. if major v = 1 then ''1'' else ''2'',
     version_less = (<), caret_matches = \<lambda>c v. major c = major v\<rparr>"

section \<open>Properties\<close>

text \<open>
  The version fetched from crates.io is the greatest release that is neither yanked
  nor a pre-release nor unparsable: the call returns such a version and none of them is
  greater, returns an error exactly when there is none or the request, its status or its
  body failed, and starts no program and writes nothing.
\<close>

theorem latest_is_the_greatest_stable_release:
  assumes "strict_total (version_less sys)"
  shows "case get_latest_major_version sys crate st of (r, st') \<Rightarrow>
    trace st' = trace st
    \<and> (case fst (http_get sys (''https://crates.io/api/v1/crates/'' @ crate) (world st)) of
         Inr (True, status, Inr vs) \<Rightarrow>
           (let releases = {v. pre v = ''''
                  \<and> (\<exists>i \<in> set vs. \<not> yanked i \<and> version_parse sys (num i) = Some v)}
            in case r of
                 Inr v \<Rightarrow> v \<in> releases \<and> (\<forall>u \<in> releases. \<not> version_less sys v u)
               | Inl _ \<Rightarrow> releases = {})
       | _ \<Rightarrow> is_err r)"
proof -
  obtain resp w where resp: "http_get sys (''https://crates.io/api/v1/crates/'' @ crate) (world st) = (resp, w)"
    by fastforce
  have greatest: "v \<in> set (stable_versions sys vs)
      \<and> (\<forall>u. u \<in> set (stable_versions sys vs) \<longrightarrow> \<not> version_less sys v u)"
    if "last_max (version_less sys) (stable_versions sys vs) = Some v" for vs v
    using last_max_greatest [OF assms that] by blast
  have none: "v \<notin> set (stable_versions sys vs)"
    if "last_max (version_less sys) (stable_versions sys vs) = None" for vs v
    using that by (simp add: last_max_None)
  note facts = greatest [unfolded set_stable_versions] none [unfolded set_stable_versions]
  show ?thesis
    unfolding get_latest_major_version_def resp
    by (auto simp: Let_def dest: facts split: sum.splits prod.splits option.splits bool.splits)
qed

theorem latest_is_the_greatest_stable_release_witness:
  "fst (get_latest_major_version sample_sys ''ractor'' \<lparr>world = (), trace = []\<rparr>)
     = Inr (version_new 2 0 0)"
proof -
  have less: "version_new 1 0 0 < version_new 2 0 0"
    by (simp add: less_version_ext_def version_key_def version_new_def)
  have "strict_total (version_less sample_sys)"
    by (simp add: sample_sys_def linorder_strict_total)
  note latest_is_the_greatest_stable_release [OF this, of "\<lparr>world = (), trace = []\<rparr>" "''ractor''"]
  moreover have "{v. pre v = '''' \<and> (\<exists>i \<in> {\<lparr>num = ''1'', yanked = False\<rparr>, \<lparr>num = ''2'', yanked = False\<rparr>,
      \<lparr>num = ''3'', yanked = True\<rparr>}. \<not> yanked i \<and> version_parse sample_sys (num i) = Some v)}
      = {version_new 1 0 0, version_new 2 0 0}"
    by (auto simp: sample_sys_def version_new_def)
  ultimately show ?thesis
    using less
    by (auto simp: sample_sys_def Let_def split: prod.splits sum.splits)
qed

text \<open>
  C40. What the tracker does under which options: whatever crates.io, the file system and the
  programs answer, a dry run writes nothing and starts nothing, and git and gh are started only
  with \<open>ci\<close> and without \<open>no_push\<close>. So with \<open>--no-push\<close> no
  branch is created and nothing is committed, although the README and the tracker's guide say
  that it creates the branch and commits locally; and without \<open>--ci\<close> the same
  holds. For a dependency that is disabled, or has no newer Cargo-major release, it does nothing
  at all. An error it returns comes from the configuration, the HTTP client or the root of the
  workspace: one dependency's error never ends the command.
\<close>

theorem tracker_acts_within_its_options:
  "let out = check_dependencies sys ord manifest_dir builder options st
   in (\<exists>acts. trace (snd out) = trace st @ acts \<and> list_all (allowed options) acts)
      \<and> (fst out = Inl (Error e) \<longrightarrow>
           is_err (load_config sys (config_path options) st) \<or> is_err (crates_io_client builder)
             \<or> is_err (updater_new manifest_dir))
      \<and> (\<not> (enabled dc \<and> due sys dep st) \<longrightarrow>
           trace (snd (check_dependency sys options labs dep dc st)) = trace st)"
  unfolding Let_def
proof (intro conjI impI)
  show "\<exists>acts. trace (snd (check_dependencies sys ord manifest_dir builder options st))
      = trace st @ acts \<and> list_all (allowed options) acts"
    using check_all_adds [of options st sys]
    by (auto simp: check_dependencies_def adds_def split: sum.splits)
  show "is_err (load_config sys (config_path options) st) \<or> is_err (crates_io_client builder)
      \<or> is_err (updater_new manifest_dir)"
    if "fst (check_dependencies sys ord manifest_dir builder options st) = Inl (Error e)"
    using that check_all_panics [of sys options]
    by (auto simp: check_dependencies_def split: sum.splits)
qed (rule check_dependency_not_due)

theorem tracker_acts_within_its_options_witness:
  "trace (snd (check_dependencies sample_sys rev ''/w/xtask'' (\<lambda>_ _. Inr ())
     \<lparr>config_path = ''cfg'', dry_run = True, no_push = False, ci = True\<rparr> \<lparr>world = (), trace = []\<rparr>)) = []
   \<and> trace (snd (check_dependency sample_sys 
     \<lparr>config_path = ''cfg'', dry_run = False, no_push = False, ci = True\<rparr> [] ''ractor''
     \<lparr>enabled = False, track = ''major'', bump_strategy = ''minor''\<rparr> \<lparr>world = (), trace = []\<rparr>)) = []"
  using tracker_acts_within_its_options [of sample_sys rev "''/w/xtask''" "\<lambda>_ _. Inr ()"
      "\<lparr>config_path = ''cfg'', dry_run = True, no_push = False, ci = True\<rparr>" "\<lparr>world = (), trace = []\<rparr>"]
    tracker_acts_within_its_options [of sample_sys rev "''/w/xtask''" "\<lambda>_ _. Inr ()"
      "\<lparr>config_path = ''cfg'', dry_run = False, no_push = False, ci = True\<rparr>" "\<lparr>world = (), trace = []\<rparr>"
      _ "\<lparr>enabled = False, track = ''major'', bump_strategy = ''minor''\<rparr>" "''ractor''" "[]"]
  by (auto simp: Let_def allowed_def list_all_iff)

text \<open>
  Opening a pull request runs a prefix of a fixed list of commands: looking for the
  branch, creating it, staging the manifest and the lock file, committing, pushing, opening
  the request, and returning to the original branch. It succeeds either after the first one,
  when the branch exists already, or after all seven; when it fails, it stops at the command
  that failed, so a failure after the branch was created leaves the checkout on it.
\<close>

theorem pull_request_commands_in_order:
  "\<exists>k. k \<in> {1..7}
     \<and> trace (snd (create_pr sys dep v d labs st)) = trace st @ take k (pr_commands dep v d labs)
     \<and> (\<not> is_err (fst (create_pr sys dep v d labs st)) \<longrightarrow> k = 1 \<or> k = 7)
     \<and> (is_err (fst (create_pr sys dep v d labs st)) \<longrightarrow> 2 \<le> k)"
  using create_pr_runs [of sys dep v d labs st] by auto

theorem pull_request_commands_in_order_witness:
  "Exec ''git'' [''checkout'', ''-'']
     \<notin> set (trace (snd (create_pr sample_sys ''ractor'' ''2'' ''text'' [''deps''] \<lparr>world = (), trace = []\<rparr>)))
   \<and> is_err (fst (create_pr sample_sys ''ractor'' ''2'' ''text'' [''deps''] \<lparr>world = (), trace = []\<rparr>))"
proof -
  let ?out = "create_pr sample_sys ''ractor'' ''2'' ''text'' [''deps''] \<lparr>world = (), trace = []\<rparr>"
  have err: "is_err (fst ?out)" and n: "length (trace (snd ?out)) = 6"
    by (simp_all add: create_pr_def run_program_def run_git_def run_gh_def then_do_def
        sample_sys_def Let_def)
  obtain k where "k \<in> {1..7}" "trace (snd ?out) = take k (pr_commands ''ractor'' ''2'' ''text'' [''deps''])"
    using pull_request_commands_in_order [of sample_sys "''ractor''" "''2''" "''text''" "[''deps'']"
        "\<lparr>world = (), trace = []\<rparr>"] by auto
  moreover from this n have "k = 6" by (simp add: pr_commands_def)
  ultimately show ?thesis using err by (simp add: pr_commands_def)
qed

text \<open>
  C34. Bumping a version never wraps around. It panics exactly when the component to be bumped is
  the largest 64-bit number; otherwise a major, minor or patch bump is one more in that
  component, keeps those before it, clears everything after it, pre-release and build
  metadata included, and is a greater version; any other strategy changes nothing.
\<close>

theorem bump_version_never_wraps:
  "(is_err (bump_version v strategy) \<longleftrightarrow>
      (strategy = ''major'' \<and> unat (major v) = 2 ^ 64 - 1) \<or> (strategy = ''minor'' \<and> unat (minor v) = 2 ^ 64 - 1)
      \<or> (strategy = ''patch'' \<and> unat (patch v) = 2 ^ 64 - 1))
   \<and> (case bump_version v strategy of Inl _ \<Rightarrow> True | Inr w \<Rightarrow>
       if strategy \<notin> {''major'', ''minor'', ''patch''} then w = v
       else v < w \<and> pre w = '''' \<and> build w = ''''
         \<and> (unat (major w), unat (minor w), unat (patch w))
           = (if strategy = ''major'' then (unat (major v) + 1, 0, 0)
              else if strategy = ''minor'' then (unat (major v), unat (minor v) + 1, 0)
              else (unat (major v), unat (minor v), unat (patch v) + 1)))"
proof -
  show ?thesis
    using largest_word word_inc
    by (auto simp: bump_version_def checked_inc_def version_new_def less_version_ext_def version_key_def)
qed

theorem bump_version_never_wraps_witness:
  "is_err (bump_version (version_new (- 1) 2 3) ''major'')
   \<and> bump_version (version_new (- 1) 2 3) ''minor'' = Inr (version_new (- 1) 3 0)"
  using bump_version_never_wraps [of "version_new (- 1) 2 3" "''major''"]
  by (simp add: bump_version_def checked_inc_def version_new_def largest_word)

text \<open>
  A failed update can leave a rewritten manifest behind. Updating a dependency does
  nothing and fails; or fails to write the manifest; or writes it and runs cargo, and then
  the manifest has the new text whether or not cargo succeeded, while the result tells
  exactly whether it did: nothing restores the old manifest.
\<close>

theorem failed_update_keeps_the_manifest:
  assumes "\<And>text w w'. write_manifest sys text w = (Inr (), w') \<Longrightarrow> read_manifest sys w' = Inr text"
    and "\<And>w. read_manifest sys (snd (exec sys ''cargo'' [''update'', ''-p'', dep, ''--precise'', v] w)) = read_manifest sys w"
    and "update_dependency sys dep v strategy st = (r, st')"
  shows "(is_err r \<and> st' = st)
    \<or> (\<exists>text e w. is_err r \<and> write_manifest sys text (world st) = (Inl e, w)
         \<and> st' = \<lparr>world = w, trace = trace st @ [WriteManifest text]\<rparr>)
    \<or> (\<exists>text w. write_manifest sys text (world st) = (Inr (), w) \<and> read_manifest sys (world st') = Inr text
         \<and> trace st' = trace st @ [WriteManifest text, Exec ''cargo'' [''update'', ''-p'', dep, ''--precise'', v]]
         \<and> (is_err r \<longleftrightarrow> (\<forall>stderr. fst (exec sys ''cargo'' [''update'', ''-p'', dep, ''--precise'', v] w)
              \<noteq> Inr (True, stderr))))"
proof -
  have lock: "update_lockfile sys dep v s = (r', s') \<Longrightarrow>
      read_manifest sys (world s') = read_manifest sys (world s)
      \<and> trace s' = trace s @ [Exec ''cargo'' [''update'', ''-p'', dep, ''--precise'', v]]
      \<and> (is_err r' \<longleftrightarrow> (\<forall>stderr. fst (exec sys ''cargo'' [''update'', ''-p'', dep, ''--precise'', v] (world s))
            \<noteq> Inr (True, stderr)))" for s r' s'
    using assms(2) [of "world s"]
    by (auto simp: update_lockfile_def run_program_def split: prod.splits sum.splits if_splits)
  show ?thesis
    using assms(3) assms(1)
    by (auto simp: update_dependency_def Let_def split: sum.splits prod.splits option.splits dest!: lock)
qed

text \<open>A disk whose manifest is one string, and a cargo that refuses.\<close>

definition disk_sys :: "(string, string) sys" where
  "disk_sys =
    \<lparr>http_get = \<lambda>url w. (Inl ''offline'', w), read_config = \<lambda>path w. Inl ''no configuration'',
     read_manifest = Inr, write_manifest = \<lambda>text w. (Inr (), text),
     exec = \<lambda>prog args w. (Inr (False, ''no matching package''), w),
     toml_parse = Inr, toml_print = (\<lambda>d. d),
     dep_version = \<lambda>d dep. Inr (Some d), dep_str = \<lambda>d dep. Inr None,
     dep_is_table = \<lambda>d dep. True, dep_is_str = \<lambda>d dep. False,
     set_dep_version = \<lambda>dep v d. v, set_dep_str = \<lambda>dep v d. v,
     package_version = \<lambda>d. Inr (Some d), set_package_version = \<lambda>v d. d,
     version_parse = \<lambda>s. Some (version_new 1 0 0), version_string = \<lambda>v. ''1'',
     version_less = (<), caret_matches = \<lambda>c v. major c = major v\<rparr>"

theorem failed_update_keeps_the_manifest_witness:
  "is_err (fst (update_dependency disk_sys ''cron'' ''2'' ''minor'' \<lparr>world = ''1'', trace = []\<rparr>))
   \<and> read_manifest disk_sys (world (snd (update_dependency disk_sys ''cron'' ''2'' ''minor''
       \<lparr>world = ''1'', trace = []\<rparr>))) = Inr ''2''"
proof -
  obtain r st' where u: "update_dependency disk_sys ''cron'' ''2'' ''minor'' \<lparr>world = ''1'', trace = []\<rparr> = (r, st')"
    by fastforce
  have run: "is_err r" "world st' = ''2''" "trace st' \<noteq> []"
    using u by (auto simp: update_dependency_def disk_sys_def set_dependency_def bump_version_def checked_inc_def
        version_new_def update_lockfile_def run_program_def Let_def)
  show ?thesis
    using failed_update_keeps_the_manifest [OF _ _ u] run u
    by (auto simp: disk_sys_def)
qed

end
