(* ===== verification/Dep_Workspace.thy ===== *)
theory Dep_Workspace
  imports Dep_Tracker
begin

text \<open>
  The dependency tracker over several dependencies, and what it leaves in this repository:
  the loop of \<open>src/xtask/src/deps/mod.rs\<close> with the updater and the pull requests of
  \<open>updater.rs\<close> and \<open>pr_generator.rs\<close>, on a working tree that git manages.

  Git, cargo and the file system are not part of the repository. What the tracker relies on
  of them is stated as laws about a view of the world: the local branches and the manifest each
  of them commits, the branch that is checked out and the manifest of its commit, the manifest
  in the working tree and in the index, and the paths git ignores, which are those that are not
  tracked and match \<open>.gitignore\<close>. The repository's \<open>.gitignore\<close> lists \<open>Cargo.lock\<close>, and no lock
  file is tracked: the lock file is not part of the view, and \<open>lock_ignored\<close> says so.
\<close>

section \<open>The repository\<close>

record repo =
  checked_out :: string
  head :: string   \<comment> \<open>the manifest of the commit that is checked out\<close>
  branches :: "string \<Rightarrow> string option"
  working :: string
  staged :: string
  ignored :: "string set"

definition lock_ignored :: "repo \<Rightarrow> bool" where
  "lock_ignored g \<longleftrightarrow> ''Cargo.lock'' \<in> ignored g"

definition succeeds :: "string + bool \<times> string \<Rightarrow> bool" where
  "succeeds r \<longleftrightarrow> (case r of Inr (success, _) \<Rightarrow> success | Inl _ \<Rightarrow> False)"

text \<open>
  Reading and writing the manifest, asking crates.io, and updating the lock file: a manifest
  that can be read is the one in the working tree, a write replaces it, and after a failed
  write its content is anything; a request changes nothing here, and \<open>cargo update -p name --precise version\<close> changes at most the lock file.
\<close>

definition files_laws :: "('x, 'd) sys \<Rightarrow> ('x \<Rightarrow> repo) \<Rightarrow> bool" where
  "files_laws sys repo \<longleftrightarrow>
     (\<forall>x. is_err (read_manifest sys x) \<or> read_manifest sys x = Inr (working (repo x)))
   \<and> (\<forall>text x. let (r, w) = write_manifest sys text x
        in \<exists>content. repo w = (repo x)\<lparr>working := content\<rparr> \<and> (\<not> is_err r \<longrightarrow> content = text))
   \<and> (\<forall>url x. repo (snd (http_get sys url x)) = repo x)
   \<and> (\<forall>dep v x. repo (snd (exec sys ''cargo'' [''update'', ''-p'', dep, ''--precise'', v] x)) = repo x)"

text \<open>
  The git commands the tracker comes to. Looking for a name changes nothing. A new branch, which
  must not exist, is at the commit that is checked out and keeps the working tree and the index;
  a failing \<open>git checkout -b\<close> changes nothing. \<open>git add\<close> copies the manifest to the index; with an
  ignored path among its arguments it exits with an error, after adding the others.
\<close>

definition git_laws :: "('x, 'd) sys \<Rightarrow> ('x \<Rightarrow> repo) \<Rightarrow> bool" where
  "git_laws sys repo \<longleftrightarrow>
     (\<forall>b x. repo (snd (exec sys ''git'' [''rev-parse'', ''--verify'', b] x)) = repo x)
   \<and> (\<forall>b x. let (r, w) = exec sys ''git'' [''checkout'', ''-b'', b] x; g = repo x
        in if succeeds r
           then branches g b = None \<and> repo w = g\<lparr>checked_out := b, branches := (branches g)(b \<mapsto> head g)\<rparr>
           else repo w = g)
   \<and> (\<forall>x. let (r, w) = exec sys ''git'' [''add'', ''ractor_actors/Cargo.toml'', ''Cargo.lock''] x; g = repo x
        in repo w \<in> {g, g\<lparr>staged := working g\<rparr>} \<and> (lock_ignored g \<longrightarrow> \<not> succeeds r))"

abbreviation repo_of :: "('x \<Rightarrow> repo) \<Rightarrow> 'x tool_state \<Rightarrow> repo" where
  "repo_of repo st \<equiv> repo (world st)"

abbreviation manifest_of :: "('x \<Rightarrow> repo) \<Rightarrow> 'x tool_state \<Rightarrow> string" where
  "manifest_of repo st \<equiv> working (repo (world st))"

section \<open>One pull request\<close>

text \<open>
  What the tool does to this repository: it writes the manifest, updates the lock file, looks
  for branches, creates them and stages. It never commits, pushes, opens a request or returns
  to a branch.
\<close>

definition fruitless :: "action \<Rightarrow> bool" where
  "fruitless a \<longleftrightarrow> (case a of WriteManifest _ \<Rightarrow> True
     | Exec prog args \<Rightarrow> prog = ''cargo'' \<or> prog = ''git'' \<and> (\<exists>b. args \<in> {[''rev-parse'', ''--verify'', b],
         [''checkout'', ''-b'', b], [''add'', ''ractor_actors/Cargo.toml'', ''Cargo.lock'']}))"

lemma fruitless_simps [simp]:
  "fruitless (WriteManifest text)"
  "fruitless (Exec ''cargo'' args)"
  "fruitless (Exec ''git'' [''rev-parse'', ''--verify'', b])"
  "fruitless (Exec ''git'' [''checkout'', ''-b'', b])"
  "fruitless (Exec ''git'' [''add'', ''ractor_actors/Cargo.toml'', ''Cargo.lock''])"
  by (auto simp: fruitless_def)

text \<open>The commit that is checked out is the same, the old branches too, and new ones are at it.\<close>

definition nothing_committed :: "repo \<Rightarrow> repo \<Rightarrow> bool" where
  "nothing_committed g g' \<longleftrightarrow> head g' = head g \<and> ignored g' = ignored g
     \<and> (\<forall>b. branches g' b = branches g b \<or> branches g b = None \<and> branches g' b = Some (head g))"

lemma nothing_committed_refl [simp, intro]: "nothing_committed g g"
  by (simp add: nothing_committed_def)

lemma nothing_committed_trans: "nothing_committed g g1 \<Longrightarrow> nothing_committed g1 g2 \<Longrightarrow> nothing_committed g g2"
  unfolding nothing_committed_def by metis

lemma nothing_committed_simps [simp]:
  "nothing_committed g (g\<lparr>working := m\<rparr>)"
  "nothing_committed g (g\<lparr>staged := m\<rparr>)"
  "branches g b = None \<Longrightarrow> nothing_committed g (g\<lparr>checked_out := b, branches := (branches g)(b \<mapsto> head g)\<rparr>)"
  by (auto simp: nothing_committed_def)

text \<open>A stretch of the run, from a repository that ignores the lock file.\<close>

definition fruitless_run :: "('x \<Rightarrow> repo) \<Rightarrow> 'x tool_state \<Rightarrow> 'x tool_state \<Rightarrow> bool" where
  "fruitless_run repo st st' \<longleftrightarrow> (lock_ignored (repo_of repo st) \<longrightarrow>
     adds fruitless st st' \<and> nothing_committed (repo_of repo st) (repo_of repo st'))"

lemma fruitless_run_refl [simp, intro]: "fruitless_run repo st st"
  by (simp add: fruitless_run_def)

lemma fruitless_run_trans:
  assumes "fruitless_run repo st st1" and "fruitless_run repo st1 st2"
  shows "fruitless_run repo st st2"
  unfolding fruitless_run_def
proof (intro impI conjI)
  assume start: "lock_ignored (repo_of repo st)"
  with assms(1) have one: "adds fruitless st st1" "nothing_committed (repo_of repo st) (repo_of repo st1)"
    by (simp_all add: fruitless_run_def)
  then have "lock_ignored (repo_of repo st1)"
    using start by (simp add: lock_ignored_def nothing_committed_def)
  with assms(2) have two: "adds fruitless st1 st2" "nothing_committed (repo_of repo st1) (repo_of repo st2)"
    by (simp_all add: fruitless_run_def)
  show "adds fruitless st st2" by (rule adds_trans [OF one(1) two(1)])
  show "nothing_committed (repo_of repo st) (repo_of repo st2)"
    by (rule nothing_committed_trans [OF one(2) two(2)])
qed

lemma run_git_world: "run_git sys args st = (r, st') \<Longrightarrow>
    world st' = snd (exec sys ''git'' args (world st)) \<and> trace st' = trace st @ [Exec ''git'' args]
    \<and> (is_err r \<longleftrightarrow> \<not> succeeds (fst (exec sys ''git'' args (world st))))"
  by (auto simp: run_git_def run_program_def succeeds_def split: prod.splits sum.splits if_splits)

text \<open>The commands, one by one, on the repository.\<close>

lemma git_new_branch:
  assumes "git_laws sys repo" and "run_git sys [''checkout'', ''-b'', b] st = (r, st')"
  shows "fruitless_run repo st st' \<and> manifest_of repo st' = manifest_of repo st
    \<and> ignored (repo_of repo st') = ignored (repo_of repo st)"
proof -
  obtain q w where q: "exec sys ''git'' [''checkout'', ''-b'', b] (world st) = (q, w)" by fastforce
  let ?g = "repo_of repo st"
  have "let (r, w) = exec sys ''git'' [''checkout'', ''-b'', b] (world st) in if succeeds r
      then branches ?g b = None \<and> repo w = ?g\<lparr>checked_out := b, branches := (branches ?g)(b \<mapsto> head ?g)\<rparr>
      else repo w = ?g"
    using assms(1) by (simp add: git_laws_def Let_def)
  moreover have "world st' = w" "trace st' = trace st @ [Exec ''git'' [''checkout'', ''-b'', b]]"
    using run_git_world [OF assms(2)] q by simp_all
  ultimately show ?thesis
    using q by (cases "succeeds q") (simp_all add: fruitless_run_def adds_def)
qed

lemma git_stage_fails:
  assumes "git_laws sys repo" and "lock_ignored (repo_of repo st)"
    and "run_git sys [''add'', ''ractor_actors/Cargo.toml'', ''Cargo.lock''] st = (r, st')"
  shows "is_err r \<and> fruitless_run repo st st' \<and> manifest_of repo st' = manifest_of repo st"
  using assms(1,2) run_git_world [OF assms(3)] unfolding git_laws_def fruitless_run_def
  by (auto simp: Let_def case_prod_unfold adds_def)

text \<open>A pull request, then, ends at \<open>git add\<close> at the latest.\<close>

lemma then_do_fails: "is_err (fst (f st)) \<Longrightarrow> then_do f g st = f st"
  by (cases "f st"; cases "fst (f st)") (auto simp: then_do_def)

lemma then_do_cases:
  assumes "then_do f g st = (r, st')"
  obtains (failed) "f st = (r, st')" | (went_on) st1 where "f st = (Ok_unit, st1)" "g st1 = (r, st')"
  using assms by (auto simp: then_do_def split: prod.splits sum.splits)

lemma create_pr_is_fruitless:
  assumes laws: "git_laws sys repo" and "lock_ignored (repo_of repo st)"
    and run: "create_pr sys dep v d labs st = (r, st')"
  shows "fruitless_run repo st st' \<and> manifest_of repo st' = manifest_of repo st"
proof -
  let ?b = "branch_name dep v" and ?add = "run_git sys [''add'', ''ractor_actors/Cargo.toml'', ''Cargo.lock'']"
  obtain q st1 where q: "run_program sys ''git'' [''rev-parse'', ''--verify'', ?b] st = (q, st1)" by fastforce
  have "repo_of repo st1 = repo_of repo st"
  proof -
    have "repo (snd (exec sys ''git'' [''rev-parse'', ''--verify'', ?b] (world st))) = repo_of repo st"
      using laws by (simp add: git_laws_def)
    then show ?thesis using q by (auto simp: run_program_def split: prod.splits)
  qed
  moreover have "trace st1 = trace st @ [Exec ''git'' [''rev-parse'', ''--verify'', ?b]]"
    using run_program_trace [of sys "''git''" "[''rev-parse'', ''--verify'', ?b]" st] q by simp
  ultimately have found: "fruitless_run repo st st1" "manifest_of repo st1 = manifest_of repo st"
      and ignored: "lock_ignored (repo_of repo st1)"
    using assms(2) by (auto simp: fruitless_run_def adds_def)
  show ?thesis
  proof (cases "succeeds q")
    case True
    then have "st' = st1" using run q by (simp add: create_pr_def succeeds_def Let_def)
    then show ?thesis using found by simp
  next
    case False
    then have no: "\<not> (case q of Inr (success, _) \<Rightarrow> success | Inl _ \<Rightarrow> False)" by (simp add: succeeds_def)
    let ?rest = "then_do (run_git sys [''commit'', ''-m'', commit_msg dep v])
      (then_do (run_git sys [''push'', ''-u'', ''origin'', ?b])
      (then_do (run_gh sys (gh_args (commit_msg dep v) d labs)) (run_git sys [''checkout'', ''-''])))"
    have "then_do (run_git sys [''checkout'', ''-b'', ?b]) (then_do ?add ?rest) st1 = (r, st')"
      using run unfolding create_pr_def Let_def q prod.case if_not_P [OF no] .
    then show ?thesis
    proof (cases rule: then_do_cases)
      case failed
      note stuck = git_new_branch [OF laws failed]
      show ?thesis using fruitless_run_trans [OF found(1)] stuck found(2) by simp
    next
      case (went_on st2)
      note st2 = git_new_branch [OF laws went_on(1)]
      obtain r3 st3 where add: "?add st2 = (r3, st3)" by fastforce
      have "lock_ignored (repo_of repo st2)" using st2 ignored by (simp add: lock_ignored_def)
      note st3 = git_stage_fails [OF laws this add]
      then have "st' = st3" using went_on(2) add then_do_fails [of ?add st2 ?rest] by simp
      then show ?thesis
        using fruitless_run_trans [OF found(1) fruitless_run_trans [of repo st1 st2 st3]] st2 st3 found(2) by simp
    qed
  qed
qed

section \<open>Updating a dependency\<close>

text \<open>What an update writes: a function of the manifest it read.\<close>

definition new_manifest :: "('x, 'd) sys \<Rightarrow> string \<Rightarrow> string \<Rightarrow> string \<Rightarrow> string \<Rightarrow> string option" where
  "new_manifest sys dep new_version strategy content =
    (case toml_parse sys content of Inl _ \<Rightarrow> None | Inr doc \<Rightarrow>
     (case set_dependency sys dep new_version doc of None \<Rightarrow> None | Some doc' \<Rightarrow>
     (case package_version sys doc' of Inl _ \<Rightarrow> None | Inr None \<Rightarrow> None | Inr (Some v) \<Rightarrow>
     (case version_parse sys v of None \<Rightarrow> None | Some current \<Rightarrow>
     (case bump_version current strategy of Inl _ \<Rightarrow> None | Inr bumped \<Rightarrow>
        Some (toml_print sys (set_package_version sys (version_string sys bumped) doc')))))))"

text \<open>The manifest can always be read and written.\<close>

definition accessible :: "('x, 'd) sys \<Rightarrow> bool" where
  "accessible sys \<longleftrightarrow> (\<forall>x. \<not> is_err (read_manifest sys x))
     \<and> (\<forall>text x. \<not> is_err (fst (write_manifest sys text x)))"

lemma read_accessible:
  "files_laws sys repo \<Longrightarrow> accessible sys \<Longrightarrow> read_manifest sys x = Inr (working (repo x))"
  by (auto simp: files_laws_def accessible_def)

lemma lockfile_repo:
  "files_laws sys repo \<Longrightarrow> repo_of repo (snd (update_lockfile sys dep v st)) = repo_of repo st"
proof -
  assume "files_laws sys repo"
  then have "repo (snd (exec sys ''cargo'' [''update'', ''-p'', dep, ''--precise'', v] (world st))) = repo_of repo st"
    unfolding files_laws_def by blast
  then show ?thesis by (auto simp: update_lockfile_def run_program_def split: prod.splits sum.splits)
qed

lemma update_dependency_repo:
  assumes laws: "files_laws sys repo" and run: "update_dependency sys dep v strategy st = (r, st')"
  shows "\<exists>content. repo_of repo st' = (repo_of repo st)\<lparr>working := content\<rparr>
    \<and> (accessible sys \<longrightarrow> content = (case new_manifest sys dep v strategy (manifest_of repo st) of
         None \<Rightarrow> manifest_of repo st | Some m \<Rightarrow> m))"
proof (cases "is_err (read_manifest sys (world st))")
  case True
  then have "\<not> accessible sys" by (auto simp: accessible_def)
  moreover have "st' = st" using True run by (auto simp: update_dependency_def split: sum.splits)
  ultimately show ?thesis by (intro exI [of _ "manifest_of repo st"]) simp
next
  case False
  then have read: "read_manifest sys (world st) = Inr (manifest_of repo st)"
    using laws by (auto simp: files_laws_def)
  show ?thesis
  proof (cases "new_manifest sys dep v strategy (manifest_of repo st)")
    case None
    with read run have "st' = st"
      by (auto simp: update_dependency_def new_manifest_def split: sum.splits option.splits)
    then show ?thesis using None by (intro exI [of _ "manifest_of repo st"]) simp
  next
    case (Some m)
    obtain answer w where w: "write_manifest sys m (world st) = (answer, w)" by fastforce
    let ?st = "\<lparr>world = w, trace = trace st @ [WriteManifest m]\<rparr>"
    obtain content where c: "repo w = (repo_of repo st)\<lparr>working := content\<rparr>" "\<not> is_err answer \<longrightarrow> content = m"
    proof -
      have "let (r, w) = write_manifest sys m (world st)
          in \<exists>content. repo w = (repo_of repo st)\<lparr>working := content\<rparr> \<and> (\<not> is_err r \<longrightarrow> content = m)"
        using laws unfolding files_laws_def by blast
      then show thesis using w that by auto
    qed
    have "update_dependency sys dep v strategy st = (case answer of
        Inl _ \<Rightarrow> (Inl (Error ''Failed to write Cargo.toml''), ?st) | Inr _ \<Rightarrow> update_lockfile sys dep v ?st)"
      using read Some w
      by (auto simp: update_dependency_def new_manifest_def Let_def split: sum.splits option.splits)
    then have "repo_of repo st' = repo w"
      using arg_cong [OF run, of snd] lockfile_repo [OF laws, of dep v ?st] by (auto split: sum.splits)
    moreover have "accessible sys \<longrightarrow> \<not> is_err answer" using w by (metis accessible_def fst_conv)
    ultimately show ?thesis using c Some by auto
  qed
qed

lemma update_dependency_is_fruitless:
  assumes "files_laws sys repo"
  shows "fruitless_run repo st (snd (update_dependency sys dep v strategy st))"
proof -
  obtain r st' where run: "update_dependency sys dep v strategy st = (r, st')" by fastforce
  have "adds fruitless st st'"
    using update_dependency_adds [of st sys dep v strategy] run
    by (auto simp: adds_def list_all_iff fruitless_def split: action.splits)
  then show ?thesis using update_dependency_repo [OF assms run] run by (auto simp: fruitless_run_def)
qed

lemma fetch_repo:
  "files_laws sys repo \<Longrightarrow> repo_of repo (snd (get_latest_major_version sys dep st)) = repo_of repo st"
proof -
  assume "files_laws sys repo"
  then have "repo (snd (http_get sys url x)) = repo x" for url x by (simp add: files_laws_def)
  from this [of "''https://crates.io/api/v1/crates/'' @ dep" "world st"] show ?thesis
    by (auto simp: get_latest_major_version_def Let_def split: prod.splits sum.splits option.splits)
qed

lemma fetch_is_fruitless:
  "files_laws sys repo \<Longrightarrow> fruitless_run repo st (snd (get_latest_major_version sys dep st))"
  using fetch_repo [of sys repo dep st] fetch_trace [of sys dep st] by (simp add: fruitless_run_def adds_def)

section \<open>A turn of the loop, and the loop\<close>

text \<open>What the fetch, the update and the pull request do, a turn does, and the whole run.\<close>

lemma check_dependency_path:
  assumes fetch: "\<And>st. R st (snd (get_latest_major_version sys dep st))"
    and update: "\<And>v strategy st. R st (snd (update_dependency sys dep v strategy st))"
    and pr: "\<And>v d st. R st (snd (create_pr sys dep v d labs st))"
    and trans: "\<And>a b c. R a b \<Longrightarrow> R b c \<Longrightarrow> R a c" and refl: "\<And>a. R a a"
  shows "R st (snd (check_dependency sys options labs dep dc st))"
proof -
  obtain latest st1 where f: "get_latest_major_version sys dep st = (latest, st1)" by fastforce
  have one: "R st st1" using fetch [of st] f by simp
  have two: "R st st2" if "update_dependency sys dep v strategy st1 = (r, st2)" for v strategy r st2
    using trans [OF one] update [of st1 v strategy] that by simp
  have three: "R st st3" if "update_dependency sys dep v strategy st1 = (r, st2)" "create_pr sys dep v' d labs st2 = (q, st3)"
    for v strategy r st2 v' d q st3
    using trans [OF two [OF that(1)]] pr [of st2 v' d] that(2) by simp
  show ?thesis
    using f one two three refl
    by (auto simp: check_dependency_def Let_def split: prod.splits sum.splits fault.splits)
qed

lemma check_all_path:
  assumes one: "\<And>dep dc st. R st (snd (check_dependency sys options labs dep dc st))"
    and trans: "\<And>a b c. R a b \<Longrightarrow> R b c \<Longrightarrow> R a c" and refl: "\<And>a. R a a"
  shows "R st (snd (check_all sys options labs deps found st))"
proof (induction deps arbitrary: found st)
  case (Cons d deps)
  obtain dep dc where d: "d = (dep, dc)" by fastforce
  obtain r st' where r: "check_dependency sys options labs dep dc st = (r, st')" by fastforce
  have "R st st'" using one [of st dep dc] r by simp
  then show ?case using trans Cons.IH d r by (cases r) auto
qed (simp add: refl)

lemma create_pr_run:
  "git_laws sys repo \<Longrightarrow> fruitless_run repo st (snd (create_pr sys dep v d labs st))"
  using create_pr_is_fruitless [of sys repo st dep v d labs "fst (create_pr sys dep v d labs st)"
      "snd (create_pr sys dep v d labs st)"]
  by (cases "lock_ignored (repo_of repo st)") (simp_all add: fruitless_run_def)

lemma check_dependency_is_fruitless:
  assumes "files_laws sys repo" and "git_laws sys repo"
  shows "fruitless_run repo st (snd (check_dependency sys options labs dep dc st))"
  by (rule check_dependency_path [where R = "fruitless_run repo"])
    (rule fetch_is_fruitless [OF assms(1)] update_dependency_is_fruitless [OF assms(1)] create_pr_run [OF assms(2)]
      fruitless_run_refl | erule fruitless_run_trans, assumption)+

lemma check_all_is_fruitless:
  assumes "files_laws sys repo" and "git_laws sys repo"
  shows "fruitless_run repo st (snd (check_all sys options labs deps found st))"
  by (rule check_all_path [where R = "fruitless_run repo"])
    (rule check_dependency_is_fruitless [OF assms] fruitless_run_refl | erule fruitless_run_trans, assumption)+

text \<open>The current version is a function of the manifest.\<close>

lemma current_version_of:
  "files_laws sys repo \<Longrightarrow> accessible sys \<Longrightarrow>
   get_current_version sys dep st = current_version_in sys dep (manifest_of repo st)"
  by (simp add: get_current_version_def read_accessible)

text \<open>crates.io does not publish during the run.\<close>

definition steady :: "('x, 'd) sys \<Rightarrow> bool" where
  "steady sys \<longleftrightarrow> (\<forall>url x y. fst (http_get sys url x) = fst (http_get sys url y))"

lemma fetch_steady:
  assumes "steady sys"
  shows "fst (get_latest_major_version sys dep st) = fst (get_latest_major_version sys dep st')"
proof -
  let ?url = "''https://crates.io/api/v1/crates/'' @ dep"
  obtain a w b w' where "http_get sys ?url (world st) = (a, w)" "http_get sys ?url (world st') = (b, w')" by fastforce
  moreover from this have "a = b" using assms unfolding steady_def by (metis fst_conv)
  ultimately show ?thesis
    by (auto simp: get_latest_major_version_def Let_def split: prod.splits sum.splits option.splits)
qed

text \<open>
  The release a dependency is to be updated to, given what crates.io answers and the manifest;
  and the manifest after its turn.
\<close>

definition planned :: "('x, 'd) sys \<Rightarrow> 'x tool_state \<Rightarrow> string \<Rightarrow> string \<Rightarrow> dependency_config \<Rightarrow> version option" where
  "planned sys st content dep dc =
    (if \<not> enabled dc then None
     else case (fst (get_latest_major_version sys dep st), current_version_in sys dep content) of
       (Inr latest, Inr current) \<Rightarrow> if is_major_update sys current latest then Some latest else None
     | _ \<Rightarrow> None)"

definition updated :: "('x, 'd) sys \<Rightarrow> 'x tool_state \<Rightarrow> string \<times> dependency_config \<Rightarrow> string \<Rightarrow> string" where
  "updated sys st = (\<lambda>(dep, dc) content.
    (case planned sys st content dep dc of None \<Rightarrow> content
     | Some v \<Rightarrow> (case new_manifest sys dep (version_string sys v) (bump_strategy dc) content of
         None \<Rightarrow> content | Some m \<Rightarrow> m)))"

lemma updated_steady: "steady sys \<Longrightarrow> updated sys st = updated sys st'"
proof -
  assume steady: "steady sys"
  have "planned sys st = planned sys st'"
    using fetch_steady [OF steady, of _ st st'] by (intro ext) (simp only: planned_def)
  then show ?thesis by (simp add: updated_def)
qed

lemma check_dependency_updates:
  assumes laws: "files_laws sys repo" "git_laws sys repo" and "accessible sys" and "lock_ignored (repo_of repo st)"
    and mode: "\<not> dry_run options"
    and run: "check_dependency sys options labs dep dc st = (Inr found, st')"
  shows "manifest_of repo st' = updated sys st (dep, dc) (manifest_of repo st)"
proof -
  obtain latest st1 where f: "get_latest_major_version sys dep st = (latest, st1)" by fastforce
  have g1: "repo_of repo st1 = repo_of repo st" using fetch_repo [OF laws(1), of dep st] f by simp
  have cur: "get_current_version sys dep st1 = current_version_in sys dep (manifest_of repo st)"
    using current_version_of [OF laws(1) \<open>accessible sys\<close>, of dep st1] g1 by simp
  show ?thesis
  proof (cases "planned sys st (manifest_of repo st) dep dc")
    case None
    then have "repo_of repo st' = repo_of repo st"
      using run f g1 cur
      by (auto simp: check_dependency_def planned_def split: if_splits sum.splits fault.splits)
    then show ?thesis using None by (simp add: updated_def)
  next
    case (Some v)
    then obtain current where v: "enabled dc" "latest = Inr v" "get_current_version sys dep st1 = Inr current"
      "is_major_update sys current v"
      using f cur by (auto simp: planned_def split: if_splits sum.splits)
    obtain r st2 where u: "update_dependency sys dep (version_string sys v) (bump_strategy dc) st1 = (r, st2)"
      by fastforce
    obtain content where c: "repo_of repo st2 = (repo_of repo st1)\<lparr>working := content\<rparr>"
        "content = (case new_manifest sys dep (version_string sys v) (bump_strategy dc) (manifest_of repo st1) of
           None \<Rightarrow> manifest_of repo st1 | Some m \<Rightarrow> m)"
      using update_dependency_repo [OF laws(1) u] \<open>accessible sys\<close> by blast
    have "lock_ignored (repo_of repo st2)" using assms(4) c(1) g1 by (simp add: lock_ignored_def)
    note pr = create_pr_is_fruitless [OF laws(2) this]
    have "st' = st2 \<or> (\<exists>d r'. create_pr sys dep (version_string sys v) d labs st2 = (r', st'))"
      using run f v u mode
      by (auto simp: check_dependency_def split: if_splits sum.splits fault.splits prod.splits)
    then have "manifest_of repo st' = manifest_of repo st2" using pr by auto
    then show ?thesis using c [unfolded g1] Some by (simp add: updated_def split: option.splits)
  qed
qed

lemma check_all_updates:
  assumes "files_laws sys repo" and "git_laws sys repo" and "accessible sys" and "steady sys" and "\<not> dry_run options"
    and "lock_ignored (repo_of repo st)" and "check_all sys options labs deps found st = (Inr found', st')"
  shows "manifest_of repo st' = fold (updated sys st) deps (manifest_of repo st)"
  using assms(6,7)
proof (induction deps arbitrary: found st)
  case (Cons d deps)
  obtain dep dc where d: "d = (dep, dc)" by fastforce
  obtain f1 st1 where run: "check_dependency sys options labs dep dc st = (Inr f1, st1)"
    and rest: "check_all sys options labs deps (found \<or> f1) st1 = (Inr found', st')"
    using Cons.prems(2) d by (auto split: prod.splits sum.splits)
  have "lock_ignored (repo_of repo st1)"
    using check_dependency_is_fruitless [OF assms(1,2), of st options labs dep dc] run Cons.prems(1)
    by (auto simp: fruitless_run_def nothing_committed_def lock_ignored_def)
  note IH = Cons.IH [OF this rest]
  show ?case
    using IH check_dependency_updates [OF assms(1-3) Cons.prems(1) assms(5) run]
      updated_steady [OF assms(4), of st1 st] d by simp
qed simp

section \<open>A repository of two dependencies\<close>

text \<open>
  A world that is the repository itself, with two releases on crates.io, a manifest that lists
  the dependencies updated so far, and an ignored lock file.
\<close>

definition run_demo :: "string \<Rightarrow> string list \<Rightarrow> repo \<Rightarrow> (string + bool \<times> string) \<times> repo" where
  "run_demo prog args g =
    (if prog \<noteq> ''git'' then (Inr (True, ''''), g)
     else if hd args = ''rev-parse'' then (Inr (branches g (args ! 2) \<noteq> None, ''fatal''), g)
     else if hd args = ''checkout'' then
       (if branches g (args ! 2) \<noteq> None then (Inr (False, ''already exists''), g)
        else (Inr (True, ''''), g\<lparr>checked_out := args ! 2, branches := (branches g)(args ! 2 \<mapsto> head g)\<rparr>))
     else if hd args = ''add'' then (Inr (\<not> lock_ignored g, ''paths are ignored''), g\<lparr>staged := working g\<rparr>)
     else (Inr (True, ''''), g))"

definition demo_sys :: "(repo, string) sys" where
  "demo_sys =
    \<lparr>http_get = \<lambda>url w. (Inr (True, ''200 OK'', Inr [\<lparr>num = ''1'', yanked = False\<rparr>, \<lparr>num = ''2'', yanked = False\<rparr>]), w),
     read_config = \<lambda>path w. Inr \<lparr>config_version = 1,
        config_settings = \<lparr>schedule = '''', branch_prefix = ''auto-deps'', labels = [], draft_prs = False\<rparr>,
        dependencies = [(''cron'', \<lparr>enabled = True, track = ''major'', bump_strategy = ''minor''\<rparr>),
          (''chrono'', \<lparr>enabled = True, track = ''major'', bump_strategy = ''minor''\<rparr>)]\<rparr>,
     read_manifest = \<lambda>w. Inr (working w),
     write_manifest = \<lambda>text w. (Inr (), w\<lparr>working := text\<rparr>),
     exec = run_demo,
     toml_parse = Inr, toml_print = (\<lambda>d. d),
     dep_version = \<lambda>d dep. Inr (Some ''1''), dep_str = \<lambda>d dep. Inr None,
     dep_is_table = \<lambda>d dep. True, dep_is_str = \<lambda>d dep. False,
     set_dep_version = \<lambda>dep v d. d @ '' '' @ dep, set_dep_str = \<lambda>dep v d. d,
     package_version = \<lambda>d. Inr (Some ''1''), set_package_version = \<lambda>v d. d,
     version_parse = \<lambda>s. if s = ''1'' then Some (version_new 1 0 0)
        else if s = ''2'' then Some (version_new 2 0 0) else None,
     version_string = \<lambda>v. if major v = 1 then ''1'' else ''2'',
     version_less = \<lambda>u v. major u < major v, caret_matches = \<lambda>c v. major c = major v\<rparr>"

definition demo_start :: "repo tool_state" where
  "demo_start = \<lparr>world = \<lparr>checked_out = ''main'', head = ''base'', branches = [''main'' \<mapsto> ''base''],
     working = ''base'', staged = ''base'', ignored = {''Cargo.lock'', ''target''}\<rparr>, trace = []\<rparr>"

abbreviation demo_ci :: check_deps_options where
  "demo_ci \<equiv> \<lparr>config_path = ''cfg'', dry_run = False, no_push = False, ci = True\<rparr>"

abbreviation demo_dep :: dependency_config where
  "demo_dep \<equiv> \<lparr>enabled = True, track = ''major'', bump_strategy = ''minor''\<rparr>"

abbreviation demo_config :: config where
  "demo_config \<equiv> \<lparr>config_version = 1, config_settings = \<lparr>schedule = '''', branch_prefix = ''auto-deps'', labels = [],
    draft_prs = False\<rparr>, dependencies = [(''cron'', demo_dep), (''chrono'', demo_dep)]\<rparr>"

lemma load_demo_config: "load_config demo_sys path st = Inr demo_config"
  by (simp add: load_config_def demo_sys_def)

lemma demo_files_laws: "files_laws demo_sys (\<lambda>g. g)"
  by (simp add: files_laws_def demo_sys_def run_demo_def)

lemma demo_git_laws: "git_laws demo_sys (\<lambda>g. g)"
  by (simp add: git_laws_def demo_sys_def run_demo_def succeeds_def)

lemma demo_accessible: "accessible demo_sys"
  by (simp add: accessible_def demo_sys_def)

lemma demo_steady: "steady demo_sys"
  by (simp add: steady_def demo_sys_def)

lemma demo_lock_ignored: "lock_ignored (world demo_start)"
  by (simp add: lock_ignored_def demo_start_def)

lemma demo_latest: "get_latest_major_version demo_sys dep st = (Inr (version_new 2 0 0), st)"
  by (simp add: get_latest_major_version_def demo_sys_def stable_versions_def version_new_def map_filter_simps Let_def)

lemma demo_current: "current_version_in demo_sys dep content = Inr (version_new 1 0 0)"
  by (simp add: current_version_in_def demo_sys_def Let_def)

lemma demo_current_version: "get_current_version demo_sys dep st = Inr (version_new 1 0 0)"
  using current_version_of [OF demo_files_laws demo_accessible, of dep st] by (simp add: demo_current)

lemma demo_due: "is_major_update demo_sys (version_new 1 0 0) (version_new 2 0 0)"
  by (simp add: is_major_update_def demo_sys_def version_new_def)

lemma demo_updated: "updated demo_sys st (dep, demo_dep) content = content @ '' '' @ dep"
  by (simp add: updated_def planned_def demo_latest demo_current demo_due)
    (simp add: new_manifest_def demo_sys_def set_dependency_def bump_version_def checked_inc_def version_new_def)

lemma demo_update:
  "update_dependency demo_sys dep v ''minor'' st
     = (Ok_unit, \<lparr>world = (world st)\<lparr>working := working (world st) @ '' '' @ dep\<rparr>,
         trace = trace st @ [WriteManifest (working (world st) @ '' '' @ dep),
           Exec ''cargo'' [''update'', ''-p'', dep, ''--precise'', v]]\<rparr>)"
  by (simp add: update_dependency_def demo_sys_def set_dependency_def bump_version_def checked_inc_def version_new_def
      update_lockfile_def run_program_def run_demo_def Let_def)

lemma demo_check: "\<exists>st'. check_dependency demo_sys demo_ci labs dep demo_dep st = (Inr True, st')"
  by (simp add: check_dependency_def demo_latest demo_current_version demo_due demo_update Let_def split: prod.split)

lemma demo_run: "\<exists>st'. check_dependencies demo_sys (\<lambda>es. es) ''/w/xtask'' (\<lambda>_ _. Inr ()) demo_ci demo_start
    = (Inr True, st')"
proof -
  obtain st1 where one: "check_dependency demo_sys demo_ci [] ''cron'' demo_dep demo_start = (Inr True, st1)"
    using demo_check by blast
  moreover obtain st2 where "check_dependency demo_sys demo_ci [] ''chrono'' demo_dep st1 = (Inr True, st2)"
    using demo_check by blast
  ultimately show ?thesis
    by (simp add: check_dependencies_def load_demo_config crates_io_client_def updater_new_def path_parent_def unslashed_def)
qed

section \<open>Properties\<close>

text \<open>
  C6. In this repository no pull request is ever made. \<open>.gitignore\<close> lists
  \<open>Cargo.lock\<close>, which is not tracked, so \<open>git add ractor_actors/Cargo.toml
  Cargo.lock\<close> exits with an error. Assuming that, that a new branch starts at the commit
  that is checked out, and that the other programs and files touch nothing but the manifest in
  the working tree and the lock file: a run of the tracker, whatever its options and whatever
  fails, never commits, pushes, opens a request or returns to a branch. The commands it starts
  are those that update the lock file, look for a branch, create it and stage. The commit that
  is checked out stays the same one, the branches of the start stay as they were, and a branch
  the run leaves behind is at that same commit, without the update it is named after.
\<close>

theorem no_pull_request_is_made:
  assumes "files_laws sys repo" and "git_laws sys repo" and "lock_ignored (repo_of repo st)"
    and "check_dependencies sys ord manifest_dir builder options st = (r, st')"
  shows "(\<exists>acts. trace st' = trace st @ acts \<and> list_all fruitless acts)
    \<and> head (repo_of repo st') = head (repo_of repo st)
    \<and> (\<forall>b. branches (repo_of repo st') b = branches (repo_of repo st) b
         \<or> branches (repo_of repo st) b = None \<and> branches (repo_of repo st') b = Some (head (repo_of repo st)))"
proof -
  have "fruitless_run repo st (snd (check_dependencies sys ord manifest_dir builder options st))"
    using check_all_is_fruitless [OF assms(1,2)] by (simp add: check_dependencies_def split: sum.splits)
  then show ?thesis using assms(3,4) by (simp add: fruitless_run_def adds_def nothing_committed_def)
qed

theorem no_pull_request_is_made_witness:
  "\<exists>st'. check_dependencies demo_sys (\<lambda>es. es) ''/w/xtask'' (\<lambda>_ _. Inr ()) demo_ci demo_start = (Inr True, st')
    \<and> list_all fruitless (trace st') \<and> head (world st') = ''base'' \<and> branches (world st') ''main'' = Some ''base''"
proof -
  obtain st' where run: "check_dependencies demo_sys (\<lambda>es. es) ''/w/xtask'' (\<lambda>_ _. Inr ()) demo_ci demo_start
      = (Inr True, st')"
    using demo_run by blast
  have start: "trace demo_start = []" "head (world demo_start) = ''base''" "branches (world demo_start) ''main'' = Some ''base''"
    by (simp_all add: demo_start_def)
  note claim = no_pull_request_is_made [OF demo_files_laws demo_git_laws demo_lock_ignored run, unfolded start(1,2)]
  have "branches (world st') ''main'' = Some ''base''"
    using spec [OF conjunct2 [OF conjunct2 [OF claim]], of "''main''"] start(3) by simp
  then show ?thesis using claim run by (intro exI [of _ st']) simp
qed

text \<open>
  C20. The updates of a run pile up in the manifest. With the lock file ignored, as in this
  repository, while the manifest can be read and written and crates.io does not publish during
  the run, a run that is not a dry run and does not panic leaves in the working tree the
  manifest of the start with all due updates on top of each other: each one is computed on the
  manifest the one before it left, so with two updates due the package version is bumped twice.
  None of it is committed. Nothing restores the manifest between two dependencies, although each
  of them was to get a pull request of its own.
\<close>

theorem updates_pile_up:
  assumes "files_laws sys repo" and "git_laws sys repo" and "accessible sys" and "steady sys"
    and "lock_ignored (repo_of repo st)" and "\<not> dry_run options"
    and "load_config sys (config_path options) st = Inr cfg"
    and "check_dependencies sys ord manifest_dir builder options st = (Inr found, st')"
  shows "manifest_of repo st' = fold (updated sys st) (ord (dependencies cfg)) (manifest_of repo st)
    \<and> head (repo_of repo st') = head (repo_of repo st)"
proof -
  have run: "check_all sys options (labels (config_settings cfg)) (ord (dependencies cfg)) False st = (Inr found, st')"
    using assms(7,8) by (simp add: check_dependencies_def split: sum.splits)
  have "fruitless_run repo st st'"
    using check_all_is_fruitless [OF assms(1,2), of st options "labels (config_settings cfg)" "ord (dependencies cfg)" False]
      run by simp
  then show ?thesis
    using check_all_updates [OF assms(1-4,6,5) run] assms(5)
    by (simp add: fruitless_run_def nothing_committed_def)
qed

theorem updates_pile_up_witness:
  "\<exists>st'. check_dependencies demo_sys (\<lambda>es. es) ''/w/xtask'' (\<lambda>_ _. Inr ()) demo_ci demo_start = (Inr True, st')
    \<and> working (world st') = ''base cron chrono'' \<and> head (world st') = ''base''"
proof -
  obtain st' where run: "check_dependencies demo_sys (\<lambda>es. es) ''/w/xtask'' (\<lambda>_ _. Inr ()) demo_ci demo_start
      = (Inr True, st')"
    using demo_run by blast
  show ?thesis
    using updates_pile_up [OF demo_files_laws demo_git_laws demo_accessible demo_steady demo_lock_ignored _
        load_demo_config run] run
    by (simp add: demo_updated demo_start_def)
qed

end
