(* ===== verification/Example_Tcp.thy ===== *)
theory Example_Tcp
  imports Tcp_Session Tcp_Listener Watchdog
begin

text \<open>
  The example server \<open>src/ractor_actors/examples/tcp.rs\<close>, which answers every frame with a
  time and the frame, and the example client \<open>src/ractor_actors/examples/tcp_client.rs\<close>,
  which speaks the frame format without the library.

  A \<open>String\<close> is the bytes of its UTF-8 encoding. What the runtime returns for a spawn or a
  cast, what the watchdog's front end returns, the clock and the environment variables are
  arguments.
\<close>

section \<open>UTF-8: \<open>String::from_utf8\<close>\<close>

text \<open>The well-formed byte sequences: no overlong forms, no surrogates, nothing above U+10FFFF.\<close>

abbreviation continuation :: "byte \<Rightarrow> bool" where
  "continuation b \<equiv> 0x80 \<le> b \<and> b \<le> 0xBF"

fun utf8_valid :: "byte list \<Rightarrow> bool" where
  "utf8_valid [] = True"
| "utf8_valid (a # bs) =
    (if a \<le> 0x7F then utf8_valid bs
     else if 0xC2 \<le> a \<and> a \<le> 0xDF then
       (case bs of b # cs \<Rightarrow> continuation b \<and> utf8_valid cs | _ \<Rightarrow> False)
     else if 0xE0 \<le> a \<and> a \<le> 0xEF then
       (case bs of b # c # cs \<Rightarrow> continuation b \<and> (a = 0xE0 \<longrightarrow> 0xA0 \<le> b) \<and> (a = 0xED \<longrightarrow> b \<le> 0x9F)
          \<and> continuation c \<and> utf8_valid cs | _ \<Rightarrow> False)
     else if 0xF0 \<le> a \<and> a \<le> 0xF4 then
       (case bs of b # c # d # cs \<Rightarrow> continuation b \<and> (a = 0xF0 \<longrightarrow> 0x90 \<le> b) \<and> (a = 0xF4 \<longrightarrow> b \<le> 0x8F)
          \<and> continuation c \<and> continuation d \<and> utf8_valid cs | _ \<Rightarrow> False)
     else False)"

definition from_utf8 :: "byte list \<Rightarrow> byte list option" where
  "from_utf8 bs = (if utf8_valid bs then Some bs else None)"

text \<open>The bytes of an ASCII string.\<close>

definition bytes_of :: "string \<Rightarrow> byte list" where
  "bytes_of s = map (\<lambda>c. of_nat (of_char c)) s"

section \<open>The server and its acceptor\<close>

record my_server_args =
  server_watchdog :: bool
  server_port :: "16 word"

text \<open>Starting the listener is the whole start-up; \<open>spawn\<close> is what the runtime returns for it.\<close>

definition my_server_pre_start :: "(string \<Rightarrow> 'tls listener_startup_args \<times> bool \<Rightarrow> unit result)
    \<Rightarrow> my_server_args \<Rightarrow> unit result" where
  "my_server_pre_start spawn args =
     spawn (''listener-'' @ decimal (unat (server_port args)))
       (\<lparr>port = server_port args, args_encryption = RawMode\<rparr>, server_watchdog args)"

record ('addr, 'sock) my_session_args =
  arg_watchdog :: bool
  arg_stream :: "('addr, 'sock) network_stream"

text \<open>A session is an actor named after the port of its peer.\<close>

definition my_session_name :: "16 word \<Rightarrow> string" where
  "my_session_name p = ''MySession-'' @ decimal (unat p)"

definition my_new_session :: "('addr \<Rightarrow> 16 word)
    \<Rightarrow> (string \<Rightarrow> ('addr, 'sock) my_session_args \<Rightarrow> unit result) \<Rightarrow> bool
    \<Rightarrow> ('addr, 'sock) network_stream \<Rightarrow> unit result" where
  "my_new_session port_of spawn watchdog strm =
    (case spawn (my_session_name (port_of (stream_peer_addr strm)))
        \<lparr>arg_watchdog = watchdog, arg_stream = strm\<rparr> of
       Inl e \<Rightarrow> Inl e
     | Inr _ \<Rightarrow> Ok_unit)"

section \<open>A session of the server\<close>

record 'ref my_session_state =
  use_watchdog :: bool
  tcp_session :: 'ref

datatype my_session_effect =
    PingWatchdog
  | CastSend frame

text \<open>The TCP session is spawned first, then the watchdog is told, with three seconds to stop.\<close>

definition my_session_period :: nat where
  "my_session_period = 3"

definition my_session_strategy :: timeout_strategy where
  "my_session_strategy = Stop"

definition my_session_pre_start :: "(('addr, 'sock) network_stream \<Rightarrow> fault + 'ref)
    \<Rightarrow> (nat \<Rightarrow> timeout_strategy \<Rightarrow> messaging_err + unit) \<Rightarrow> ('addr, 'sock) my_session_args
    \<Rightarrow> 'ref my_session_state result" where
  "my_session_pre_start spawn_tcp register args =
    (case spawn_tcp (arg_stream args) of
       Inl e \<Rightarrow> Inl e
     | Inr session \<Rightarrow>
       (if arg_watchdog args
        then (case register my_session_period my_session_strategy of
                Inl SendErr \<Rightarrow> Inl (Error ''SendErr'')
              | Inr _ \<Rightarrow> Inr \<lparr>use_watchdog = True, tcp_session = session\<rparr>)
        else Inr \<lparr>use_watchdog = False, tcp_session = session\<rparr>))"

definition my_session_post_stop :: "'ref my_session_state
    \<Rightarrow> ('ref my_session_state, my_session_effect) outcome" where
  "my_session_post_stop st = Outcome st [] Ok_unit"

text \<open>The receiver of the TCP session passes frames on; \<open>cast\<close> is the runtime's answer.\<close>

definition my_receiver_frame_ready :: "(frame \<Rightarrow> unit result) \<Rightarrow> frame \<Rightarrow> unit result" where
  "my_receiver_frame_ready cast f = cast f"

record my_env =
  ping_answer :: "messaging_err + unit"
  timestamp :: "byte list"
  send_answer :: "unit result"

definition echo_reply :: "byte list \<Rightarrow> byte list \<Rightarrow> frame" where
  "echo_reply time message = time @ bytes_of '': '' @ message"

definition my_frame_ready :: "my_env \<times> frame \<Rightarrow> 'ref my_session_state
    \<Rightarrow> ('ref my_session_state, my_session_effect) outcome" where
  "my_frame_ready inp st =
    (case inp of (env, frm) \<Rightarrow>
     (let pings = (if use_watchdog st then [PingWatchdog] else [])
      in if use_watchdog st \<and> is_err (ping_answer env)
         then Outcome st pings (Inl (Error ''SendErr''))
         else case from_utf8 frm of
           None \<Rightarrow> Outcome st pings
             (Inl (Panic ''called `Result::unwrap()` on an `Err` value: FromUtf8Error''))
         | Some message \<Rightarrow>
             Outcome st (pings @ [CastSend (echo_reply (timestamp env) message)]) (send_answer env)))"

abbreviation run_my_session where
  "run_my_session \<equiv> run_actor my_frame_ready (\<lambda>_. False)"

fun replies :: "my_session_effect list \<Rightarrow> frame list" where
  "replies [] = []"
| "replies (CastSend f # es) = f # replies es"
| "replies (PingWatchdog # es) = replies es"

section \<open>The main function of the server\<close>

text \<open>\<open>u16::from_str\<close>: an optional plus sign, at least one digit, and no overflow.\<close>

definition digit_value :: "char \<Rightarrow> nat option" where
  "digit_value c = (if 48 \<le> (of_char c :: nat) \<and> (of_char c :: nat) \<le> 57 then Some (of_char c - 48) else None)"

fun parse_digits :: "nat \<Rightarrow> string \<Rightarrow> nat option" where
  "parse_digits acc [] = Some acc"
| "parse_digits acc (c # cs) =
    (case digit_value c of
       None \<Rightarrow> None
     | Some d \<Rightarrow> if acc * 10 + d < 2 ^ 16 then parse_digits (acc * 10 + d) cs else None)"

definition parse_port :: "string \<Rightarrow> 16 word option" where
  "parse_port s =
    (let digits = (case s of c # cs \<Rightarrow> if c = CHR ''+'' then cs else s | [] \<Rightarrow> [])
     in if digits = [] then None else map_option of_nat (parse_digits 0 digits))"

definition unwrap_or :: "'a option \<Rightarrow> 'a \<Rightarrow> 'a" where
  "unwrap_or x d = (case x of None \<Rightarrow> d | Some v \<Rightarrow> v)"

text \<open>The arguments \<open>main\<close> takes from its environment; a port that does not parse is its error.\<close>

definition server_args_of_env :: "string option \<Rightarrow> string option \<Rightarrow> my_server_args result" where
  "server_args_of_env port_var watchdog_var =
    (case parse_port (unwrap_or port_var ''9999'') of
       None \<Rightarrow> Inl (Error ''ParseIntError'')
     | Some p \<Rightarrow> Inr \<lparr>server_watchdog = (unwrap_or watchdog_var ''0'' = ''1''), server_port = p\<rparr>)"

text \<open>
  \<open>main\<close>, up to logging: it spawns the server, waits for Ctrl-C, and stops the server;
  \<open>stopped\<close> is what the runtime returns for the stop.
\<close>

definition server_main :: "string option \<Rightarrow> string option \<Rightarrow> (my_server_args \<Rightarrow> unit result)
    \<Rightarrow> unit result \<Rightarrow> unit result" where
  "server_main port_var watchdog_var spawn stopped =
    (case server_args_of_env port_var watchdog_var of
       Inl e \<Rightarrow> Inl e
     | Inr args \<Rightarrow> (case spawn args of Inl e \<Rightarrow> Inl e | Inr _ \<Rightarrow> stopped))"

section \<open>The client\<close>

text \<open>\<open>read_exact\<close> of the socket's reader: the bytes, or an error.\<close>

type_synonym 'r exact_reader = "nat \<Rightarrow> 'r \<Rightarrow> byte list option \<times> 'r"

definition client_packet :: "byte list \<Rightarrow> byte list" where
  "client_packet msg_bytes =
    (let msg_len = (word_of_nat (length msg_bytes) :: 64 word)
     in be_bytes msg_len @ msg_bytes)"

datatype client_line =
    Received "byte list"
  | InvalidUtf8

datatype client_end = ClosedByServer | FailedToRead | ReaderPanic

text \<open>The reading task: what it prints, and how it ends; \<open>None\<close> if it never does.\<close>

definition print_line :: "byte list \<Rightarrow> client_line" where
  "print_line buffer = (case from_utf8 buffer of Some message \<Rightarrow> Received message | None \<Rightarrow> InvalidUtf8)"

partial_function (option) client_reads :: "'r exact_reader \<Rightarrow> 'r
    \<Rightarrow> (client_line list \<times> client_end) option" where
  "client_reads read_exact r =
    (case read_exact 8 r of
       (None, r1) \<Rightarrow> Some ([], ClosedByServer)
     | (Some len_buf, r1) \<Rightarrow>
       (let msg_len = unat (from_be len_buf)
        in if max_buffer < msg_len then Some ([], ReaderPanic)
           else case read_exact msg_len r1 of
             (None, r2) \<Rightarrow> Some ([], FailedToRead)
           | (Some buffer, r2) \<Rightarrow>
               Option.bind (client_reads read_exact r2)
                 (\<lambda>(lines, e). Some (print_line buffer # lines, e))))"

text \<open>The sending loop: the packets written, until a write fails.\<close>

fun client_sends :: "('w \<Rightarrow> byte list \<Rightarrow> unit io_result \<times> 'w) \<Rightarrow> byte list list \<Rightarrow> 'w \<Rightarrow> 'w" where
  "client_sends write [] w = w"
| "client_sends write (msg # msgs) w =
    (case write w (client_packet msg) of
       (Inl _, w') \<Rightarrow> w'
     | (Inr _, w') \<Rightarrow> client_sends write msgs w')"

section \<open>Sessions of the server\<close>

lemma replies_append [simp]: "replies (xs @ ys) = replies xs @ replies ys"
  by (induction xs rule: replies.induct) simp_all

text \<open>The inputs a session survives.\<close>

fun survived :: "bool \<Rightarrow> my_env \<times> frame \<Rightarrow> bool" where
  "survived watchdog (env, f) \<longleftrightarrow> utf8_valid f \<and> (watchdog \<longrightarrow> \<not> is_err (ping_answer env))
     \<and> \<not> is_err (send_answer env)"

definition echo :: "my_env \<times> frame \<Rightarrow> frame" where
  "echo inp = echo_reply (timestamp (fst inp)) (snd inp)"

lemma echo_run:
  assumes "list_all (survived (use_watchdog st)) ins"
  shows "state_of (run_my_session st ins) = st \<and> returned (run_my_session st ins) = Ok_unit
    \<and> replies (effects (run_my_session st ins)) = map echo ins"
  using assms
proof (induction ins)
  case (Cons i ins)
  obtain env f where i: "i = (env, f)" by fastforce
  have "send_answer env = Ok_unit" using Cons.prems i by (cases "send_answer env") simp_all
  then show ?case
    using Cons i by (auto simp: my_frame_ready_def from_utf8_def halts_def echo_def list_ex_iff Let_def)
qed simp

lemma my_session_append:
  assumes "list_all (survived (use_watchdog st)) ins"
  shows "run_my_session st (ins @ later) = followed_by (run_my_session st ins) (run_my_session st later)"
proof -
  have "\<not> halts (\<lambda>_. False) (run_my_session st ins)"
    using echo_run [OF assms] by (simp add: halts_def list_ex_iff)
  from run_actor_append [OF this] show ?thesis using echo_run [OF assms] by simp
qed

section \<open>Replies are UTF-8\<close>

lemma utf8_valid_append: "utf8_valid xs \<Longrightarrow> utf8_valid ys \<Longrightarrow> utf8_valid (xs @ ys)"
proof (induction xs rule: utf8_valid.induct)
  case (2 a bs)
  consider (one) "a \<le> 0x7F"
    | (two) "\<not> a \<le> 0x7F" "0xC2 \<le> a \<and> a \<le> 0xDF"
    | (three) "\<not> a \<le> 0x7F" "\<not> (0xC2 \<le> a \<and> a \<le> 0xDF)" "0xE0 \<le> a \<and> a \<le> 0xEF"
    | (four) "\<not> a \<le> 0x7F" "\<not> (0xC2 \<le> a \<and> a \<le> 0xDF)" "\<not> (0xE0 \<le> a \<and> a \<le> 0xEF)" "0xF0 \<le> a \<and> a \<le> 0xF4"
    using 2(5) by (simp only: utf8_valid.simps split: if_splits) blast+
  then show ?case
  proof cases
    case one
    then have "utf8_valid bs" using 2(5) by (simp only: utf8_valid.simps if_True)
    then show ?thesis using one 2(1) [OF one _ 2(6)] by (simp only: append_Cons utf8_valid.simps if_True simp_thms)
  next
    case two
    then obtain b cs where bs: "bs = b # cs" "continuation b" "utf8_valid cs"
      using 2(5) by (simp only: utf8_valid.simps if_False if_True) (auto split: list.splits)
    then show ?thesis using two 2(2) [OF two bs(1) _ 2(6)]
      by (simp only: append_Cons utf8_valid.simps if_False if_True list.case simp_thms)
  next
    case three
    then obtain b c cs where bs: "bs = b # c # cs" "utf8_valid cs"
        "continuation b \<and> (a = 0xE0 \<longrightarrow> 0xA0 \<le> b) \<and> (a = 0xED \<longrightarrow> b \<le> 0x9F) \<and> continuation c"
      using 2(5) by (simp only: utf8_valid.simps if_False if_True) (auto split: list.splits)
    then show ?thesis using three 2(3) [OF three bs(1) refl _ 2(6)]
      by (simp only: append_Cons utf8_valid.simps if_False if_True list.case simp_thms) blast
  next
    case four
    then obtain b c d cs where bs: "bs = b # c # d # cs" "utf8_valid cs"
        "continuation b \<and> (a = 0xF0 \<longrightarrow> 0x90 \<le> b) \<and> (a = 0xF4 \<longrightarrow> b \<le> 0x8F) \<and> continuation c \<and> continuation d"
      using 2(5) by (simp only: utf8_valid.simps if_False if_True) (auto split: list.splits)
    then show ?thesis using four 2(4) [OF four bs(1) refl refl _ 2(6)]
      by (simp only: append_Cons utf8_valid.simps if_False if_True list.case simp_thms) blast
  qed
qed simp

lemma echo_reply_valid:
  "utf8_valid time \<Longrightarrow> utf8_valid f \<Longrightarrow> utf8_valid (echo_reply time f)"
  unfolding echo_reply_def by (intro utf8_valid_append) (simp_all add: bytes_of_def)

section \<open>The client reads frames\<close>

text \<open>The documented behaviour of \<open>read_exact\<close> on a connection without errors.\<close>

definition exact_bytes :: "'r exact_reader \<Rightarrow> ('r \<Rightarrow> byte list) \<Rightarrow> bool" where
  "exact_bytes read_exact pending \<longleftrightarrow>
    (\<forall>n r. if n \<le> length (pending r)
           then fst (read_exact n r) = Some (take n (pending r)) \<and> pending (snd (read_exact n r)) = drop n (pending r)
           else fst (read_exact n r) = None)"

definition end_of_client :: "parse_end \<Rightarrow> client_end \<Rightarrow> bool" where
  "end_of_client e ce = (case e of TooLong \<Rightarrow> ce = ReaderPanic | Closed \<Rightarrow> ce \<in> {ClosedByServer, FailedToRead})"

lemma client_reads_cut:
  assumes ex: "exact_bytes read_exact pending"
  shows "\<exists>ce. client_reads read_exact r = Some (map print_line (fst (cut_frames (pending r))), ce)
    \<and> end_of_client (snd (cut_frames (pending r))) ce"
proof (induction "length (pending r)" arbitrary: r rule: less_induct)
  case less
  let ?p = "pending r"
  note law = ex [unfolded exact_bytes_def, rule_format]
  show ?case
  proof (cases "8 \<le> length ?p")
    case False
    then obtain r1 where "read_exact 8 r = (None, r1)" using law [of 8 r] by (cases "read_exact 8 r") simp
    then show ?thesis using False
      by (subst client_reads.simps) (simp add: cut_short end_of_client_def)
  next
    case True
    then obtain r1 where r1: "read_exact 8 r = (Some (take 8 ?p), r1)" "pending r1 = drop 8 ?p"
      using law [of 8 r] by (cases "read_exact 8 r") simp
    let ?n = "unat (from_be (take 8 ?p))"
    consider (long) "max_buffer < ?n" | (short) "?n \<le> max_buffer" "length (pending r1) < ?n"
      | (frame) "?n \<le> max_buffer" "?n \<le> length (pending r1)" by linarith
    then show ?thesis
    proof cases
      case long
      then have "cut_frames ?p = ([], TooLong)" using True by (subst cut_frames.simps) (simp add: Let_def)
      then show ?thesis using long r1 by (subst client_reads.simps) (simp add: end_of_client_def)
    next
      case short
      then have "cut_frames ?p = ([], Closed)"
        using True r1(2) by (subst cut_frames.simps) (simp add: Let_def)
      moreover obtain r2 where "read_exact ?n r1 = (None, r2)"
        using law [of ?n r1] short by (cases "read_exact ?n r1") simp
      ultimately show ?thesis using short r1 by (subst client_reads.simps) (simp add: end_of_client_def)
    next
      case frame
      then obtain r2 where r2: "read_exact ?n r1 = (Some (take ?n (pending r1)), r2)"
          "pending r2 = drop ?n (pending r1)"
        using law [of ?n r1] by (cases "read_exact ?n r1") simp
      have cut: "cut_frames ?p = (take ?n (pending r1) # fst (cut_frames (pending r2)), snd (cut_frames (pending r2)))"
        using True frame r1(2) r2(2) by (subst cut_frames.simps) (simp add: Let_def split: prod.splits)
      have "length (pending r2) < length ?p" using True r1(2) r2(2) by simp
      from less.hyps [OF this] show ?thesis
        using r1 r2 cut frame by (subst client_reads.simps) auto
    qed
  qed
qed

lemma client_packet_frame: "client_packet msg = encode_frame msg"
  by (simp add: client_packet_def encode_frame_def)

section \<open>Names of sessions\<close>

lemma digit_inj: "a < 10 \<Longrightarrow> b < 10 \<Longrightarrow> digit a = digit b \<Longrightarrow> a = b"
  using nth_eq_iff_index_eq [of "''0123456789''" a b] by (simp add: digit_def)

lemma decimal_inj: "decimal n = decimal m \<Longrightarrow> n = m"
proof (induction n arbitrary: m rule: decimal.induct)
  case (1 n)
  have nonempty: "decimal k \<noteq> []" for k by (subst decimal.simps) simp
  show ?case
  proof (cases "n < 10"; cases "m < 10")
    assume "n < 10" "m < 10"
    then show ?thesis using 1(2) digit_inj by (simp add: decimal.simps)
  next
    assume big: "\<not> n < 10" "\<not> m < 10"
    then have eq: "decimal (n div 10) = decimal (m div 10)" "digit (n mod 10) = digit (m mod 10)"
      using 1(2) by (simp_all add: decimal.simps [of n] decimal.simps [of m])
    then have "n div 10 = m div 10" using 1(1) big by blast
    moreover have "n mod 10 = m mod 10" using eq(2) digit_inj by simp
    ultimately show ?thesis by (metis div_mult_mod_eq)
  qed (use 1(2) nonempty in \<open>auto simp: decimal.simps [of n] decimal.simps [of m] append_eq_Cons_conv dest: sym\<close>)
qed

lemma my_session_name_inj: "my_session_name p = my_session_name q \<longleftrightarrow> p = q"
  using decimal_inj [of "unat p" "unat q"] by (auto simp: my_session_name_def word_unat_eq_iff)

section \<open>Properties\<close>

text \<open>
  C24. The client reads what the library's reader reads. On a connection without errors its
  reading task always ends, and it has printed exactly the frames the reference parser
  finds in the bytes of the connection, which are those a session delivers, in order; it
  panics on the same lengths. And the packet it sends for a message is the frame the
  library's writer would have written.
\<close>

theorem client_agrees_with_the_library:
  assumes "exact_bytes read_exact pending"
  shows "client_packet msg = encode_frame msg
    \<and> (\<exists>ce. client_reads read_exact r = Some (map print_line (fst (cut_frames (pending r))), ce)
         \<and> end_of_client (snd (cut_frames (pending r))) ce)"
  using client_reads_cut [OF assms, of r] client_packet_frame by blast

text \<open>A connection that is a list of bytes.\<close>

definition list_reader :: "byte list exact_reader" where
  "list_reader n bs = (if n \<le> length bs then (Some (take n bs), drop n bs) else (None, []))"

lemma list_reader_exact: "exact_bytes list_reader (\<lambda>bs. bs)"
  by (simp add: exact_bytes_def list_reader_def)

theorem client_agrees_with_the_library_witness:
  "\<exists>ce. client_reads list_reader (encode_frame (bytes_of ''hi'') @ encode_frame [0xFF] @ [0, 0])
     = Some ([Received (bytes_of ''hi''), InvalidUtf8], ce)"
proof -
  have "cut_frames (encode_frame (bytes_of ''hi'') @ encode_frame [0xFF] @ [0, 0])
      = ([bytes_of ''hi'', [0xFF]], Closed)"
    using cut_encoded_all [of "[bytes_of ''hi'', [0xFF]]" "[0, 0]"] by (simp add: max_buffer_def bytes_of_def)
  moreover have "print_line (bytes_of ''hi'') = Received (bytes_of ''hi'')" "print_line [0xFF] = InvalidUtf8"
    by (simp_all add: print_line_def from_utf8_def bytes_of_def)
  ultimately show ?thesis
    using client_agrees_with_the_library [OF list_reader_exact,
        of "[]" "encode_frame (bytes_of ''hi'') @ encode_frame [0xFF] @ [0, 0]"]
    by auto
qed

text \<open>
  A message comes back with the time. The messages a client sends, read from its bytes as
  the server's frames and answered by a session of the server that nothing else disturbs,
  are printed by the client in order, each behind the time of its answer, and none as
  invalid UTF-8.
\<close>

theorem echo_round_trip:
  assumes "list_all utf8_valid msgs" and "list_all (\<lambda>f. length f \<le> max_buffer) msgs"
    and "map snd ins = fst (cut_frames (concat (map client_packet msgs)))"
    and "list_all (\<lambda>env. utf8_valid (timestamp env) \<and> \<not> is_err (ping_answer env) \<and> \<not> is_err (send_answer env)) (map fst ins)"
    and "list_all (\<lambda>f. length f \<le> max_buffer) (map echo ins)"
    and "exact_bytes read_exact pending"
    and "pending r = concat (map encode_frame (replies (effects (run_actor my_frame_ready (\<lambda>_. False) st ins))))"
  shows "\<exists>ce. client_reads read_exact r
    = Some (map (\<lambda>(env, m). Received (timestamp env @ bytes_of '': '' @ m)) (zip (map fst ins) msgs), ce)"
proof -
  have "(client_packet :: byte list \<Rightarrow> byte list) = encode_frame" by (rule ext) (rule client_packet_frame)
  then have snds: "map snd ins = msgs"
    using assms(3) cut_encoded_all [OF assms(2), of "[]"] by simp
  have ok: "list_all (survived (use_watchdog st)) ins"
    using assms(1,4) unfolding snds [symmetric] by (fastforce simp: list_all_iff)
  have "replies (effects (run_my_session st ins)) = map echo ins" using echo_run [OF ok] by simp
  then have cut: "cut_frames (pending r) = (map echo ins, Closed)"
    using cut_encoded_all [OF assms(5), of "[]"] assms(7) by simp
  have "print_line (echo i) = Received (echo i)" if "i \<in> set ins" for i
    using that assms(1,4) unfolding snds [symmetric]
    by (fastforce simp: print_line_def from_utf8_def echo_def list_all_iff intro: echo_reply_valid)
  then have "map print_line (map echo ins) = map (\<lambda>i. Received (echo i)) ins" by simp
  also have "\<dots> = map (\<lambda>(env, m). Received (timestamp env @ bytes_of '': '' @ m)) (zip (map fst ins) msgs)"
    unfolding snds [symmetric] zip_map_fst_snd by (simp add: echo_def echo_reply_def case_prod_unfold)
  finally show ?thesis using client_reads_cut [OF assms(6), of r] cut by auto
qed

definition calm :: "byte list \<Rightarrow> my_env" where
  "calm time = \<lparr>ping_answer = Inr (), timestamp = time, send_answer = Ok_unit\<rparr>"

theorem echo_round_trip_witness:
  "\<exists>ce. client_reads list_reader (encode_frame (bytes_of ''10:00: hi''))
     = Some ([Received (bytes_of ''10:00: hi'')], ce)"
proof -
  let ?ins = "[(calm (bytes_of ''10:00''), bytes_of ''hi'')]"
  have cut: "fst (cut_frames (concat (map client_packet [bytes_of ''hi'']))) = [bytes_of ''hi'']"
    using cut_encoded_all [of "[bytes_of ''hi'']" "[]"]
    by (simp add: client_packet_frame max_buffer_def bytes_of_def)
  have reply: "bytes_of ''10:00'' @ bytes_of '': '' @ bytes_of ''hi'' = bytes_of ''10:00: hi''"
    by (simp add: bytes_of_def)
  have "replies (effects (run_my_session \<lparr>use_watchdog = True, tcp_session = ()\<rparr> ?ins)) = map echo ?ins"
    using echo_run [of "\<lparr>use_watchdog = True, tcp_session = ()\<rparr>" ?ins]
    by (simp add: calm_def bytes_of_def)
  then have "\<exists>ce. client_reads list_reader (encode_frame (bytes_of ''10:00: hi''))
    = Some (map (\<lambda>(env, m). Received (timestamp env @ bytes_of '': '' @ m)) (zip (map fst ?ins) [bytes_of ''hi'']), ce)"
    using cut reply
    by (intro echo_round_trip [where st = "\<lparr>use_watchdog = True, tcp_session = ()\<rparr>", OF _ _ _ _ _ list_reader_exact])
      (simp_all add: calm_def echo_def echo_reply_def, simp_all add: bytes_of_def max_buffer_def)
  then show ?thesis using reply by (simp add: calm_def)
qed

text \<open>
  One frame that is not UTF-8 ends a session of the server: whatever came before it was
  answered, the frame itself panics the session's actor, it gets no answer, and no later
  frame is taken. So any peer can end its own session, and the panic is not reported to it.
\<close>

theorem invalid_utf8_ends_the_session:
  assumes "list_all (survived (use_watchdog st)) ins" and "\<not> utf8_valid f"
    and "use_watchdog st \<longrightarrow> \<not> is_err (ping_answer env)"
  shows "let out = run_actor my_frame_ready (\<lambda>_. False) st (ins @ (env, f) # later)
    in (\<exists>p. returned out = Inl (Panic p)) \<and> replies (effects out) = map echo ins"
proof -
  have "run_my_session st ((env, f) # later) = my_frame_ready (env, f) st
      \<and> (\<exists>p. returned (my_frame_ready (env, f) st) = Inl (Panic p))
      \<and> replies (effects (my_frame_ready (env, f) st)) = []"
    using assms(2,3) by (auto simp: my_frame_ready_def from_utf8_def halts_def Let_def)
  then show ?thesis
    unfolding my_session_append [OF assms(1)] Let_def using echo_run [OF assms(1)] by simp
qed

theorem invalid_utf8_ends_the_session_witness:
  "\<exists>p. returned (run_actor my_frame_ready (\<lambda>_. False) \<lparr>use_watchdog = False, tcp_session = ()\<rparr>
     [(calm [], bytes_of ''hi''), (calm [], [0xC0, 0xAF]), (calm [], bytes_of ''bye'')]) = Inl (Panic p)"
  using invalid_utf8_ends_the_session [of "\<lparr>use_watchdog = False, tcp_session = ()\<rparr>"
      "[(calm [], bytes_of ''hi'')]" "[0xC0, 0xAF]" "calm []" "[(calm [], bytes_of ''bye'')]"]
  by (simp add: calm_def bytes_of_def Let_def)

text \<open>
  What the environment answers to the listener of the server while peers connect one after
  the other and stay: the names taken so far decide whether a session can be spawned.
\<close>

fun server_turns :: "(string set \<Rightarrow> string \<Rightarrow> ('addr, 'sock) my_session_args \<Rightarrow> unit result)
    \<Rightarrow> ('addr \<Rightarrow> 16 word) \<Rightarrow> bool \<Rightarrow> 'addr \<Rightarrow> string set \<Rightarrow> ('sock \<times> 'addr) list
    \<Rightarrow> ('addr, 'sock, 'tls) accept_answers list" where
  "server_turns spawn port_of watchdog here taken [] = []"
| "server_turns spawn port_of watchdog here taken ((sock, addr) # peers) =
    \<lparr>accepted = Inr (sock, addr), local_addr_of = \<lambda>_. Inr here, handshake = \<lambda>_ s. Inr s,
     new_session = my_new_session port_of (spawn taken) watchdog\<rparr>
    # server_turns spawn port_of watchdog here (insert (my_session_name (port_of addr)) taken) peers"

lemma server_turns_run:
  assumes spawn: "\<And>taken name args. is_err (spawn taken name args) \<longleftrightarrow> name \<in> taken"
    and st: "tcp_listener st = Some l" "encryption st = RawMode"
  shows "is_err (returned (run_actor accept (\<lambda>_. False) st (server_turns spawn port_of watchdog here taken peers)))
    \<longleftrightarrow> \<not> (distinct (map (port_of \<circ> snd) peers) \<and> (\<lambda>p. my_session_name (port_of (snd p))) ` set peers \<inter> taken = {})"
proof (induction peers arbitrary: taken)
  case (Cons p peers)
  obtain sock addr where p: "p = (sock, addr)" by fastforce
  let ?name = "my_session_name (port_of addr)"
  let ?env = "\<lparr>accepted = Inr (sock, addr), local_addr_of = \<lambda>_. Inr here, handshake = \<lambda>_ s. Inr s,
     new_session = my_new_session port_of (spawn taken) watchdog\<rparr>"
  have err: "is_err (new_session ?env (RawStream addr here sock)) \<longleftrightarrow> ?name \<in> taken"
    using spawn [of taken ?name "\<lparr>arg_watchdog = watchdog, arg_stream = RawStream addr here sock\<rparr>"]
    by (auto simp: my_new_session_def stream_peer_addr_def split: sum.splits)
  have turn: "state_of (accept ?env st) = st" "is_err (returned (accept ?env st)) \<longleftrightarrow> ?name \<in> taken"
    using err st by (auto simp: accept_def Let_def split: sum.splits)
  have halt: "halts (\<lambda>_. False) (accept ?env st) \<longleftrightarrow> ?name \<in> taken"
    using turn(2) by (simp add: halts_def list_ex_iff)
  let ?names = "(\<lambda>p. my_session_name (port_of (snd p))) ` set peers"
  have seen: "?name \<in> ?names \<longleftrightarrow> port_of addr \<in> (port_of \<circ> snd) ` set peers"
    by (simp add: image_iff my_session_name_inj)
  show ?case
  proof (cases "?name \<in> taken")
    case True
    then show ?thesis using turn halt by (simp add: p)
  next
    case False
    have run: "is_err (returned (run_actor accept (\<lambda>_. False) st
          (server_turns spawn port_of watchdog here taken (p # peers))))
        = is_err (returned (run_actor accept (\<lambda>_. False) st
          (server_turns spawn port_of watchdog here (insert ?name taken) peers)))"
      using turn(1) halt False by (simp add: p)
    have ports: "distinct (map (port_of \<circ> snd) (p # peers)) \<longleftrightarrow>
        ?name \<notin> ?names \<and> distinct (map (port_of \<circ> snd) peers)"
      unfolding seen by (simp add: p)
    have names: "(\<lambda>p. my_session_name (port_of (snd p))) ` set (p # peers) \<inter> taken = {} \<longleftrightarrow> ?names \<inter> taken = {}"
      using False by (simp add: p)
    have clash: "A \<inter> insert x T = {} \<longleftrightarrow> x \<notin> A \<and> A \<inter> T = {}" for A T :: "string set" and x by auto
    show ?thesis unfolding run ports names Cons.IH clash by argo
  qed
qed simp

text \<open>
  Two peers with the same port end the example server. While the sessions of its peers stay
  open, the listener fails exactly when two of the peers that connected, from whatever
  addresses, have the same port number: the sessions are named after it, the runtime
  refuses a name that is taken, and the acceptor returns that error to the listener.
\<close>

theorem same_peer_port_ends_the_server:
  assumes "\<And>taken name args. is_err (spawn taken name args) \<longleftrightarrow> name \<in> taken"
    and "tcp_listener st = Some l" and "encryption st = RawMode"
  shows "is_err (returned (run_actor accept (\<lambda>_. False) st (server_turns spawn port_of watchdog here {} peers)))
    \<longleftrightarrow> \<not> distinct (map (port_of \<circ> snd) peers)"
  using server_turns_run [OF assms, where taken = "{}"] by simp

theorem same_peer_port_ends_the_server_witness:
  "is_err (returned (run_actor accept (\<lambda>_. False) \<lparr>tcp_listener = Some (), encryption = RawMode\<rparr>
     (server_turns (\<lambda>taken name args. if name \<in> taken then Inl (Error ''already registered'') else Ok_unit)
       snd False (''here'', 9999) {} [((), (''10.0.0.1'', 4000)), ((), (''10.0.0.2'', 4001)), ((), (''10.0.0.3'', 4000))])))"
  by (subst same_peer_port_ends_the_server) simp_all

end
