(* ===== verification/Example_Client.thy ===== *)
theory Example_Client
  imports Example_Tcp "HOL-Library.Sublist"
begin

text \<open>
  The example client as it runs, \<open>main\<close> of \<open>src/ractor_actors/examples/tcp_client.rs\<close>: a task
  that reads lines from standard input into a channel of ten, a task that prints what arrives
  on the socket, and \<open>main\<close> itself, which writes the lines to the socket. The runtime polls
  them in any order, and drops the tasks when \<open>main\<close> returns.
\<close>

section \<open>The system\<close>

record ('r, 'w) example_client =
  stdin_lines :: "byte list list"   \<comment> \<open>the lines still to come, up to the end of the input or an error\<close>
  stdin_task :: bool
  channel :: "byte list list"
  socket_in :: 'r
  reading_ended :: "client_end option"
  socket_out :: 'w
  main_runs :: bool
  screen :: "client_line list"

text \<open>
  The start of \<open>main\<close>: it connects, logs the two addresses, splits the stream and spawns the
  tasks. \<open>logs\<close> is whether a subscriber takes the log line: only then are the addresses asked
  for, and an error of theirs, like one of the connection, ends \<open>main\<close>.
\<close>

definition client_open :: "('r \<times> 'w) result \<Rightarrow> bool \<Rightarrow> unit result \<Rightarrow> unit result \<Rightarrow> byte list list
    \<Rightarrow> ('r, 'w) example_client result" where
  "client_open connected logs peer here ls =
    (case connected of Inl e \<Rightarrow> Inl e
     | Inr (r, w) \<Rightarrow>
       (case (if \<not> logs then Ok_unit else case peer of Inl e \<Rightarrow> Inl e | Inr _ \<Rightarrow> here) of
          Inl e \<Rightarrow> Inl e
        | Inr _ \<Rightarrow> Inr \<lparr>stdin_lines = ls, stdin_task = True, channel = [], socket_in = r,
            reading_ended = None, socket_out = w, main_runs = True, screen = []\<rparr>))"

text \<open>One round of the reading task: a line to print, or its end.\<close>

definition read_round :: "'r exact_reader \<Rightarrow> 'r \<Rightarrow> (client_end + client_line) \<times> 'r" where
  "read_round read_exact r =
    (case read_exact 8 r of
       (None, r1) \<Rightarrow> (Inl ClosedByServer, r1)
     | (Some len_buf, r1) \<Rightarrow>
       (let msg_len = unat (from_be len_buf)
        in if max_buffer < msg_len then (Inl ReaderPanic, r1)
           else case read_exact msg_len r1 of
             (None, r2) \<Rightarrow> (Inl FailedToRead, r2)
           | (Some buffer, r2) \<Rightarrow> (Inr (print_line buffer), r2)))"

inductive client_step :: "'r exact_reader \<Rightarrow> ('w \<Rightarrow> byte list \<Rightarrow> unit io_result \<times> 'w)
    \<Rightarrow> ('r, 'w) example_client \<Rightarrow> ('r, 'w) example_client \<Rightarrow> bool" for read_exact write_out where
  types: "main_runs c \<Longrightarrow> stdin_task c \<Longrightarrow> stdin_lines c = l # ls \<Longrightarrow> length (channel c) < 10
    \<Longrightarrow> client_step read_exact write_out c (c\<lparr>stdin_lines := ls, channel := channel c @ [l]\<rparr>)"
| input_ends: "main_runs c \<Longrightarrow> stdin_task c \<Longrightarrow> stdin_lines c = []
    \<Longrightarrow> client_step read_exact write_out c (c\<lparr>stdin_task := False\<rparr>)"
| prints: "main_runs c \<Longrightarrow> reading_ended c = None \<Longrightarrow> read_round read_exact (socket_in c) = (Inr line, r)
    \<Longrightarrow> client_step read_exact write_out c (c\<lparr>socket_in := r, screen := screen c @ [line]\<rparr>)"
| reading_ends: "main_runs c \<Longrightarrow> reading_ended c = None \<Longrightarrow> read_round read_exact (socket_in c) = (Inl e, r)
    \<Longrightarrow> client_step read_exact write_out c (c\<lparr>socket_in := r, reading_ended := Some e\<rparr>)"
| writes: "main_runs c \<Longrightarrow> channel c = msg # msgs \<Longrightarrow> write_out (socket_out c) (client_packet msg) = (Inr u, w)
    \<Longrightarrow> client_step read_exact write_out c (c\<lparr>channel := msgs, socket_out := w\<rparr>)"
| writing_fails: "main_runs c \<Longrightarrow> channel c = msg # msgs \<Longrightarrow> write_out (socket_out c) (client_packet msg) = (Inl e, w)
    \<Longrightarrow> client_step read_exact write_out c (c\<lparr>channel := msgs, socket_out := w, main_runs := False\<rparr>)"
| returns: "main_runs c \<Longrightarrow> channel c = [] \<Longrightarrow> \<not> stdin_task c
    \<Longrightarrow> client_step read_exact write_out c (c\<lparr>main_runs := False\<rparr>)"

section \<open>What every step keeps\<close>

lemma client_reads_round:
  "client_reads read_exact r =
    (case read_round read_exact r of
       (Inl e, _) \<Rightarrow> Some ([], e)
     | (Inr line, r') \<Rightarrow> Option.bind (client_reads read_exact r') (\<lambda>(ls, e). Some (line # ls, e)))"
  by (subst client_reads.simps) (simp add: read_round_def Let_def split: prod.split option.split)

text \<open>
  What \<open>main\<close> will have written is fixed from the start, and so is what would be printed: the
  lines on the screen and those the rest of the socket holds.
\<close>

definition printing :: "'r exact_reader \<Rightarrow> client_line list \<Rightarrow> client_end \<Rightarrow> 'r \<Rightarrow> client_end option
    \<Rightarrow> client_line list \<Rightarrow> bool" where
  "printing read_exact printed e r ended shown \<longleftrightarrow>
    (case ended of
       None \<Rightarrow> (\<exists>rest. client_reads read_exact r = Some (rest, e) \<and> shown @ rest = printed)
     | Some e' \<Rightarrow> e' = e \<and> shown = printed)"

definition client_inv :: "'r exact_reader \<Rightarrow> ('w \<Rightarrow> byte list \<Rightarrow> unit io_result \<times> 'w)
    \<Rightarrow> 'w \<Rightarrow> client_line list \<Rightarrow> client_end \<Rightarrow> ('r, 'w) example_client \<Rightarrow> bool" where
  "client_inv read_exact write_out final printed e c \<longleftrightarrow>
     (if main_runs c then client_sends write_out (channel c @ stdin_lines c) (socket_out c) else socket_out c) = final
     \<and> (stdin_task c \<or> stdin_lines c = [])
     \<and> printing read_exact printed e (socket_in c) (reading_ended c) (screen c)"

lemma printing_line:
  assumes "printing read_exact printed e r None shown" and "read_round read_exact r = (Inr line, r')"
  shows "printing read_exact printed e r' None (shown @ [line])"
  using assms client_reads_round [of read_exact r]
  by (auto simp: printing_def split: Option.bind_splits)

lemma printing_end:
  assumes "printing read_exact printed e r None shown" and "read_round read_exact r = (Inl e', r')"
  shows "printing read_exact printed e r' (Some e') shown"
  using assms client_reads_round [of read_exact r] by (auto simp: printing_def)

lemma client_inv_step:
  assumes "client_step read_exact write_out c c'" and inv: "client_inv read_exact write_out final printed e c"
  shows "client_inv read_exact write_out final printed e c'"
  using assms(1)
proof cases
  case (prints line r)
  then show ?thesis using inv printing_line [of read_exact printed e "socket_in c"] by (auto simp: client_inv_def)
next
  case (reading_ends e' r)
  then show ?thesis using inv printing_end [of read_exact printed e "socket_in c"] by (auto simp: client_inv_def)
qed (use inv in \<open>auto simp: client_inv_def\<close>)

interpretation client: step_invariant "client_step read_exact write_out"
  "client_inv read_exact write_out final printed e" for read_exact write_out final printed e
  by unfold_locales (rule client_inv_step)

section \<open>The way to the end\<close>

text \<open>Without a round of the reading task, \<open>main\<close> writes what is in the channel, and then line by line.\<close>

lemma main_writes_channel:
  "main_runs c \<Longrightarrow> \<exists>d. reaches (client_step read_exact write_out) c d \<and> screen d = screen c
    \<and> stdin_lines d = stdin_lines c \<and> stdin_task d = stdin_task c \<and> (main_runs d \<longrightarrow> channel d = [])"
proof (induction "channel c" arbitrary: c)
  case Nil
  then show ?case by (intro exI [of _ c]) (simp add: reaches.start)
next
  case (Cons msg msgs)
  obtain res w where out: "write_out (socket_out c) (client_packet msg) = (res, w)" by fastforce
  show ?case
  proof (cases res)
    case (Inl e)
    have "client_step read_exact write_out c (c\<lparr>channel := msgs, socket_out := w, main_runs := False\<rparr>)"
      using Cons out Inl by (intro client_step.writing_fails) simp_all
    then show ?thesis by (intro exI conjI, rule reaches_one) simp_all
  next
    case (Inr u)
    let ?c = "c\<lparr>channel := msgs, socket_out := w\<rparr>"
    have "client_step read_exact write_out c ?c"
      using Cons out Inr by (intro client_step.writes) simp_all
    then have turn: "reaches (client_step read_exact write_out) c ?c" by (rule reaches_one)
    obtain d where d: "reaches (client_step read_exact write_out) ?c d" "screen d = screen c"
        "stdin_lines d = stdin_lines c" "stdin_task d = stdin_task c" "main_runs d \<longrightarrow> channel d = []"
      using Cons.hyps(1) [of ?c] Cons.prems by auto
    show ?thesis using reaches_trans [OF d(1) turn] d(2-5) by (intro exI [of _ d]) simp
  qed
qed

lemma main_returns:
  assumes "main_runs c" and "channel c = []" and "stdin_lines c = [] \<or> \<not> stdin_task c"
  shows "\<exists>d. reaches (client_step read_exact write_out) c d \<and> screen d = screen c \<and> \<not> main_runs d"
proof -
  let ?c = "c\<lparr>stdin_task := False\<rparr>"
  have "reaches (client_step read_exact write_out) c ?c"
  proof (cases "stdin_task c")
    case True
    then show ?thesis using assms by (intro reaches_one client_step.input_ends) simp_all
  next
    case False
    then have "?c = c" by (cases c) simp
    then show ?thesis by (simp add: reaches.start)
  qed
  moreover have "client_step read_exact write_out ?c (?c\<lparr>main_runs := False\<rparr>)"
    using assms by (intro client_step.returns) simp_all
  ultimately have "reaches (client_step read_exact write_out) c (?c\<lparr>main_runs := False\<rparr>)"
    by (rule reaches.next_step)
  then show ?thesis by (intro exI [of _ "?c\<lparr>main_runs := False\<rparr>"]) simp
qed

lemma client_can_end:
  "main_runs c \<Longrightarrow> \<exists>d. reaches (client_step read_exact write_out) c d \<and> screen d = screen c \<and> \<not> main_runs d"
proof (induction "length (stdin_lines c)" arbitrary: c rule: less_induct)
  case less
  obtain d where d: "reaches (client_step read_exact write_out) c d" "screen d = screen c"
      "stdin_lines d = stdin_lines c" "main_runs d \<longrightarrow> channel d = []"
    using main_writes_channel [OF less.prems] by metis
  have "\<exists>e. reaches (client_step read_exact write_out) d e \<and> screen e = screen d \<and> \<not> main_runs e"
  proof (cases "main_runs d \<and> stdin_task d \<and> stdin_lines d \<noteq> []")
    case True
    then obtain l ls where ls: "stdin_lines d = l # ls" by (cases "stdin_lines d") auto
    let ?d = "d\<lparr>stdin_lines := ls, channel := [l]\<rparr>"
    have "client_step read_exact write_out d ?d"
      using client_step.types [of d l ls read_exact write_out] d True ls by simp
    then have turn: "reaches (client_step read_exact write_out) d ?d" by (rule reaches_one)
    have "length ls < length (stdin_lines c)" unfolding d(3) [symmetric] ls by simp
    then obtain e where e: "reaches (client_step read_exact write_out) ?d e" "screen e = screen ?d" "\<not> main_runs e"
      using less.hyps [of ?d] True by auto
    show ?thesis using reaches_trans [OF e(1) turn] e(2,3) by (intro exI [of _ e]) simp
  next
    case False
    then show ?thesis using d(4) main_returns [of d] by (cases "main_runs d") (auto intro: reaches.start)
  qed
  then show ?case using reaches_trans [OF _ d(1)] d(2) by metis
qed

section \<open>Properties\<close>

text \<open>
  C25. The three tasks of the client do what the two loops do alone, and no more. However they are
  scheduled, when \<open>main\<close> returns it has written the lines of its input, in order, up to the
  first write that fails, and what is on the screen is a first part of what the socket holds;
  a client that runs can always come to its end. But it does not wait for an answer: whatever
  the server has sent, there is a run in which all lines are written and nothing is printed.
\<close>

theorem client_writes_all_and_may_print_nothing:
  assumes "client_open (Inr (r, w)) logs peer here ls = Inr start"
    and "client_reads read_exact r = Some (printed, e)"
    and "reaches (client_step read_exact write_out) start c"
  shows "prefix (screen c) printed
    \<and> (\<not> main_runs c \<longrightarrow> socket_out c = client_sends write_out ls w)
    \<and> (\<exists>d. reaches (client_step read_exact write_out) c d \<and> \<not> main_runs d)
    \<and> (\<exists>d. reaches (client_step read_exact write_out) start d \<and> \<not> main_runs d
          \<and> socket_out d = client_sends write_out ls w \<and> screen d = [])"
proof -
  let ?step = "client_step read_exact write_out" and ?final = "client_sends write_out ls w"
  have start: "client_inv read_exact write_out ?final printed e start" "main_runs start" "screen start = []"
    using assms(1,2) by (auto simp: client_open_def client_inv_def printing_def split: sum.splits)
  note inv = client.inv_reaches [OF _ start(1)]
  have "prefix (screen c) printed"
    using inv [OF assms(3)] by (auto simp: client_inv_def printing_def split: option.splits)
  moreover have written: "socket_out d = ?final" if "reaches ?step start d" "\<not> main_runs d" for d
    using inv [OF that(1)] that(2) by (simp add: client_inv_def)
  moreover have "\<exists>d. reaches ?step c d \<and> \<not> main_runs d"
    using client_can_end [of c read_exact write_out] by (cases "main_runs c") (auto intro: reaches.start)
  moreover obtain d where "reaches ?step start d" "screen d = []" "\<not> main_runs d"
    using client_can_end [OF start(2), of read_exact write_out] start(3) by auto
  ultimately show ?thesis using assms(3) by blast
qed

text \<open>Two lines are piped into the client, and the server has answered the first one.\<close>

theorem client_writes_all_and_may_print_nothing_witness:
  "\<exists>start d. client_open (Inr (encode_frame (bytes_of ''10:00: hi''), [])) False Ok_unit Ok_unit [bytes_of ''hi'', bytes_of ''ho''] = Inr start
    \<and> reaches (client_step list_reader (\<lambda>out bs. (Inr (), out @ bs))) start d \<and> \<not> main_runs d
    \<and> socket_out d = client_packet (bytes_of ''hi'') @ client_packet (bytes_of ''ho'') \<and> screen d = []"
proof -
  let ?in = "encode_frame (bytes_of ''10:00: hi'')" and ?put = "\<lambda>out (bs :: byte list). (Inr () :: unit io_result, out @ bs)"
  obtain start :: "(byte list, byte list) example_client" where start: "client_open (Inr (?in, [])) False Ok_unit Ok_unit [bytes_of ''hi'', bytes_of ''ho''] = Inr start"
    by (simp add: client_open_def)
  obtain printed e where reads: "client_reads list_reader ?in = Some (printed, e)"
    using client_reads_cut [OF list_reader_exact, of ?in] by blast
  from client_writes_all_and_may_print_nothing [OF start reads reaches.start, of ?put]
  obtain d where "reaches (client_step list_reader ?put) start d" "\<not> main_runs d" "screen d = []"
      "socket_out d = client_sends ?put [bytes_of ''hi'', bytes_of ''ho''] []"
    by (elim conjE exE)
  then show ?thesis using start by (intro exI [of _ start] exI [of _ d]) simp
qed

end
