(* ===== verification/Example_Server.thy ===== *)
theory Example_Server
  imports Tcp_System Example_Tcp
begin

text \<open>
  The example server behind one connection, \<open>src/ractor_actors/examples/tcp.rs\<close>: the session
  with its reader and its writer, as \<open>Tcp_System\<close> has them, and the session actor of the
  example, \<open>MySession\<close>, that receives their frames and is the only one to send.

  A step is a step of the connection that hands over no frame and takes no request, a frame
  handed over to the mailbox of \<open>MySession\<close>, a turn of \<open>MySession\<close>, or its end.
\<close>

section \<open>The system\<close>

record ('r, 'w, 'id, 'addr) server =
  conn :: "('r, 'w, 'id, 'addr) connection"
  my_state :: "unit my_session_state"
  my_up :: bool
  my_box :: "frame list"
  answers :: "(byte list \<times> frame) list"   \<comment> \<open>the frames answered, each with its time\<close>

definition server_init :: "('id, 'addr) session_state \<Rightarrow> 'r read_half \<Rightarrow> 'w write_half
    \<Rightarrow> unit my_session_state \<Rightarrow> ('r, 'w, 'id, 'addr) server" where
  "server_init st r w my =
    \<lparr>conn = connection_init st r w, my_state = my, my_up = True, my_box = [], answers = []\<rparr>"

text \<open>What a cast gives: the actor is up, or it is gone.\<close>

definition cast_to :: "bool \<Rightarrow> unit result" where
  "cast_to up = (if up then Ok_unit else Inl (Error ''Messaging failed to enqueue the message''))"

definition hand_over :: "frame \<Rightarrow> tcp_session_message list \<Rightarrow> ('r, 'w, 'id, 'addr) server
    \<Rightarrow> ('r, 'w, 'id, 'addr) server" where
  "hand_over f ms s =
    s\<lparr>conn := session_turn (FrameReady f (my_receiver_frame_ready (\<lambda>_. cast_to (my_up s)) f))
                ((conn s)\<lparr>session_box := ms\<rparr>),
      my_box := my_box s @ (if my_up s then [f] else [])\<rparr>"

fun my_session_does :: "my_session_effect \<Rightarrow> ('r, 'w, 'id, 'addr) connection
    \<Rightarrow> ('r, 'w, 'id, 'addr) connection" where
  "my_session_does PingWatchdog c = c"
| "my_session_does (CastSend f) c =
    (if session_up c
     then c\<lparr>session_box := session_box c @ [MsgSend f], requested := requested c @ [f]\<rparr> else c)"

definition my_turn :: "my_env \<Rightarrow> frame \<Rightarrow> frame list \<Rightarrow> ('r, 'w, 'id, 'addr) server
    \<Rightarrow> ('r, 'w, 'id, 'addr) server" where
  "my_turn env f fs s =
    (let out = my_frame_ready (env\<lparr>send_answer := cast_to (session_up (conn s))\<rparr>, f) (my_state s)
     in s\<lparr>conn := fold my_session_does (effects out) (conn s), my_state := state_of out,
          my_up := \<not> is_err (returned out), my_box := fs,
          answers := answers s @ (if is_err (returned out) then [] else [(timestamp env, f)])\<rparr>)"

inductive server_step :: "'r read_io \<Rightarrow> 'w write_io \<Rightarrow> ('r, 'w, 'id, 'addr) server
    \<Rightarrow> ('r, 'w, 'id, 'addr) server \<Rightarrow> bool" for rio wio where
  connection: "connection_step rio wio (conn s) c \<Longrightarrow> requested c = requested (conn s)
    \<Longrightarrow> delivered c = delivered (conn s) \<Longrightarrow> server_step rio wio s (s\<lparr>conn := c\<rparr>)"
| frame: "session_up (conn s) \<Longrightarrow> session_box (conn s) = MsgFrameReady f # ms
    \<Longrightarrow> server_step rio wio s (hand_over f ms s)"
| answer: "my_up s \<Longrightarrow> my_box s = f # fs \<Longrightarrow> server_step rio wio s (my_turn env f fs s)"
| ends: "server_step rio wio s (s\<lparr>my_up := False\<rparr>)"

section \<open>The connection of the server is a connection\<close>

lemma my_turn_cases:
  obtains (answers) "fold my_session_does (effects (my_frame_ready (env\<lparr>send_answer := cast_to (session_up c)\<rparr>, f) st)) c
      = c\<lparr>session_box := session_box c @ [MsgSend (echo_reply (timestamp env) f)],
          requested := requested c @ [echo_reply (timestamp env) f]\<rparr>"
      "session_up c" "utf8_valid f"
      "returned (my_frame_ready (env\<lparr>send_answer := cast_to (session_up c)\<rparr>, f) st) = Ok_unit"
  | (fails) "fold my_session_does (effects (my_frame_ready (env\<lparr>send_answer := cast_to (session_up c)\<rparr>, f) st)) c = c"
      "is_err (returned (my_frame_ready (env\<lparr>send_answer := cast_to (session_up c)\<rparr>, f) st))"
  by (cases "utf8_valid f"; cases "session_up c"; cases "use_watchdog st \<and> is_err (ping_answer env)")
    (auto simp: my_frame_ready_def from_utf8_def cast_to_def Let_def)

lemma server_step_conn:
  assumes "server_step rio wio s s'"
  shows "conn s' = conn s \<or> connection_step rio wio (conn s) (conn s')"
  using assms
proof cases
  case (frame f ms)
  then show ?thesis
    using connection_step.session_message [of "conn s" "MsgFrameReady f" ms rio wio
        "my_receiver_frame_ready (\<lambda>_. cast_to (my_up s)) f"]
    by (simp add: hand_over_def)
next
  case (answer f fs env)
  show ?thesis
    by (rule my_turn_cases [where env = env and c = "conn s" and f = f and st = "my_state s"])
      (use answer connection_step.client_sends [of "conn s" rio wio "echo_reply (timestamp env) f"] in
        \<open>simp_all add: my_turn_def Let_def\<close>)
qed simp_all

section \<open>Answers\<close>

text \<open>
  What was sent is the answers so far, and while the actor is up the frames delivered are the
  frames answered and those in its mailbox.
\<close>

definition answering :: "('r, 'w, 'id, 'addr) server \<Rightarrow> bool" where
  "answering s \<longleftrightarrow> requested (conn s) = map (\<lambda>(t, f). echo_reply t f) (answers s)
    \<and> prefix (map snd (answers s)) (delivered (conn s))
    \<and> (my_up s \<longrightarrow> delivered (conn s) = map snd (answers s) @ my_box s)
    \<and> list_all (\<lambda>(t, f). utf8_valid f) (answers s)"

definition server_inv :: "'r read_io \<Rightarrow> 'w write_io \<Rightarrow> ('r, 'w, 'id, 'addr) connection
    \<Rightarrow> ('r, 'w, 'id, 'addr) server \<Rightarrow> bool" where
  "server_inv rio wio c0 s \<longleftrightarrow> answering s \<and> connection_reaches rio wio c0 (conn s)"

lemma answering_step:
  assumes "server_step rio wio s s'" and "answering s"
  shows "answering s'"
  using assms(1)
proof cases
  case (connection c)
  then show ?thesis using assms(2) by (simp add: answering_def)
next
  case (frame f ms)
  then show ?thesis using assms(2) by (auto simp: answering_def hand_over_def)
next
  case (answer f fs env)
  show ?thesis
    by (rule my_turn_cases [where env = env and c = "conn s" and f = f and st = "my_state s"])
      (use answer assms(2) in \<open>auto simp: answering_def my_turn_def Let_def\<close>)
next
  case ends
  then show ?thesis using assms(2) by (simp add: answering_def)
qed

interpretation serve: step_invariant "server_step rio wio" "server_inv rio wio c0" for rio wio c0
proof
  fix s s' :: "('a, 'b, 'c, 'd) server"
  assume "server_step rio wio s s'" "server_inv rio wio c0 s"
  then show "server_inv rio wio c0 s'"
    using answering_step server_step_conn [of rio wio s s']
    by (auto simp: server_inv_def intro: reaches.next_step)
qed

lemma wire_holds_answers:
  assumes "lossless_reader rio pending" and "lossless_writer wio sent" and "sent (write_stream w) = []"
    and "reaches (server_step rio wio) (server_init st r w my) s"
  shows "\<exists>h answered. writer (writer_actor (conn s)) = Some h
    \<and> sent (write_stream h) = concat (map (\<lambda>(time, f). encode_frame (echo_reply time f)) answered)
    \<and> prefix (map snd answered) (fst (cut_frames (pending (read_stream r))))
    \<and> list_all (\<lambda>(time, f). utf8_valid f) answered"
proof -
  have "server_inv rio wio (connection_init st r w) (server_init st r w my)"
    by (simp add: server_inv_def answering_def server_init_def connection_init_def reaches.start)
  from serve.inv_reaches [OF assms(4) this]
  have inv: "answering s" "connection_reaches rio wio (connection_init st r w) (conn s)"
    by (simp_all add: server_inv_def)
  obtain h written where h: "writer (writer_actor (conn s)) = Some h"
    and wire: "sent (write_stream h) = concat (map encode_frame written)"
    and asked: "prefix written (requested (conn s))"
    using connection_sending [OF assms(2) inv(2)] assms(3) by (auto simp: sending_def)
  let ?answered = "take (length written) (answers s)"
  have "written = take (length written) (requested (conn s))" using asked by (auto simp: prefix_def)
  also have "\<dots> = map (\<lambda>(t, f). echo_reply t f) ?answered" using inv(1) by (simp add: answering_def take_map)
  finally have "sent (write_stream h) = concat (map encode_frame (map (\<lambda>(t, f). echo_reply t f) ?answered))"
    using wire by simp
  then have "sent (write_stream h) = concat (map (\<lambda>(time, f). encode_frame (echo_reply time f)) ?answered)"
    by (simp add: comp_def case_prod_unfold)
  moreover have "prefix (map snd ?answered) (map snd (answers s))"
    by (simp add: take_is_prefix flip: take_map)
  then have "prefix (map snd ?answered) (delivered (conn s))"
    using inv(1) by (auto simp: answering_def intro: prefix_order.trans)
  then have "prefix (map snd ?answered) (fst (cut_frames (pending (read_stream r))))"
    using connection_receiving [OF assms(1) inv(2)]
    by (auto simp: receiving_def intro: append_prefixD prefix_order.trans)
  moreover have "list_all (\<lambda>(time, f). utf8_valid f) ?answered"
    using inv(1) by (auto simp: answering_def list_all_iff dest: in_set_takeD)
  ultimately show ?thesis using h by blast
qed

section \<open>Properties\<close>

text \<open>
  The server answers in order. However its actors, the reader, the writer, the session and
  the session actor of the example, take turns, and whichever of them stops when: what is
  on the wire is a list of answers, each the time it was given and the frame it answers,
  and the frames answered are a prefix of the frames the peer sent, all of them UTF-8.
\<close>

theorem server_answers_in_order:
  assumes "lossless_reader rio pending" and "lossless_writer wio sent" and "sent (write_stream w) = []"
    and "reaches (server_step rio wio) (server_init st r w my) s"
  shows "\<exists>h answered. writer (writer_actor (conn s)) = Some h
    \<and> sent (write_stream h) = concat (map (\<lambda>(time, f). encode_frame (echo_reply time f)) answered)
    \<and> prefix (map snd answered) (fst (cut_frames (pending (read_stream r))))
    \<and> list_all (\<lambda>(time, f). utf8_valid f) answered"
  using assms by (rule wire_holds_answers)

text \<open>One message, answered at ten o'clock: each actor in turn.\<close>

definition hi :: frame where
  "hi = [104, 105]"

definition at_ten :: my_env where
  "at_ten = calm (bytes_of ''10:00'')"

definition hi_conn :: "(byte list list, byte list, nat, string) connection" where
  "hi_conn = connection_init demo_session (ReadRegular [encode_frame hi]) (WriteRegular [])"

abbreviation hi_answer :: frame where
  "hi_answer \<equiv> echo_reply (bytes_of ''10:00'') hi"

lemma encode_hi: "encode_frame hi = [0, 0, 0, 0, 0, 0, 0, 2, 104, 105]"
  by (simp add: encode_frame_def be_bytes_def be_byte_def hi_def)

lemma hi_reads_length:
  "reader_turn chunked_reader WaitForFrame (hi_conn\<lparr>reader_box := []\<rparr>)
    = hi_conn\<lparr>reader_actor := \<lparr>reader = Some (ReadRegular [hi])\<rparr>, reader_box := [ReadFrame 2]\<rparr>"
  by (simp add: reader_turn_def hi_conn_def connection_init_def encode_hi reader_handle_def wait_for_frame_def
      read_u64_def on_read_half_def chunked_reader_def from_be_def halts_def Let_def) (simp add: hi_def)

lemma hi_read: "read_n_bytes chunked_reader 2 (ReadRegular [hi]) = (Inr hi, ReadRegular [[]])"
proof -
  have "read_loop chunked_reader 2 (ReadRegular [hi]) [0, 0] 0 = read_loop chunked_reader 2 (ReadRegular [[]]) hi 2"
    by (subst read_loop.simps) (simp add: read_some_def on_read_half_def chunked_reader_def hi_def flip: numeral_2_eq_2)
  also have "\<dots> = (Inr hi, ReadRegular [[]])" by (subst read_loop.simps) simp
  finally have "read_loop chunked_reader 2 (ReadRegular [hi]) (replicate 2 0) 0 = (Inr hi, ReadRegular [[]])"
    by (simp add: numeral_2_eq_2)
  moreover have "\<not> max_buffer < 2" "io_readable chunked_reader [hi] = (Inr (), [hi])"
    by (simp_all add: max_buffer_def chunked_reader_def)
  ultimately show ?thesis by (simp add: read_n_bytes_def Let_def)
qed

lemma hi_reads_frame:
  "reader_turn chunked_reader (ReadFrame 2)
      (hi_conn\<lparr>reader_actor := \<lparr>reader = Some (ReadRegular [hi])\<rparr>, reader_box := []\<rparr>)
    = hi_conn\<lparr>reader_actor := \<lparr>reader = Some (ReadRegular [[]])\<rparr>, reader_box := [WaitForFrame],
        session_box := [MsgFrameReady hi]\<rparr>"
  by (simp add: reader_turn_def hi_conn_def connection_init_def reader_handle_def read_frame_def
      session_cast_of_def hi_read halts_def Let_def)

lemma hi_answers:
  "my_frame_ready (at_ten\<lparr>send_answer := Ok_unit\<rparr>, hi) \<lparr>use_watchdog = False, tcp_session = ()\<rparr>
    = Outcome \<lparr>use_watchdog = False, tcp_session = ()\<rparr> [CastSend hi_answer] Ok_unit"
  by (simp add: my_frame_ready_def from_utf8_def hi_def at_ten_def calm_def Let_def)

text \<open>The frame arrives: its length is read, then its bytes, then it is handed over.\<close>

definition hi_read_all :: "(byte list list, byte list, nat, string) connection" where
  "hi_read_all = hi_conn\<lparr>reader_actor := \<lparr>reader = Some (ReadRegular [[]])\<rparr>, reader_box := [WaitForFrame]\<rparr>"

abbreviation hi_at :: "unit my_session_state \<Rightarrow> (byte list list, byte list, nat, string) connection
    \<Rightarrow> frame list \<Rightarrow> (byte list list, byte list, nat, string) server" where
  "hi_at my c box \<equiv> \<lparr>conn = c, my_state = my, my_up = True, my_box = box, answers = []\<rparr>"

lemma hi_arrives:
  "server_step chunked_reader buffer_writer (hi_at my hi_conn []) (hi_at my
     (hi_conn\<lparr>reader_actor := \<lparr>reader = Some (ReadRegular [hi])\<rparr>, reader_box := [ReadFrame 2]\<rparr>) [])"
  "server_step chunked_reader buffer_writer (hi_at my
     (hi_conn\<lparr>reader_actor := \<lparr>reader = Some (ReadRegular [hi])\<rparr>, reader_box := [ReadFrame 2]\<rparr>) [])
     (hi_at my (hi_read_all\<lparr>session_box := [MsgFrameReady hi]\<rparr>) [])"
  "server_step chunked_reader buffer_writer (hi_at my (hi_read_all\<lparr>session_box := [MsgFrameReady hi]\<rparr>) [])
     (hi_at my (hi_read_all\<lparr>delivered := [hi]\<rparr>) [hi])"
proof -
  let ?step = "server_step chunked_reader buffer_writer"
  let ?c1 = "hi_conn\<lparr>reader_actor := \<lparr>reader = Some (ReadRegular [hi])\<rparr>, reader_box := [ReadFrame 2]\<rparr>"
  note explicit = hi_conn_def hi_read_all_def connection_init_def
  show "?step (hi_at my hi_conn []) (hi_at my ?c1 [])"
    using connection_step.reader_reads [of hi_conn WaitForFrame "[]" chunked_reader buffer_writer]
      server_step.connection [of chunked_reader buffer_writer "hi_at my hi_conn []" ?c1]
    by (simp add: hi_reads_length) (simp add: explicit)
  show "?step (hi_at my ?c1 []) (hi_at my (hi_read_all\<lparr>session_box := [MsgFrameReady hi]\<rparr>) [])"
    using server_step.connection [of chunked_reader buffer_writer "hi_at my ?c1 []"]
      connection_step.reader_reads [of ?c1 "ReadFrame 2" "[]" chunked_reader buffer_writer]
    by (simp add: hi_reads_frame) (simp add: explicit)
  show "?step (hi_at my (hi_read_all\<lparr>session_box := [MsgFrameReady hi]\<rparr>) [])
      (hi_at my (hi_read_all\<lparr>delivered := [hi]\<rparr>) [hi])"
    using server_step.frame [of "hi_at my (hi_read_all\<lparr>session_box := [MsgFrameReady hi]\<rparr>) []" hi "[]"
        chunked_reader buffer_writer]
    by (simp add: explicit hand_over_def my_receiver_frame_ready_def cast_to_def)
qed

lemma hi_run:
  "\<exists>s. reaches (server_step chunked_reader buffer_writer) (server_init demo_session
      (ReadRegular [encode_frame hi]) (WriteRegular []) \<lparr>use_watchdog = False, tcp_session = ()\<rparr>) s
    \<and> writer (writer_actor (conn s)) = Some (WriteRegular (encode_frame hi_answer))"
proof -
  let ?step = "server_step chunked_reader buffer_writer"
  let ?my = "\<lparr>use_watchdog = False, tcp_session = ()\<rparr>"
  let ?s0 = "\<lparr>conn = hi_conn, my_state = ?my, my_up = True, my_box = [], answers = []\<rparr>"
  let ?c3 = "hi_read_all\<lparr>delivered := [hi]\<rparr>"
  let ?c4 = "?c3\<lparr>session_box := [MsgSend hi_answer], requested := [hi_answer]\<rparr>"
  let ?c5 = "?c3\<lparr>writer_box := [hi_answer], requested := [hi_answer]\<rparr>"
  let ?c6 = "writer_turn buffer_writer hi_answer (?c3\<lparr>requested := [hi_answer]\<rparr>)"
  note explicit = hi_conn_def hi_read_all_def connection_init_def
  have "reaches ?step (hi_at ?my hi_conn []) (hi_at ?my ?c3 [hi])"
    using hi_arrives [of ?my] by (meson reaches.intros)
  then have "reaches ?step ?s0 (?s0\<lparr>conn := ?c3, my_box := [hi]\<rparr>)" by simp
  moreover have "?step (?s0\<lparr>conn := ?c3, my_box := [hi]\<rparr>)
      (?s0\<lparr>conn := ?c4, answers := [(timestamp at_ten, hi)]\<rparr>)"
    using server_step.answer [of "?s0\<lparr>conn := ?c3, my_box := [hi]\<rparr>" hi "[]" chunked_reader buffer_writer at_ten]
    by (simp add: explicit my_turn_def cast_to_def Let_def hi_answers)
  moreover have "?step (?s0\<lparr>conn := ?c4, answers := [(timestamp at_ten, hi)]\<rparr>)
      (?s0\<lparr>conn := ?c5, answers := [(timestamp at_ten, hi)]\<rparr>)"
    using server_step.connection [of chunked_reader buffer_writer
        "?s0\<lparr>conn := ?c4, answers := [(timestamp at_ten, hi)]\<rparr>" ?c5]
      connection_step.session_message [of ?c4 "MsgSend hi_answer" "[]" chunked_reader buffer_writer]
    by (simp add: explicit)
  moreover have "?step (?s0\<lparr>conn := ?c5, answers := [(timestamp at_ten, hi)]\<rparr>)
      (?s0\<lparr>conn := ?c6, answers := [(timestamp at_ten, hi)]\<rparr>)"
    using server_step.connection [of chunked_reader buffer_writer
        "?s0\<lparr>conn := ?c5, answers := [(timestamp at_ten, hi)]\<rparr>" ?c6]
      connection_step.writer_writes [of ?c5 hi_answer "[]" chunked_reader buffer_writer]
    by (simp add: explicit writer_turn_def Let_def)
  ultimately have "reaches ?step ?s0 (?s0\<lparr>conn := ?c6, answers := [(timestamp at_ten, hi)]\<rparr>)"
    by (meson reaches.intros)
  moreover have "writer (writer_actor ?c6) = Some (WriteRegular (encode_frame hi_answer))"
    by (simp add: writer_turn_def explicit buffer_writer_def writer_write_def
        await_writable_def write_u64_def write_all_def flush_def on_write_half_def encode_frame_def Let_def)
  ultimately show ?thesis
    by (intro exI [of _ "?s0\<lparr>conn := ?c6, answers := [(timestamp at_ten, hi)]\<rparr>"])
      (simp add: server_init_def hi_conn_def)
qed

theorem server_answers_in_order_witness:
  "\<exists>answered. encode_frame hi_answer = concat (map (\<lambda>(time, f). encode_frame (echo_reply time f)) answered)
    \<and> prefix (map snd answered) [hi] \<and> list_all (\<lambda>(time, f). utf8_valid f) answered"
proof -
  obtain s where s: "reaches (server_step chunked_reader buffer_writer) (server_init demo_session
      (ReadRegular [encode_frame hi]) (WriteRegular []) \<lparr>use_watchdog = False, tcp_session = ()\<rparr>) s"
    "writer (writer_actor (conn s)) = Some (WriteRegular (encode_frame hi_answer))"
    using hi_run by blast
  have "fst (cut_frames (encode_frame hi)) = [hi]"
    using cut_encoded_all [of "[hi]" "[]"] by (simp add: max_buffer_def hi_def)
  then show ?thesis
    using server_answers_in_order [OF chunked_reader_lossless buffer_writer_lossless _ s(1)] s(2) by simp
qed

end
