(* ===== verification/Example_Service.thy ===== *)
theory Example_Service
  imports Example_Server
begin

text \<open>
  The whole example server, \<open>src/ractor_actors/examples/tcp.rs\<close>: its listener and every session
  it ever opened, each with the connection \<open>Example_Server\<close> gives it, taking turns in any
  order. The sessions are not linked to the listener: they go on when it has ended.

  A session is registered under its name while its actor lives; the runtime refuses to spawn a
  second one of that name. Which connections arrive, from where, and what starting a session
  gives, is free in every turn of the listener.
\<close>

section \<open>The system\<close>

record ('r, 'w, 'id, 'addr, 'sock) client =
  client_args :: "('addr, 'sock) my_session_args"
  served_by :: "('r, 'w, 'id, 'addr) server"

record ('l, 'r, 'w, 'id, 'addr, 'sock) service =
  door :: "('l, unit) listener_state"
  accepting :: bool
  turns :: nat   \<comment> \<open>the messages in the listener's mailbox\<close>
  clients :: "('r, 'w, 'id, 'addr, 'sock) client list"

definition service_start :: "(string \<Rightarrow> string + 'l) \<Rightarrow> my_server_args
    \<Rightarrow> ('l, 'r, 'w, 'id, 'addr, 'sock) service result" where
  "service_start bind args =
    (case listener_pre_start bind \<lparr>port = server_port args, args_encryption = RawMode\<rparr> of
       Inl e \<Rightarrow> Inl e
     | Inr (st, es :: ('addr, 'sock) listener_effect list) \<Rightarrow>
         Inr \<lparr>door = st, accepting = True, turns = turns_requested es, clients = []\<rparr>)"

text \<open>
  Starting a session: the start-up of \<open>MySession\<close>, which spawns the TCP session, whose start-up
  spawns the writer and the reader on the halves of the stream.
\<close>

definition open_session :: "('sock \<Rightarrow> 'r \<times> 'w) \<Rightarrow> ('w write_half \<Rightarrow> fault + 'id actor_cell)
    \<Rightarrow> ('r read_half \<Rightarrow> fault + 'id actor_cell) \<Rightarrow> (nat \<Rightarrow> timeout_strategy \<Rightarrow> messaging_err + unit)
    \<Rightarrow> ('addr, 'sock) my_session_args \<Rightarrow> ('r, 'w, 'id, 'addr) server result" where
  "open_session split spawn_writer spawn_reader register args =
    (case my_session_pre_start (session_pre_start split spawn_writer spawn_reader) register args of
       Inl e \<Rightarrow> Inl e
     | Inr st \<Rightarrow>
       (case split_stream split (arg_stream args) of (r, w) \<Rightarrow>
          Inr (server_init (tcp_session st) r w \<lparr>use_watchdog = use_watchdog st, tcp_session = ()\<rparr>)))"

definition peer_port :: "('addr \<Rightarrow> 16 word) \<Rightarrow> ('r, 'w, 'id, 'addr, 'sock) client \<Rightarrow> 16 word" where
  "peer_port port_of c = port_of (stream_peer_addr (arg_stream (client_args c)))"

definition living :: "('l, 'r, 'w, 'id, 'addr, 'sock) service \<Rightarrow> ('r, 'w, 'id, 'addr, 'sock) client list" where
  "living s = filter (\<lambda>c. my_up (served_by c)) (clients s)"

definition spawn_named :: "('addr \<Rightarrow> 16 word) \<Rightarrow> (('addr, 'sock) my_session_args \<Rightarrow> ('r, 'w, 'id, 'addr) server result)
    \<Rightarrow> ('l, 'r, 'w, 'id, 'addr, 'sock) service \<Rightarrow> string \<Rightarrow> ('addr, 'sock) my_session_args \<Rightarrow> unit result" where
  "spawn_named port_of boot s name args =
    (if name \<in> (\<lambda>c. my_session_name (peer_port port_of c)) ` set (living s)
     then Inl (Error ''Actor is already registered'')
     else case boot args of Inl e \<Rightarrow> Inl e | Inr _ \<Rightarrow> Ok_unit)"

text \<open>A turn of the listener: the acceptor of the example spawns a session for its stream.\<close>

definition service_turn :: "('addr \<Rightarrow> 16 word) \<Rightarrow> bool
    \<Rightarrow> (('addr, 'sock) my_session_args \<Rightarrow> ('r, 'w, 'id, 'addr) server result)
    \<Rightarrow> ('addr, 'sock, unit) accept_answers \<Rightarrow> ('l, 'r, 'w, 'id, 'addr, 'sock) service
    \<Rightarrow> ('l, 'r, 'w, 'id, 'addr, 'sock) service" where
  "service_turn port_of watchdog boot env s =
    (let out = accept (env\<lparr>new_session := my_new_session port_of (spawn_named port_of boot s) watchdog\<rparr>) (door s);
         ends = halts (\<lambda>_. False) out;
         started = (if ends then []
           else map (\<lambda>strm. \<lparr>arg_watchdog = watchdog, arg_stream = strm\<rparr>) (sessions_of (effects out)))
     in s\<lparr>door := state_of out, accepting := \<not> ends, turns := turns s + turns_requested (effects out),
          clients := clients s @ List.map_filter (\<lambda>args. case boot args of Inl _ \<Rightarrow> None
            | Inr c \<Rightarrow> Some \<lparr>client_args = args, served_by = c\<rparr>) started\<rparr>)"

inductive service_step :: "('addr \<Rightarrow> 16 word) \<Rightarrow> bool \<Rightarrow> ('sock \<Rightarrow> 'r \<times> 'w) \<Rightarrow> 'r read_io \<Rightarrow> 'w write_io
    \<Rightarrow> ('l, 'r, 'w, 'id, 'addr, 'sock) service \<Rightarrow> ('l, 'r, 'w, 'id, 'addr, 'sock) service \<Rightarrow> bool"
    for port_of watchdog split rio wio where
  accepts: "accepting s \<Longrightarrow> turns s = Suc n \<Longrightarrow> service_step port_of watchdog split rio wio s
    (service_turn port_of watchdog (open_session split spawn_writer spawn_reader register) env (s\<lparr>turns := n\<rparr>))"
| serves: "i < length (clients s) \<Longrightarrow> server_step rio wio (served_by (clients s ! i)) c
    \<Longrightarrow> service_step port_of watchdog split rio wio s
          (s\<lparr>clients := (clients s)[i := (clients s ! i)\<lparr>served_by := c\<rparr>]\<rparr>)"
| stops: "accepting s \<Longrightarrow> service_step port_of watchdog split rio wio s
    (s\<lparr>accepting := False, door := state_of (listener_post_stop (door s)
        :: (('l, unit) listener_state, ('addr, 'sock) listener_effect) outcome)\<rparr>)"

section \<open>A turn of the listener\<close>

definition knocks :: "('addr, 'sock, unit) accept_answers \<Rightarrow> bool \<Rightarrow> ('addr, 'sock) my_session_args option" where
  "knocks env watchdog = (case accepted env of Inl _ \<Rightarrow> None | Inr (sock, peer) \<Rightarrow>
     (case local_addr_of env sock of Inl _ \<Rightarrow> None
      | Inr here \<Rightarrow> Some \<lparr>arg_watchdog = watchdog, arg_stream = RawStream peer here sock\<rparr>))"

text \<open>
  A turn on an open door: the accept failed and nothing changes, a client is let in, or the
  listener ends and no client is let in.
\<close>

lemma service_turn_cases:
  assumes "door s = \<lparr>tcp_listener = Some l, encryption = RawMode\<rparr>"
  obtains (again) "is_err (accepted env)"
      "service_turn port_of watchdog boot env s = s\<lparr>accepting := True, turns := Suc (turns s)\<rparr>"
  | (lets_in) args c where "knocks env watchdog = Some args" "boot args = Inr c"
      "port_of (stream_peer_addr (arg_stream args)) \<notin> peer_port port_of ` set (living s)"
      "service_turn port_of watchdog boot env s = s\<lparr>accepting := True, turns := Suc (turns s),
         clients := clients s @ [\<lparr>client_args = args, served_by = c\<rparr>]\<rparr>"
  | (ends) "\<not> is_err (accepted env)"
      "\<forall>args. knocks env watchdog = Some args \<longrightarrow> is_err (boot args)
         \<or> port_of (stream_peer_addr (arg_stream args)) \<in> peer_port port_of ` set (living s)"
      "service_turn port_of watchdog boot env s = s\<lparr>accepting := False\<rparr>"
proof (cases "accepted env")
  case (Inl e)
  then show thesis
    using assms by (intro again) (simp_all add: service_turn_def accept_def halts_def map_filter_simps Let_def)
next
  case (Inr a)
  obtain sock peer where a: "accepted env = Inr (sock, peer)" using Inr by (cases a) auto
  show thesis
  proof (cases "local_addr_of env sock")
    case (Inl e)
    then show thesis
      using assms a by (intro ends) (simp_all add: service_turn_def accept_def halts_def map_filter_simps knocks_def Let_def)
  next
    case (Inr here)
    let ?args = "\<lparr>arg_watchdog = watchdog, arg_stream = RawStream peer here sock\<rparr>"
    have knock: "knocks env watchdog = Some ?args" using a Inr by (simp add: knocks_def)
    have name: "my_session_name (port_of peer) \<in> (\<lambda>c. my_session_name (peer_port port_of c)) ` set (living s)
        \<longleftrightarrow> port_of peer \<in> peer_port port_of ` set (living s)"
      by (auto simp: my_session_name_inj)
    note turn = service_turn_def accept_def my_new_session_def spawn_named_def name halts_def map_filter_simps
      stream_peer_addr_def Let_def
    show thesis
    proof (cases "port_of peer \<in> peer_port port_of ` set (living s)")
      case True
      then show thesis using assms a Inr knock by (intro ends) (simp_all add: turn)
    next
      case False
      show thesis
      proof (cases "boot ?args")
        case (Inl e)
        then show thesis using assms a Inr knock False by (intro ends) (simp_all add: turn)
      next
        case (Inr c)
        then show thesis
          using assms a \<open>local_addr_of env sock = Inr here\<close> knock False
          by (intro lets_in [of ?args c]) (simp_all add: turn)
      qed
    qed
  qed
qed


section \<open>What every step keeps\<close>

text \<open>The state of a client comes from its own connection alone.\<close>

definition grown :: "('sock \<Rightarrow> 'r \<times> 'w) \<Rightarrow> 'r read_io \<Rightarrow> 'w write_io \<Rightarrow> ('r, 'w, 'id, 'addr, 'sock) client \<Rightarrow> bool" where
  "grown split rio wio c \<longleftrightarrow> (\<exists>st r w my. split_stream split (arg_stream (client_args c)) = (r, w)
     \<and> reaches (server_step rio wio) (server_init st r w my) (served_by c))"

definition service_inv :: "('addr \<Rightarrow> 16 word) \<Rightarrow> ('sock \<Rightarrow> 'r \<times> 'w) \<Rightarrow> 'r read_io \<Rightarrow> 'w write_io
    \<Rightarrow> ('l, 'r, 'w, 'id, 'addr, 'sock) service \<Rightarrow> bool" where
  "service_inv port_of split rio wio s \<longleftrightarrow>
     (accepting s \<longrightarrow> turns s = 1 \<and> (\<exists>l. door s = \<lparr>tcp_listener = Some l, encryption = RawMode\<rparr>))
     \<and> distinct (map (peer_port port_of) (living s))
     \<and> (\<forall>c \<in> set (clients s). grown split rio wio c)"

lemma open_session_grown:
  "open_session split sw sr register args = Inr c
    \<Longrightarrow> my_up c \<and> grown split rio wio \<lparr>client_args = args, served_by = c\<rparr>"
  by (auto simp: open_session_def grown_def server_init_def intro!: reaches.start exI
      split: sum.splits prod.splits)

lemma grown_step:
  "grown split rio wio c \<Longrightarrow> server_step rio wio (served_by c) c' \<Longrightarrow> grown split rio wio (c\<lparr>served_by := c'\<rparr>)"
  unfolding grown_def by simp (blast intro: reaches.next_step)

lemma server_step_up: "server_step rio wio s s' \<Longrightarrow> my_up s' \<Longrightarrow> my_up s"
  by (cases rule: server_step.cases) (auto simp: hand_over_def my_turn_def)

lemma distinct_filter_update:
  assumes "distinct (map f (filter P xs))" and "i < length xs" and "f x = f (xs ! i)" and "P x \<Longrightarrow> P (xs ! i)"
  shows "distinct (map f (filter P (xs[i := x])))"
proof -
  have "xs = take i xs @ xs ! i # drop (Suc i) xs" using assms(2) by (rule id_take_nth_drop)
  then obtain ys zs where xs: "xs = ys @ xs ! i # zs" and "length ys = i"
    using assms(2) by (metis length_take min.absorb4)
  then have "xs[i := x] = ys @ x # zs" by (metis list_update_length)
  moreover have "distinct (map f (filter P (ys @ xs ! i # zs)))" using assms(1) xs by simp
  ultimately show ?thesis using assms(3,4) by (cases "P x") (auto split: if_splits)
qed

lemma service_inv_step:
  assumes "service_step port_of watchdog split rio wio s s'" and "service_inv port_of split rio wio s"
  shows "service_inv port_of split rio wio s'"
  using assms(1)
proof cases
  case (accepts n sw sr register env)
  let ?s = "s\<lparr>turns := n\<rparr>"
  obtain l where l: "door ?s = \<lparr>tcp_listener = Some l, encryption = RawMode\<rparr>" and n: "n = 0"
    using assms(2) accepts by (auto simp: service_inv_def)
  show ?thesis
  proof (rule service_turn_cases [OF l, of env port_of watchdog "open_session split sw sr register"], goal_cases)
    case 1
    then show ?thesis using assms(2) accepts n l by (simp add: service_inv_def living_def)
  next
    case (2 args c)
    then show ?thesis
      using assms(2) accepts n l open_session_grown [of split sw sr register args c rio wio]
      by (simp add: service_inv_def living_def peer_port_def)
  next
    case 3
    then show ?thesis using assms(2) accepts by (simp add: service_inv_def living_def)
  qed
next
  case (serves i c)
  let ?c = "clients s ! i"
  have "grown split rio wio ?c" using assms(2) serves by (simp add: service_inv_def)
  then have "grown split rio wio (?c\<lparr>served_by := c\<rparr>)"
    using serves by (intro grown_step)
  moreover have "distinct (map (peer_port port_of) (living (s\<lparr>clients := (clients s)[i := ?c\<lparr>served_by := c\<rparr>]\<rparr>)))"
    using assms(2) serves server_step_up [of rio wio "served_by ?c" c]
    by (auto simp: service_inv_def living_def peer_port_def intro!: distinct_filter_update)
  ultimately show ?thesis
    using assms(2) serves by (auto simp: service_inv_def dest!: set_update_subset_insert [THEN subsetD])
next
  case stops
  then show ?thesis using assms(2) by (simp add: service_inv_def living_def)
qed

interpretation service: step_invariant "service_step port_of watchdog split rio wio"
    "service_inv port_of split rio wio" for port_of watchdog split rio wio
  by unfold_locales (rule service_inv_step)

lemma service_start_inv:
  "service_start bind args = Inr s0 \<Longrightarrow> service_inv port_of split rio wio s0"
  by (auto simp: service_start_def listener_pre_start_def service_inv_def living_def split: sum.splits)

text \<open>Once closed, the door stays closed.\<close>

definition closed_with :: "('addr, 'sock) my_session_args list
    \<Rightarrow> ('l, 'r, 'w, 'id, 'addr, 'sock) service \<Rightarrow> bool" where
  "closed_with opened s \<longleftrightarrow> \<not> accepting s \<and> map client_args (clients s) = opened"

lemma closed_with_step:
  assumes "service_step port_of watchdog split rio wio s s'" and "closed_with opened s"
  shows "closed_with opened s'"
  using assms(1)
proof cases
  case (serves i c)
  then have "map client_args (clients s') = map client_args (clients s)"
    by (simp add: map_update) (metis list_update_id nth_map)
  then show ?thesis using assms(2) serves by (simp add: closed_with_def)
qed (use assms(2) in \<open>simp_all add: closed_with_def\<close>)

interpretation closed: step_invariant "service_step port_of watchdog split rio wio" "closed_with opened"
  for port_of watchdog split rio wio opened
  by unfold_locales (rule closed_with_step)


section \<open>A run\<close>


text \<open>One client connects, is answered, and stays; a second one comes from the same port.\<close>

definition hi_bind :: "string \<Rightarrow> string + unit" where
  "hi_bind addr = Inr ()"

definition hi_knock :: "string \<Rightarrow> byte list list \<Rightarrow> (string, byte list list, unit) accept_answers" where
  "hi_knock peer sock = \<lparr>accepted = Inr (sock, peer), local_addr_of = \<lambda>_. Inr ''local'',
     handshake = \<lambda>_ x. Inr x, new_session = \<lambda>_. Ok_unit\<rparr>"

abbreviation hi_split :: "byte list list \<Rightarrow> byte list list \<times> byte list" where
  "hi_split sock \<equiv> (sock, [])"

definition hi_open :: "(string, byte list list) my_session_args
    \<Rightarrow> (byte list list, byte list, nat, string) server result" where
  "hi_open = open_session hi_split (\<lambda>_. Inr \<lparr>get_id = 1, get_name = None\<rparr>)
     (\<lambda>_. Inr \<lparr>get_id = 2, get_name = None\<rparr>) (\<lambda>_ _. Inr ())"

definition hi_server :: "(unit, byte list list, byte list, nat, string, byte list list) service" where
  "hi_server = \<lparr>door = \<lparr>tcp_listener = Some (), encryption = RawMode\<rparr>, accepting = True, turns = 1, clients = []\<rparr>"

abbreviation hi_args :: "(string, byte list list) my_session_args" where
  "hi_args \<equiv> \<lparr>arg_watchdog = False, arg_stream = RawStream ''peer'' ''local'' [encode_frame hi]\<rparr>"

abbreviation hi_client :: "(byte list list, byte list, nat, string) server" where
  "hi_client \<equiv> server_init demo_session (ReadRegular [encode_frame hi]) (WriteRegular [])
     \<lparr>use_watchdog = False, tcp_session = ()\<rparr>"

abbreviation hi_step where
  "hi_step \<equiv> service_step (\<lambda>_ :: string. 4000) False hi_split chunked_reader buffer_writer"

lemma hi_start: "service_start hi_bind \<lparr>server_watchdog = False, server_port = 9999\<rparr> = Inr hi_server"
  by (simp add: service_start_def listener_pre_start_def hi_bind_def hi_server_def)

lemma hi_opens: "hi_open hi_args = Inr hi_client"
  by (simp add: hi_open_def open_session_def my_session_pre_start_def session_pre_start_def split_stream_def
      stream_info_of_def demo_session_def Let_def)

lemma hi_lets_in:
  "hi_step hi_server (hi_server\<lparr>clients := [\<lparr>client_args = hi_args, served_by = hi_client\<rparr>]\<rparr>)"
proof -
  have "service_turn (\<lambda>_. 4000) False hi_open (hi_knock ''peer'' [encode_frame hi]) (hi_server\<lparr>turns := 0\<rparr>)
      = hi_server\<lparr>clients := [\<lparr>client_args = hi_args, served_by = hi_client\<rparr>]\<rparr>"
    by (simp add: service_turn_def accept_def hi_knock_def hi_server_def my_new_session_def spawn_named_def living_def
        hi_opens halts_def map_filter_simps Let_def)
  then show ?thesis
    using service_step.accepts [of hi_server 0 "\<lambda>_. 4000" False hi_split chunked_reader buffer_writer
        "\<lambda>_. Inr \<lparr>get_id = 1, get_name = None\<rparr>" "\<lambda>_. Inr \<lparr>get_id = 2, get_name = None\<rparr>" "\<lambda>_ _. Inr ()"
        "hi_knock ''peer'' [encode_frame hi]"]
    by (simp add: hi_server_def hi_open_def)
qed

lemma hi_connects:
  "reaches hi_step hi_server (hi_server\<lparr>clients := [\<lparr>client_args = hi_args, served_by = hi_client\<rparr>]\<rparr>)"
  using hi_lets_in by (rule reaches_one)

section \<open>Properties\<close>




text \<open>
  C23. What ends the listener. On a connection that was accepted it goes on exactly when the
  socket has a local address, no living session has a peer with the same port, and the new
  session starts; then the connection gets its session, and otherwise it gets none, and no
  later one does: the listener has ended. The sessions that were open stay as they are.
\<close>

theorem peer_port_in_use_ends_the_listener:
  assumes "service_start bind args = Inr s0"
    and "reaches (service_step port_of watchdog split rio wio) s0 s" and "accepting s"
    and "accepted env = Inr (sock, peer)"
    and "t = service_turn port_of watchdog (open_session split sw sr register) env (s\<lparr>turns := 0\<rparr>)"
    and "reaches (service_step port_of watchdog split rio wio) t u"
  shows "(accepting t \<longleftrightarrow> port_of peer \<notin> peer_port port_of ` set (living s)
        \<and> (\<exists>args c. knocks env watchdog = Some args \<and> open_session split sw sr register args = Inr c))
    \<and> take (length (clients s)) (clients t) = clients s
    \<and> map client_args (drop (length (clients s)) (clients t)) = (if accepting t then [the (knocks env watchdog)] else [])
    \<and> (\<not> accepting t \<longrightarrow> \<not> accepting u \<and> map client_args (clients u) = map client_args (clients s))"
proof -
  have inv: "service_inv port_of split rio wio s"
    using service.inv_reaches [OF assms(2)] service_start_inv [OF assms(1)] by blast
  then obtain l where l: "door (s\<lparr>turns := 0\<rparr>) = \<lparr>tcp_listener = Some l, encryption = RawMode\<rparr>"
    using assms(3) by (auto simp: service_inv_def)
  have peer: "knocks env watchdog = Some a \<Longrightarrow> stream_peer_addr (arg_stream a) = peer" for a
    using assms(4) by (auto simp: knocks_def stream_peer_addr_def split: sum.splits)
  have closed: "\<not> accepting u \<and> map client_args (clients u) = map client_args (clients t)" if "\<not> accepting t"
    using closed.inv_reaches [OF assms(6), of "map client_args (clients t)"] that by (simp add: closed_with_def)
  show ?thesis
  proof (rule service_turn_cases [OF l, of env port_of watchdog "open_session split sw sr register"], goal_cases)
    case 1
    then show ?case using assms(4) by simp
  next
    case (2 a c)
    then show ?case using assms(5) peer [of a] by (simp add: living_def)
  next
    case 3
    then have t: "\<not> accepting t" "clients t = clients s" using assms(5) by simp_all
    then show ?case using 3(2) closed peer by (auto simp: living_def)
  qed
qed

theorem peer_port_in_use_ends_the_listener_witness:
  "let s = hi_server\<lparr>clients := [\<lparr>client_args = hi_args, served_by = hi_client\<rparr>]\<rparr>;
       t = service_turn (\<lambda>_. 4000) False hi_open (hi_knock ''another'' [encode_frame hi]) (s\<lparr>turns := 0\<rparr>)
   in \<not> accepting t \<and> map client_args (clients t) = [hi_args]"
proof -
  let ?s = "hi_server\<lparr>clients := [\<lparr>client_args = hi_args, served_by = hi_client\<rparr>]\<rparr>"
  let ?t = "service_turn (\<lambda>_. 4000) False hi_open (hi_knock ''another'' [encode_frame hi]) (?s\<lparr>turns := 0\<rparr>)"
  have "(accepting ?t \<longleftrightarrow> False) \<and> (\<not> accepting ?t \<longrightarrow> \<not> accepting ?t \<and> map client_args (clients ?t) = [hi_args])"
    using hi_connects peer_port_in_use_ends_the_listener [OF hi_start, of "\<lambda>_. 4000" False hi_split chunked_reader buffer_writer
        ?s "hi_knock ''another'' [encode_frame hi]" "[encode_frame hi]" "''another''" ?t
        "\<lambda>_. Inr \<lparr>get_id = 1, get_name = None\<rparr>" "\<lambda>_. Inr \<lparr>get_id = 2, get_name = None\<rparr>" "\<lambda>_ _. Inr ()" ?t]
    by (simp add: hi_server_def hi_knock_def reaches.start living_def peer_port_def server_init_def hi_open_def)
  then show ?thesis by (simp add: Let_def)
qed

end
