(* ===== verification/Example_Watched.thy ===== *)
theory Example_Watched
  imports Example_Service Watchdog_Timers
begin

text \<open>
  A session of the example server under the watchdog, \<open>WATCHDOG=1\<close> of
  \<open>src/ractor_actors/examples/tcp.rs\<close>: the session of \<open>Example_Server\<close> with the watchdog of
  \<open>src/ractor_actors/src/watchdog/impl.rs\<close> it registers with, three seconds and \<open>Stop\<close>, and
  pings at every frame. The ping is a call: the session waits for its reply before it reads
  the frame. Time is counted in seconds.

  The watchdog serves other actors too: their messages, and everything the scheduler does, are
  steps of the system. Nobody else sends messages about this session.
\<close>

section \<open>The system\<close>

text \<open>Where the handler of a frame is: not running, waiting for the reply to its ping, or past it.\<close>

datatype ping_call = NoCall | Waiting | Answered "messaging_err + unit"

record ('r, 'w, 'id, 'addr) watched =
  served :: "('r, 'w, 'id, 'addr) server"
  guard :: "'id watchdog_config"
  ping_call :: ping_call
  pinged_at :: "nat option"   \<comment> \<open>when the watchdog answered the first ping\<close>

definition guard_mailbox :: "'id watchdog_config \<Rightarrow> unit \<Rightarrow> 'id watchdog_msg \<Rightarrow> string + unit" where
  "guard_mailbox g watchdog msg =
    (if alive g then Inr () else Inl ''Messaging failed to enqueue the message'')"

definition watched_open :: "('sock \<Rightarrow> 'r \<times> 'w) \<Rightarrow> ('w write_half \<Rightarrow> fault + 'id actor_cell)
    \<Rightarrow> ('r read_half \<Rightarrow> fault + 'id actor_cell) \<Rightarrow> 'id actor_cell \<Rightarrow> 'id watchdog_config
    \<Rightarrow> ('addr, 'sock) my_session_args \<Rightarrow> ('r, 'w, 'id, 'addr) watched result" where
  "watched_open split spawn_writer spawn_reader me g args =
    (case open_session split spawn_writer spawn_reader
            (watchdog_register (Inr ()) (guard_mailbox g) me) args of
       Inl e \<Rightarrow> Inl e
     | Inr c \<Rightarrow> Inr \<lparr>served = c,
         guard = (if use_watchdog (my_state c)
           then g\<lparr>inbox := inbox g @ [Msg (Register me my_session_period my_session_strategy)]\<rparr> else g),
         ping_call = NoCall, pinged_at = None\<rparr>)"

text \<open>The watchdog has asked the session to stop.\<close>

definition asked_to_stop :: "'id actor_cell \<Rightarrow> ('r, 'w, 'id, 'addr) watched \<Rightarrow> bool" where
  "asked_to_stop me s \<longleftrightarrow> terminations (get_id me) (log (guard s)) \<noteq> []"

text \<open>
  The watchdog takes the message \<open>m\<close>: when that is the ping the session waits for, the call
  has its reply, or a sender error when the handler dropped the port.
\<close>

definition guard_takes :: "'id actor_cell \<Rightarrow> unit result \<Rightarrow> 'id watchdog_input \<Rightarrow> 'id watchdog_input list
    \<Rightarrow> ('r, 'w, 'id, 'addr) watched \<Rightarrow> ('r, 'w, 'id, 'addr) watched" where
  "guard_takes me sent m ms s =
    (let g = guard s; out = handle_watchdog sent (fresh g) m (actor g);
         replied = ReplyPing (get_id me) \<in> set (acts (effects out))
     in s\<lparr>guard := commit out (g\<lparr>inbox := ms\<rparr>),
          ping_call := (if m = Msg (Ping (get_id me)) \<and> ping_call s = Waiting
            then Answered (if replied then Inr () else Inl SendErr) else ping_call s),
          pinged_at := (if replied \<and> pinged_at s = None then Some (clock g) else pinged_at s)\<rparr>)"

text \<open>
  The steps. An actor asked to stop ends before it takes another message, but it finishes the
  one it is at.
\<close>

inductive watched_step :: "'id actor_cell \<Rightarrow> 'r read_io \<Rightarrow> 'w write_io
    \<Rightarrow> ('r, 'w, 'id, 'addr) watched \<Rightarrow> ('r, 'w, 'id, 'addr) watched \<Rightarrow> bool" for me rio wio where
  connection: "server_step rio wio (served s) c \<Longrightarrow> my_up c = my_up (served s)
    \<Longrightarrow> answers c = answers (served s) \<Longrightarrow> my_state c = my_state (served s)
    \<Longrightarrow> watched_step me rio wio s (s\<lparr>served := c\<rparr>)"
| others: "timed_exec handle_watchdog (\<lambda>m. wd_external m \<and> \<not> mentions (get_id me) m) a (guard s) = Some g
    \<Longrightarrow> (\<And>sent. a \<noteq> Take sent) \<Longrightarrow> watched_step me rio wio s (s\<lparr>guard := g\<rparr>)"
| takes: "alive (guard s) \<Longrightarrow> inbox (guard s) = m # ms
    \<Longrightarrow> watched_step me rio wio s (guard_takes me sent m ms s)"
| pings: "my_up (served s) \<Longrightarrow> \<not> asked_to_stop me s \<Longrightarrow> use_watchdog (my_state (served s))
    \<Longrightarrow> my_box (served s) \<noteq> [] \<Longrightarrow> ping_call s = NoCall \<Longrightarrow> alive (guard s)
    \<Longrightarrow> watched_step me rio wio s
      (s\<lparr>guard := (guard s)\<lparr>inbox := inbox (guard s) @ [Msg (Ping (get_id me))]\<rparr>, ping_call := Waiting\<rparr>)"
| pings_in_vain: "my_up (served s) \<Longrightarrow> \<not> asked_to_stop me s \<Longrightarrow> use_watchdog (my_state (served s))
    \<Longrightarrow> my_box (served s) \<noteq> [] \<Longrightarrow> ping_call s = NoCall \<Longrightarrow> \<not> alive (guard s)
    \<Longrightarrow> watched_step me rio wio s (s\<lparr>ping_call := Answered (Inl SendErr)\<rparr>)"
| no_reply: "ping_call s = Waiting \<Longrightarrow> \<not> alive (guard s)
    \<Longrightarrow> watched_step me rio wio s (s\<lparr>ping_call := Answered (Inl SendErr)\<rparr>)"
| replies: "my_up (served s) \<Longrightarrow> my_box (served s) = f # fs \<Longrightarrow> ping_call s = Answered r
    \<Longrightarrow> watched_step me rio wio s
      (s\<lparr>served := my_turn (env\<lparr>ping_answer := r\<rparr>) f fs (served s), ping_call := NoCall\<rparr>)"
| unwatched: "my_up (served s) \<Longrightarrow> my_box (served s) = f # fs \<Longrightarrow> \<not> use_watchdog (my_state (served s))
    \<Longrightarrow> watched_step me rio wio s (s\<lparr>served := my_turn env f fs (served s)\<rparr>)"
| ends: "watched_step me rio wio s (s\<lparr>served := (served s)\<lparr>my_up := False\<rparr>\<rparr>)"

text \<open>Everybody has done what was asked of them.\<close>

definition settled :: "'id actor_cell \<Rightarrow> ('r, 'w, 'id, 'addr) watched \<Rightarrow> bool" where
  "settled me s \<longleftrightarrow> caught_up (guard s)
    \<and> (my_up (served s) \<longrightarrow> ping_call s = Waiting \<or> (ping_call s = NoCall \<and> \<not> asked_to_stop me s))"

section \<open>The server behind the watchdog\<close>

lemma watched_step_served:
  assumes "watched_step me rio wio s s'"
  shows "served s' = served s \<or> server_step rio wio (served s) (served s')"
  using assms by cases (auto simp: guard_takes_def Let_def intro: server_step.intros)

lemma watched_is_server:
  "reaches (watched_step me rio wio) s0 s \<Longrightarrow> reaches (server_step rio wio) (served s0) (served s)"
proof (induction rule: reaches.induct)
  case (next_step s s')
  then show ?case using watched_step_served [of me rio wio s s'] by (auto intro: reaches.next_step)
qed (rule reaches.start)

section \<open>What every step keeps\<close>

text \<open>
  The watchdog knows the session with three seconds or not at all; from its first answered ping
  on there is a timer nobody can abort; and a session that waits has its ping on the way.
\<close>

definition watched_inv :: "'id actor_cell \<Rightarrow> nat \<Rightarrow> ('r, 'w, 'id, 'addr) watched \<Rightarrow> bool" where
  "watched_inv me since s \<longleftrightarrow> guard_inv (get_id me) since 3 (guard s)
    \<and> (\<forall>e. pinged_at s = Some e \<longrightarrow> (\<exists>tok n. orphan_inv (get_id me) tok (e + 3) n (guard s)))
    \<and> (ping_call s = Waiting \<longrightarrow> Msg (Ping (get_id me)) \<in> set (inbox (guard s)))
    \<and> use_watchdog (my_state (served s))
    \<and> (ping_call s = Answered (Inr ()) \<or> answers (served s) \<noteq> [] \<longrightarrow> pinged_at s \<noteq> None)"

text \<open>A move of the watchdog that no harmful message is part of.\<close>

definition guard_step :: "'id \<Rightarrow> 'id watchdog_config \<Rightarrow> 'id watchdog_config \<Rightarrow> bool" where
  "guard_step who g g' \<longleftrightarrow> (\<exists>a. timed_exec handle_watchdog (\<lambda>m. wd_external m \<and> harmless who 3 m) a g = Some g')"

lemma guard_step_keeps:
  assumes "guard_step who g g'"
  shows "guard_inv who since 3 g \<Longrightarrow> guard_inv who since 3 g'"
    and "orphan_inv who tok end_at n g \<Longrightarrow> orphan_inv who tok end_at n g'"
proof -
  obtain a where a: "timed_exec handle_watchdog (\<lambda>m. wd_external m \<and> harmless who 3 m) a g = Some g'"
    using assms by (auto simp: guard_step_def)
  show "guard_inv who since 3 g \<Longrightarrow> guard_inv who since 3 g'"
    using a by (rule guarded.inv_exec [rotated])
  have "timed_exec handle_watchdog (\<lambda>m. wd_external m \<and> \<not> drops who m) a g = Some g'"
    by (rule timed_exec_weaken [OF a]) (simp add: harmless_def)
  then show "orphan_inv who tok end_at n g \<Longrightarrow> orphan_inv who tok end_at n g'"
    by (rule orphan.inv_exec [rotated])
qed

lemma guard_step_others:
  "timed_exec handle_watchdog (\<lambda>m. wd_external m \<and> \<not> mentions who m) a g = Some g' \<Longrightarrow> guard_step who g g'"
  unfolding guard_step_def by (blast intro: timed_exec_weaken dest: not_mentioned)

lemma guard_step_ping: "guard_step who g (g\<lparr>inbox := inbox g @ [Msg (Ping who)]\<rparr>)"
  unfolding guard_step_def by (rule exI [of _ "Arrive (Msg (Ping who))"]) simp

lemma guard_step_take:
  "alive g \<Longrightarrow> inbox g = m # ms
    \<Longrightarrow> guard_step who g (commit (handle_watchdog sent (fresh g) m (actor g)) (g\<lparr>inbox := ms\<rparr>))"
  unfolding guard_step_def by (rule exI [of _ "Take sent"]) simp

lemma reply_to_ping:
  "ReplyPing who \<in> set (acts (effects (handle_watchdog sent tok m s)))
    \<longleftrightarrow> m = Msg (Ping who) \<and> map_of (subjects s) who \<noteq> None"
  by (cases "(sent, tok, m, s)" rule: handle_watchdog.cases)
    (auto split: option.splits timeout_strategy.splits)

text \<open>What the watchdog does on its own never takes a message out of its inbox.\<close>

lemma others_keep_inbox:
  "timed_exec h external a g = Some g' \<Longrightarrow> (\<And>sent. a \<noteq> Take sent) \<Longrightarrow> set (inbox g) \<subseteq> set (inbox g')"
  by (cases a) (auto split: if_splits option.splits)

lemma my_turn_facts:
  "my_state (my_turn env f fs s) = my_state s"
  "use_watchdog (my_state s) \<Longrightarrow> ping_answer env = Inl e \<Longrightarrow> answers (my_turn env f fs s) = answers s"
  by (simp_all add: my_turn_def my_frame_ready_def Let_def split: option.splits)

lemma watched_inv_takes:
  assumes inv: "watched_inv me since s" and live: "alive (guard s)" and m: "inbox (guard s) = m # ms"
  shows "watched_inv me since (guard_takes me sent m ms s)"
proof -
  let ?who = "get_id me" and ?g = "guard s" and ?s = "guard_takes me sent m ms s"
  have g: "guard ?s = commit (handle_watchdog sent (fresh ?g) m (actor ?g)) (?g\<lparr>inbox := ms\<rparr>)"
    by (simp add: guard_takes_def Let_def)
  have step: "guard_step ?who ?g (guard ?s)"
    unfolding g using live m by (rule guard_step_take)
  have "\<exists>tok n. orphan_inv ?who tok (e + 3) n (guard ?s)" if e: "pinged_at ?s = Some e" for e
  proof (cases "pinged_at s")
    case (Some e')
    then show ?thesis
      using e inv guard_step_keeps(2) [OF step] by (force simp: watched_inv_def guard_takes_def Let_def)
  next
    case None
    then have "ReplyPing ?who \<in> set (acts (effects (handle_watchdog sent (fresh ?g) m (actor ?g))))"
        and now: "e = clock ?g"
      using e by (auto simp: guard_takes_def Let_def split: if_splits)
    then obtain r where ping: "m = Msg (Ping ?who)" and r: "map_of (subjects (actor ?g)) ?who = Some r"
      by (auto simp: reply_to_ping)
    have "timeout r = 3" "wd_inv ?g" "\<forall>m \<in> set ms. \<not> drops ?who m"
      using inv r m by (auto simp: watched_inv_def guard_inv_def harmless_def)
    then show ?thesis
      unfolding now g using ping_leaves_orphan [OF _ r, of ms sent] m by (auto simp: ping)
  qed
  moreover have "guard_inv ?who since 3 (guard ?s)"
    using inv by (intro guard_step_keeps(1) [OF step]) (simp add: watched_inv_def)
  moreover have "ping_call ?s = Waiting \<longrightarrow> Msg (Ping ?who) \<in> set (inbox (guard ?s))"
    using inv m by (auto simp: watched_inv_def guard_takes_def Let_def)
  moreover have "ping_call ?s = Answered (Inr ()) \<or> answers (served ?s) \<noteq> [] \<longrightarrow> pinged_at ?s \<noteq> None"
    using inv by (auto simp: watched_inv_def guard_takes_def Let_def)
  moreover have "use_watchdog (my_state (served ?s))"
    using inv by (simp add: watched_inv_def guard_takes_def Let_def)
  ultimately show ?thesis by (simp add: watched_inv_def)
qed

lemma watched_inv_guard:
  assumes "watched_inv me since s" and "guard_step (get_id me) (guard s) g"
    and "set (inbox (guard s)) \<subseteq> set (inbox g)"
  shows "watched_inv me since (s\<lparr>guard := g\<rparr>)"
proof -
  have "\<exists>tok n. orphan_inv (get_id me) tok (e + 3) n g" if "pinged_at s = Some e" for e
    using assms(1) that guard_step_keeps(2) [OF assms(2)] unfolding watched_inv_def by blast
  moreover have "guard_inv (get_id me) since 3 g"
    using assms(1) by (intro guard_step_keeps(1) [OF assms(2)]) (simp add: watched_inv_def)
  ultimately show ?thesis using assms(1,3) by (auto simp: watched_inv_def)
qed

lemma watched_inv_step:
  assumes "watched_step me rio wio s s'" and inv: "watched_inv me since s"
  shows "watched_inv me since s'"
  using assms(1)
proof cases
  case (others a g)
  show ?thesis
    unfolding others(1)
    by (rule watched_inv_guard [OF inv guard_step_others [OF others(2)] others_keep_inbox [OF others(2,3)]])
next
  case (takes m ms sent)
  then show ?thesis using watched_inv_takes [OF inv] by simp
next
  case pings
  have "watched_inv me since (s\<lparr>guard := (guard s)\<lparr>inbox := inbox (guard s) @ [Msg (Ping (get_id me))]\<rparr>\<rparr>)"
    by (rule watched_inv_guard [OF inv guard_step_ping]) auto
  then show ?thesis using pings(1) by (simp add: watched_inv_def)
next
  case (replies f fs r env)
  then show ?thesis
    using inv by (cases r) (auto simp: watched_inv_def my_turn_facts)
qed (use inv in \<open>auto simp: watched_inv_def my_turn_facts\<close>)

interpretation watched: step_invariant "watched_step me rio wio" "watched_inv me since" for me rio wio since
  by unfold_locales (rule watched_inv_step)

text \<open>An actor the watchdog has never heard of, as a new actor is: ids are not used twice.\<close>

definition unknown :: "'id \<Rightarrow> 'id watchdog_config \<Rightarrow> bool" where
  "unknown who g \<longleftrightarrow> map_of (subjects (actor g)) who = None \<and> terminations who (log g) = []
    \<and> \<not> covered who g \<and> (\<forall>m \<in> set (inbox g). \<not> mentions who m)"

lemma watched_inv_open:
  assumes "watchdog_reachable g" and "unknown (get_id me) g" and "arg_watchdog args"
    and "watched_open split sw sr me g args = Inr s0"
  shows "watched_inv me (clock g) s0 \<and> alive g"
proof -
  have g: "guard_inv (get_id me) (clock g) 3 g"
    using assms(2) watchdog_reachable_inv [OF assms(1)] not_mentioned [of "get_id me"]
    by (auto simp: guard_inv_def unknown_def not_early_inv_def wd_inv_def covered_def)
  have "guard_inv (get_id me) (clock g) 3
      (g\<lparr>inbox := inbox g @ [Msg (Register me my_session_period my_session_strategy)]\<rparr>)"
    by (rule guarded.inv_arrive [OF g]) (simp add: harmless_def my_session_period_def)
  moreover obtain c where c: "open_session split sw sr (watchdog_register (Inr ()) (guard_mailbox g) me) args = Inr c"
      and s0: "s0 = \<lparr>served = c, guard = (if use_watchdog (my_state c)
        then g\<lparr>inbox := inbox g @ [Msg (Register me my_session_period my_session_strategy)]\<rparr> else g), ping_call = NoCall, pinged_at = None\<rparr>"
    using assms(4) by (auto simp: watched_open_def split: sum.splits)
  moreover have "use_watchdog (my_state c) \<and> answers c = [] \<and> alive g"
    using c assms(3) by (auto simp: open_session_def my_session_pre_start_def server_init_def
        watchdog_register_def wd_cast_def guard_mailbox_def split: sum.splits prod.splits messaging_err.splits if_splits)
  ultimately show ?thesis by (simp add: watched_inv_def)
qed

section \<open>Properties\<close>

text \<open>
  C10. A busy session of the watched server is cut off. Whatever its client sends and whatever
  the other actors of the watchdog do, as long as nobody but the session sends the watchdog
  messages about it: it is never asked to stop within three seconds of its start; once it has
  answered a frame, its first ping was answered at some time \<open>e\<close>, and from \<open>e
  + 3\<close> on, however many frames came in time after it, the session has ended as soon as
  everybody has done what was asked of them. Until then it is the server of one connection, as
  it is without a watchdog.
\<close>

theorem busy_session_is_cut_off:
  assumes "watchdog_reachable g" and "unknown (get_id me) g" and "arg_watchdog args"
    and "watched_open split spawn_writer spawn_reader me g args = Inr s0"
    and "reaches (watched_step me rio wio) s0 s"
  shows "(asked_to_stop me s \<longrightarrow> clock g + 3 \<le> clock (guard s))
    \<and> (answers (served s) \<noteq> [] \<longrightarrow>
        (\<exists>e. pinged_at s = Some e \<and> (e + 3 \<le> clock (guard s) \<and> settled me s \<longrightarrow> \<not> my_up (served s))))
    \<and> reaches (server_step rio wio) (served s0) (served s)"
proof -
  have inv: "watched_inv me (clock g) s"
    using watched_inv_open [OF assms(1-4)] watched.inv_reaches [OF assms(5)] by blast
  have early: "asked_to_stop me s \<longrightarrow> clock g + 3 \<le> clock (guard s)"
    using inv by (auto simp: watched_inv_def guard_inv_def not_early_inv_def asked_to_stop_def)
  have "\<not> my_up (served s)" if e: "pinged_at s = Some e" "e + 3 \<le> clock (guard s)" and settled: "settled me s" for e
  proof -
    obtain tok n where "orphan_inv (get_id me) tok (e + 3) n (guard s)"
      using inv e(1) by (auto simp: watched_inv_def)
    then have "asked_to_stop me s"
      using orphan_terminates [OF _ e(2)] settled by (fastforce simp: settled_def asked_to_stop_def)
    moreover have "ping_call s \<noteq> Waiting"
      using inv settled by (auto simp: watched_inv_def settled_def caught_up_def)
    ultimately show ?thesis using settled by (auto simp: settled_def)
  qed
  moreover have "answers (served s) \<noteq> [] \<longrightarrow> pinged_at s \<noteq> None"
    using inv by (simp add: watched_inv_def)
  ultimately show ?thesis using early watched_is_server [OF assms(5)] by blast
qed

text \<open>A run: one frame in the first second, and then silence.\<close>

abbreviation hi_me :: "nat actor_cell" where
  "hi_me \<equiv> \<lparr>get_id = 9, get_name = None\<rparr>"

abbreviation hi_my :: "unit my_session_state" where
  "hi_my \<equiv> \<lparr>use_watchdog = True, tcp_session = ()\<rparr>"

definition hi_guard :: "nat \<Rightarrow> nat watchdog_config" where
  "hi_guard now = \<lparr>clock = now, actor = \<lparr>subjects = [(9, \<lparr>reg_actor = hi_me, timeout = 3,
       timeout_strategy = Stop, reg_timer = 0\<rparr>)], kills = 0, stops = 0\<rparr>,
     timers = [\<lparr>token = 1, due = 3, payload = Msg (Timeout 9)\<rparr>], inbox = [], fresh = 2, alive = True,
     log = [ReplyPing 9]\<rparr>"

lemma hi_answered:
  "\<exists>c. answers c \<noteq> [] \<and> my_up c \<and> reaches (watched_step hi_me chunked_reader buffer_writer)
     \<lparr>served = hi_at hi_my hi_conn [], guard = (timed_init watchdog_pre_start)\<lparr>inbox := [Msg (Register hi_me 3 Stop)]\<rparr>,
       ping_call = NoCall, pinged_at = None\<rparr>
     \<lparr>served = c, guard = hi_guard 0, ping_call = NoCall, pinged_at = Some 0\<rparr>"
proof -
  let ?step = "watched_step hi_me chunked_reader buffer_writer"
  let ?g0 = "(timed_init watchdog_pre_start)\<lparr>inbox := [Msg (Register hi_me 3 Stop)]\<rparr> :: nat watchdog_config"
  let ?r = "\<lparr>reg_actor = hi_me, timeout = 3, timeout_strategy = Stop, reg_timer = 0\<rparr>"
  let ?g1 = "\<lparr>clock = 0, actor = \<lparr>subjects = [(9, ?r)], kills = 0, stops = 0\<rparr>,
     timers = [\<lparr>token = 0, due = 3, payload = Msg (Timeout 9)\<rparr>], inbox = [], fresh = 1, alive = True, log = []\<rparr>"
  let ?w = "\<lambda>c g call at. \<lparr>served = c, guard = g, ping_call = call, pinged_at = at\<rparr>"
  let ?c = "hi_at hi_my (hi_read_all\<lparr>delivered := [hi]\<rparr>) [hi]"
  let ?d = "my_turn (at_ten\<lparr>ping_answer := Inr ()\<rparr>) hi [] ?c"
  note guard = timed_init_def watchdog_pre_start_def wd_handler_defs commit_def hm_insert_def Let_def
  have conn: "?step (?w a g NoCall None) (?w b g NoCall None)"
    if "server_step chunked_reader buffer_writer a b" "my_up b = my_up a" "answers b = answers a" "my_state b = my_state a"
    for a b g
    using watched_step.connection [of chunked_reader buffer_writer "?w a g NoCall None" b] that by simp
  have "?step (?w (hi_at hi_my hi_conn []) ?g0 NoCall None) (?w (hi_at hi_my hi_conn []) ?g1 NoCall None)"
    using watched_step.takes [of "?w (hi_at hi_my hi_conn []) ?g0 NoCall None" "Msg (Register hi_me 3 Stop)" "[]"
        hi_me chunked_reader buffer_writer Ok_unit]
    by (simp add: guard_takes_def guard)
  then have "reaches ?step (?w (hi_at hi_my hi_conn []) ?g0 NoCall None) (?w ?c ?g1 NoCall None)"
    using conn [OF hi_arrives(1)] conn [OF hi_arrives(2)] conn [OF hi_arrives(3)]
    by (simp, meson reaches.intros)
  moreover have "?step (?w ?c ?g1 NoCall None) (?w ?c (?g1\<lparr>inbox := [Msg (Ping 9)]\<rparr>) Waiting None)"
    using watched_step.pings [of "?w ?c ?g1 NoCall None" hi_me chunked_reader buffer_writer]
    by (simp add: asked_to_stop_def terminations_def)
  moreover have "?step (?w ?c (?g1\<lparr>inbox := [Msg (Ping 9)]\<rparr>) Waiting None)
      (?w ?c (hi_guard 0) (Answered (Inr ())) (Some 0))"
    using watched_step.takes [of "?w ?c (?g1\<lparr>inbox := [Msg (Ping 9)]\<rparr>) Waiting None" "Msg (Ping 9)" "[]"
        hi_me chunked_reader buffer_writer Ok_unit]
    by (simp add: guard_takes_def hi_guard_def guard numeral_2_eq_2)
  moreover have "?step (?w ?c (hi_guard 0) (Answered (Inr ())) (Some 0)) (?w ?d (hi_guard 0) NoCall (Some 0))"
    using watched_step.replies [of "?w ?c (hi_guard 0) (Answered (Inr ())) (Some 0)" hi "[]" "Inr ()"
        hi_me chunked_reader buffer_writer at_ten]
    by simp
  moreover have "answers ?d \<noteq> [] \<and> my_up ?d"
    by (simp add: my_turn_def my_frame_ready_def from_utf8_def hi_def at_ten_def calm_def cast_to_def
        hi_read_all_def hi_conn_def connection_init_def Let_def)
  ultimately show ?thesis by (intro exI [of _ ?d]) (meson reaches.intros)
qed

lemma hi_stopped:
  "reaches (watched_step hi_me chunked_reader buffer_writer)
     \<lparr>served = c, guard = hi_guard 0, ping_call = NoCall, pinged_at = Some 0\<rparr>
     \<lparr>served = c\<lparr>my_up := False\<rparr>, guard = \<lparr>clock = 3, actor = \<lparr>subjects = [], kills = 0, stops = 1\<rparr>, timers = [],
       inbox = [], fresh = 3, alive = True, log = [ReplyPing 9, StopActor hi_me WATCHDOG_TIMEOUT]\<rparr>,
       ping_call = NoCall, pinged_at = Some 0\<rparr>"
proof -
  let ?step = "watched_step hi_me chunked_reader buffer_writer"
  let ?w = "\<lambda>c g. \<lparr>served = c, guard = g, ping_call = NoCall, pinged_at = Some 0\<rparr>"
  let ?fired = "(hi_guard 3)\<lparr>timers := [], inbox := [Msg (Timeout 9)]\<rparr>"
  let ?g = "\<lparr>clock = 3, actor = \<lparr>subjects = [], kills = 0, stops = 1\<rparr>, timers = [],
       inbox = [], fresh = 3, alive = True, log = [ReplyPing 9, StopActor hi_me WATCHDOG_TIMEOUT]\<rparr>"
  have tick: "?step (?w c (hi_guard k)) (?w c (hi_guard (Suc k)))" for k
    using watched_step.others [of hi_me Tick "?w c (hi_guard k)" _ chunked_reader buffer_writer]
    by (simp add: hi_guard_def)
  have "reaches ?step (?w c (hi_guard 0)) (?w c (hi_guard 3))"
    using tick [of 0] tick [of 1] tick [of 2] by (simp add: numeral_3_eq_3 numeral_2_eq_2) (meson reaches.intros)
  moreover have "?step (?w c (hi_guard 3)) (?w c ?fired)"
    using watched_step.others [of hi_me "Fire 1" "?w c (hi_guard 3)" ?fired chunked_reader buffer_writer]
    by (simp add: hi_guard_def)
  moreover have "?step (?w c ?fired) (?w c ?g)"
    using watched_step.takes [of "?w c ?fired" "Msg (Timeout 9)" "[]" hi_me chunked_reader buffer_writer Ok_unit]
    by (simp add: hi_guard_def guard_takes_def wd_timeout_def commit_def hm_remove_def Let_def numeral_3_eq_3 numeral_2_eq_2)
  moreover have "?step (?w c ?g) (?w (c\<lparr>my_up := False\<rparr>) ?g)"
    using watched_step.ends [of hi_me chunked_reader buffer_writer "?w c ?g"] by simp
  ultimately show ?thesis by (meson reaches.intros)
qed

theorem busy_session_is_cut_off_witness:
  "\<exists>s0 s. watched_open hi_split (\<lambda>_. Inr \<lparr>get_id = 1, get_name = None\<rparr>) (\<lambda>_. Inr \<lparr>get_id = 2, get_name = None\<rparr>)
       hi_me (timed_init watchdog_pre_start) (hi_args\<lparr>arg_watchdog := True\<rparr>) = Inr s0
     \<and> reaches (watched_step hi_me chunked_reader buffer_writer) s0 s
     \<and> answers (served s) \<noteq> [] \<and> clock (guard s) = 3 \<and> settled hi_me s \<and> \<not> my_up (served s)"
proof -
  let ?g = "timed_init watchdog_pre_start :: nat watchdog_config"
  let ?s0 = "\<lparr>served = hi_at hi_my hi_conn [], guard = ?g\<lparr>inbox := [Msg (Register hi_me 3 Stop)]\<rparr>,
       ping_call = NoCall, pinged_at = None\<rparr>"
  let ?over = "\<lambda>c. \<lparr>served = c\<lparr>my_up := False\<rparr>, guard = \<lparr>clock = 3, actor = \<lparr>subjects = [], kills = 0, stops = 1\<rparr>,
       timers = [], inbox = [], fresh = 3, alive = True, log = [ReplyPing 9, StopActor hi_me WATCHDOG_TIMEOUT]\<rparr>,
       ping_call = NoCall, pinged_at = Some 0\<rparr>"
  have start: "watched_open hi_split (\<lambda>_. Inr \<lparr>get_id = 1, get_name = None\<rparr>) (\<lambda>_. Inr \<lparr>get_id = 2, get_name = None\<rparr>)
       hi_me ?g (hi_args\<lparr>arg_watchdog := True\<rparr>) = Inr ?s0"
    by (simp add: watched_open_def my_session_period_def my_session_strategy_def open_session_def my_session_pre_start_def session_pre_start_def server_init_def
        split_stream_def watchdog_register_def wd_cast_def guard_mailbox_def hi_conn_def demo_session_def
        timed_init_def stream_info_of_def stream_peer_addr_def stream_local_addr_def)
  obtain c where c0: "answers c \<noteq> []" "reaches (watched_step hi_me chunked_reader buffer_writer) ?s0
      \<lparr>served = c, guard = hi_guard 0, ping_call = NoCall, pinged_at = Some 0\<rparr>"
    using hi_answered by (elim exE conjE)
  note c = c0(1) reaches_trans [OF hi_stopped c0(2)]
  have "\<not> my_up (served (?over c))"
    using busy_session_is_cut_off [OF timed_reachable.start _ _ start c(2)] c(1)
    by (auto simp: unknown_def covered_def watchdog_pre_start_def terminations_def settled_def caught_up_def)
  then show ?thesis
    using start c by (intro exI [of _ ?s0] exI [of _ "?over c"]) (simp add: settled_def caught_up_def)
qed

end
