(* ===== verification/Example_Streams.thy ===== *)
theory Example_Streams
  imports Mux_System Cron_System "HOL-Library.Word"
begin

text \<open>
  The examples of the stream multiplexer and of the cron manager:
  \<open>src/ractor_actors/examples/streammux.rs\<close>, ten messages for three targets, and
  \<open>src/ractor_actors/examples/cron.rs\<close>, one job that runs every five seconds. Logging is
  left out; waiting for the job's half second of work and for Ctrl-C is the scheduler's.
\<close>

section \<open>The stream multiplexer example\<close>

record my_target =
  idx :: "16 word"

definition my_target_id :: "my_target \<Rightarrow> string" where
  "my_target_id t = decimal (unat (idx t))"

definition my_target_received :: "string \<Rightarrow> my_target \<Rightarrow> unit result" where
  "my_target_received msg t = Ok_unit"

definition example_messages :: "string list" where
  "example_messages = map (\<lambda>i. ''Message '' @ decimal i) [0..<10]"

definition example_mux_config :: "(string, my_target) mux_configuration" where
  "example_mux_config =
    \<lparr>mux_source = source_of_list example_messages,
     cfg_targets = [\<lparr>idx = 0\<rparr>, \<lparr>idx = 1\<rparr>, \<lparr>idx = 2\<rparr>], cfg_stop_on_failure = True\<rparr>"

text \<open>What \<open>main\<close> makes of the configuration: the muxer, or the panic of its \<open>expect\<close>.\<close>

definition example_muxer :: "((string, my_target) mux_configuration \<Rightarrow> fault + 'cell) \<Rightarrow> 'cell result" where
  "example_muxer spawn =
    (case mux_stream (\<lambda>config supervisor. spawn config) spawn example_mux_config None of
       Inl e \<Rightarrow> Inl (Panic ''Failed to start mutiplexer'')
     | Inr started \<Rightarrow> Inr started)"

text \<open>
  \<open>main\<close> goes on by draining the muxer as soon as it has started, and waits for its end: the
  runs of the example are those of the muxer and its pump in which the drain comes after the
  turns \<open>main\<close> leaves them before its call.
\<close>

definition example_mux_state :: "nat actor_cell \<Rightarrow> (my_target, nat actor_cell) mux_state" where
  "example_mux_state pump =
    \<lparr>mux_targets = cfg_targets example_mux_config,
     stop_processing_target_on_failure = cfg_stop_on_failure example_mux_config, mux_pump = pump\<rparr>"

inductive mux_example :: "nat actor_cell \<Rightarrow> (string, my_target) mux_system \<Rightarrow> bool" for pump where
  starts: "(mux_turns my_target_id (range my_target_received))\<^sup>*\<^sup>*
      (mux_init (example_mux_state pump) (mux_source example_mux_config)) s \<Longrightarrow> muxer_up s
    \<Longrightarrow> mux_example pump (drain s)"
| goes_on: "mux_example pump s \<Longrightarrow> mux_turns my_target_id (range my_target_received) s s'
    \<Longrightarrow> mux_example pump s'"

text \<open>A muxer none of whose targets fails, whether it drops failing ones or not.\<close>

lemma messages_no_stop [simp]: "\<not> list_ex stops_mux (map (\<lambda>t. MessageReceived t x) ts)"
  by (induction ts) simp_all

lemma mux_run_no_failure:
  assumes "mux_targets st \<noteq> []" and "\<And>item t. answer item t = Ok_unit"
  shows "run_actor (mux_handle id_of) stops_mux st (map (\<lambda>x. Received x (answer x)) xs @ [NoMoreItems])
    = Outcome st (concat (map (\<lambda>x. map (\<lambda>t. MessageReceived t x) (mux_targets st)) xs)
        @ [StopActor (Some ''End of stream''), EndOfStream]) Ok_unit"
proof (induction xs)
  case Nil
  then show ?case by (simp add: mux_handle_def end_of_stream_def halts_def)
next
  case (Cons x xs)
  have offers: "offers id_of (answer x) x ts = map (\<lambda>t. MessageReceived t x) ts" for ts
    using assms(2) by (induction ts) (simp_all add: offers_def offer_one_def)
  have "keep_working id_of (answer x) (mux_targets st) = mux_targets st"
    using assms(2) by (simp add: keep_working_def failing_def)
  then have "item_received id_of (answer x) x st
      = Outcome st (map (\<lambda>t. MessageReceived t x) (mux_targets st)) Ok_unit"
    using assms(1) offers
    by (cases "stop_processing_target_on_failure st") (simp_all add: item_received_on item_received_off)
  then show ?case using Cons.IH by (simp add: mux_handle_def halts_def followed_by_def)
qed

section \<open>The cron example\<close>

record my_job =
  last_run :: "nat option"

definition my_job_id :: "my_job \<Rightarrow> string" where
  "my_job_id j = ''my_job''"

definition my_job_work :: "nat \<Rightarrow> my_job \<Rightarrow> unit result \<times> my_job" where
  "my_job_work now j = (Ok_unit, j\<lparr>last_run := Some now\<rparr>)"

definition example_schedule :: string where
  "example_schedule = ''*/5 * * * * * *''"

text \<open>The request \<open>main\<close> sends to its manager; \<open>parse\<close> is \<open>Schedule::from_str\<close>.\<close>

definition example_start :: "(string \<Rightarrow> 'sched option)
    \<Rightarrow> ('sched, my_job, 'id, 'sub) cron_manager_message result" where
  "example_start parse =
    (case parse example_schedule of
       None \<Rightarrow> Inl (Panic ''Failed to parse schedule'')
     | Some sched \<Rightarrow> Inr (Start \<lparr>cfg_schedule = sched, cfg_job = \<lparr>last_run = None\<rparr>\<rparr>))"

text \<open>\<open>main\<close>: an empty manager, the job, and after Ctrl-C the end of the manager.\<close>

definition cron_example :: "(string \<Rightarrow> 'sched option) \<Rightarrow> ('sched, my_job, 'id, 'sub) manager_env
    \<Rightarrow> ('sched, 'id, 'sub) manager_outcome result" where
  "cron_example parse env =
    (case example_start parse of
       Inl e \<Rightarrow> Inl e
     | Inr start \<Rightarrow>
       (let out = handle_manager my_job_id env start manager_pre_start
        in if list_ex (\<lambda>e. case e of ReplyStart r \<Rightarrow> is_err r | _ \<Rightarrow> False) (effects out)
           then Inl (Panic ''Failed to start cron job'')
           else Inr (followed_by out (manager_post_stop env (state_of out)))))"

section \<open>Properties\<close>

text \<open>
  The multiplexer example does what it says: its pump ends, each of the three targets gets
  the ten messages in order, no target is ever reported as failed or dropped, and the
  end of the stream stops the muxer and is reported once.
\<close>

theorem mux_example_serves_its_targets:
  "\<exists>out. loop_run (streamer_work (\<lambda>a. a) (\<lambda>mailbox m. (Ok_unit, mailbox @ [m])))
        \<lparr>stream = mux_source example_mux_config, receiver = []\<rparr> [] = Some out
    \<and> (let st = \<lparr>mux_targets = cfg_targets example_mux_config,
               stop_processing_target_on_failure = cfg_stop_on_failure example_mux_config, mux_pump = cell\<rparr>;
           run = run_actor (mux_handle my_target_id) stops_mux st
             (map (\<lambda>m. case m of Some item \<Rightarrow> Received item (my_target_received item) | None \<Rightarrow> NoMoreItems)
               (forwarded (effects out)))
       in map (\<lambda>t. items_of t (effects run)) (cfg_targets example_mux_config) = [example_messages, example_messages, example_messages]
          \<and> state_of run = st \<and> \<not> list_ex (\<lambda>e. case e of TargetFailed _ _ \<Rightarrow> True | _ \<Rightarrow> False) (effects run)
          \<and> filter (\<lambda>e. e = EndOfStream) (effects run) = [EndOfStream])"
proof -
  let ?deliver = "\<lambda>mailbox m. (Ok_unit, mailbox @ [m])"
  let ?ts = "[\<lparr>idx = 0\<rparr>, \<lparr>idx = 1\<rparr>, \<lparr>idx = 2\<rparr>] :: my_target list"
  let ?st = "\<lparr>mux_targets = ?ts, stop_processing_target_on_failure = True, mux_pump = cell\<rparr>"
  obtain out where out: "loop_run (streamer_work (\<lambda>a. a) ?deliver)
        \<lparr>stream = source_of_list example_messages, receiver = []\<rparr> [] = Some out"
    and fwd: "forwarded (effects out) = map Some example_messages @ [None]"
    using pump_run_accepted [of "\<lambda>a. a" ?deliver example_messages "[]" "[]"]
    by (auto simp: accepted_all comp_def)
  have msgs: "map (\<lambda>m. case m of Some item \<Rightarrow> Received item (my_target_received item) | None \<Rightarrow> NoMoreItems)
      (forwarded (effects out)) = map (\<lambda>x. Received x (my_target_received x)) example_messages @ [NoMoreItems]"
    by (simp add: fwd comp_def)
  note run = mux_run_no_failure [of ?st my_target_received my_target_id example_messages]
  have items: "items_of t (concat (map (\<lambda>x. map (\<lambda>t. MessageReceived t x) ?ts) xs)) = xs"
    if "t \<in> set ?ts" for t and xs :: "string list"
    using that by (induction xs) auto
  have quiet: "filter (\<lambda>e. e = EndOfStream) (concat (map (\<lambda>x. map (\<lambda>t. MessageReceived t x) ?ts) xs)) = []"
    for xs :: "string list" by (induction xs) simp_all
  have fine: "\<not> list_ex (\<lambda>e. case e of TargetFailed _ _ \<Rightarrow> True | _ \<Rightarrow> False)
      (concat (map (\<lambda>x. map (\<lambda>t. MessageReceived t x) ?ts) xs))" for xs :: "string list"
    by (induction xs) simp_all
  show ?thesis
    using out fine [of example_messages] items [of _ example_messages] quiet [of example_messages] run
    unfolding msgs [symmetric]
    by (auto simp: Let_def example_mux_config_def my_target_received_def)
qed

text \<open>
  The cron example runs one job: when the schedule parses and the worker can be spawned, the
  manager accepts the job, and at its end asks that worker, and no other, to stop.
\<close>

theorem cron_example_runs_one_job:
  assumes "parse example_schedule = Some sched" and "visits (job_order env) [(''my_job'', sched, cell)]"
    and "spawn_worker env \<lparr>cfg_schedule = sched, cfg_job = \<lparr>last_run = None\<rparr>\<rparr> = Inr cell"
  shows "\<exists>out. cron_example parse env = Inr out \<and> returned out = Ok_unit \<and> jobs (state_of out) = []
    \<and> effects out = [ReplyStart Ok_unit, StopWorker cell None]"
  using assms
  by (simp add: cron_example_def example_start_def manager_start_def manager_pre_start_def my_job_id_def
      manager_post_stop_def visits_def hm_insert_def Let_def)

theorem cron_example_runs_one_job_witness:
  "\<exists>out. cron_example (\<lambda>s. Some (length s)) \<lparr>job_order = rev, sub_order = (rev :: (nat, string) iter_order),
       spawn_worker = \<lambda>_. Inr \<lparr>get_id = 3 :: nat, get_name = None\<rparr>, cast_update = \<lambda>_ _. Ok_unit\<rparr> = Inr out
     \<and> effects out = [ReplyStart Ok_unit, StopWorker \<lparr>get_id = 3, get_name = None\<rparr> None]"
  using cron_example_runs_one_job [of "\<lambda>s. Some (length s)" 15
      "\<lparr>job_order = rev, sub_order = (rev :: (nat, string) iter_order),
       spawn_worker = \<lambda>_. Inr \<lparr>get_id = 3 :: nat, get_name = None\<rparr>, cast_update = \<lambda>_ _. Ok_unit\<rparr>"
      "\<lparr>get_id = 3, get_name = None\<rparr>"]
  by (auto simp: example_schedule_def)

text \<open>
  C37. The example need not do what its comment says, to end when the stream ends: its \<open>main\<close>
  drains the muxer right after the start, so there is a run in which both actors end with no
  message handed to any target and no end reported, and one in which the pump was quick,
  every target gets the ten messages, and the end of the stream stops the muxer.
\<close>

theorem mux_example_may_serve_nobody:
  "(\<exists>s. mux_example pump s \<and> \<not> muxer_up s \<and> \<not> pump_up s \<and> calls s = [])
   \<and> (\<exists>s. mux_example pump s \<and> \<not> muxer_up s \<and> \<not> pump_up s \<and> EndOfStream \<in> set (calls s)
        \<and> map (\<lambda>t. items_of t (calls s)) (cfg_targets example_mux_config) = replicate 3 example_messages)"
proof
  let ?s0 = "mux_init (example_mux_state pump) (mux_source example_mux_config)"
  let ?s1 = "(drain ?s0)\<lparr>muxer_box := [], muxer_up := False\<rparr>"
  have "mux_example pump (drain ?s0)" by (rule mux_example.starts) (simp_all add: mux_init_def)
  then have "mux_example pump ?s1"
    by (rule mux_example.goes_on [OF _ mux_turns.drained]) (simp_all add: drain_def mux_init_def)
  then have "mux_example pump (?s1\<lparr>pump_up := False\<rparr>)"
    by (rule mux_example.goes_on [OF _ mux_turns.pump_stopped]) (simp_all add: drain_def mux_init_def)
  then show "\<exists>s. mux_example pump s \<and> \<not> muxer_up s \<and> \<not> pump_up s \<and> calls s = []"
    by (rule exI [where x = "?s1\<lparr>pump_up := False\<rparr>", OF conjI]) (simp add: drain_def mux_init_def)
next
  show "\<exists>s. mux_example pump s \<and> \<not> muxer_up s \<and> \<not> pump_up s \<and> EndOfStream \<in> set (calls s)
        \<and> map (\<lambda>t. items_of t (calls s)) (cfg_targets example_mux_config) = replicate 3 example_messages"
  proof -
    let ?turns = "(mux_turns my_target_id (range my_target_received))\<^sup>*\<^sup>*"
    let ?s0 = "mux_init (example_mux_state pump) (mux_source example_mux_config)"
    let ?s1 = "?s0\<lparr>pump_state := \<lparr>stream = Eof, receiver = ()\<rparr>, pump_up := False, pump_box := 0,
      muxer_box := map (\<lambda>x. Post (Some x)) example_messages @ [Post None],
      muxer_evts := [ActorStarted pump, ActorTerminated pump None]\<rparr>"
    let ?calls = "concat (map (\<lambda>x. map (\<lambda>t. MessageReceived t x) (cfg_targets example_mux_config)) example_messages)
      @ [StopActor (Some ''End of stream''), EndOfStream]"
    let ?s2 = "(drain ?s1)\<lparr>muxer_box := [DrainMarker], taken := example_messages, muxer_up := False,
      calls := ?calls\<rparr>"
    have "?turns ?s0 ?s1"
      using pump_runs_ahead [of ?s0 example_messages] by (simp add: mux_init_def example_mux_config_def example_mux_state_def)
    then have drained: "mux_example pump (drain ?s1)" by (rule mux_example.starts) (simp add: mux_init_def)
    have "my_target_received ''x'' \<in> range my_target_received" "my_target_received ''x'' t = Ok_unit" for t
      by (simp_all add: my_target_received_def)
    then have "?turns (drain ?s1) ?s2"
      using muxer_serves_the_box [of "drain ?s1" example_messages "[DrainMarker]" "my_target_received ''x''"]
      by (simp add: mux_init_def drain_def example_mux_state_def) (simp add: example_mux_config_def)
    then have "mux_example pump ?s2"
      using drained by (induction rule: rtranclp_induct) (auto intro: mux_example.goes_on)
    moreover have "items_of t (concat (map (\<lambda>x. map (\<lambda>t. MessageReceived t x)
        [\<lparr>idx = 0\<rparr>, \<lparr>idx = 1\<rparr>, \<lparr>idx = 2\<rparr>]) xs)) = xs" if "t \<in> set [\<lparr>idx = 0\<rparr>, \<lparr>idx = 1\<rparr>, \<lparr>idx = 2\<rparr>]"
      for t :: my_target and xs :: "string list"
      using that by (induction xs) auto
    ultimately show ?thesis
      by (intro exI [of _ ?s2]) (auto simp: example_mux_config_def drain_def numeral_3_eq_3)
  qed
qed

end
