(* ===== verification/Unit_Tests.thy ===== *)
theory Unit_Tests
  imports Dep_Tracker Cron_Manager Watchdog File_Watcher Broadcast Mux_System Example_Tcp
begin

text \<open>
  The unit tests of the repository, run on the model: each test is its scenario, with the calls
  it makes in the order it makes them, and its assertions are proved of that run. What the tests
  get from the operating system, the clock and the crates is an argument here too; where a test
  polls until a condition holds, with the helpers of \<open>common_test.rs\<close>, the model has the run
  after which it holds; the helpers themselves come first.
\<close>

section \<open>The polling helpers: \<open>common_test.rs\<close>\<close>

text \<open>
  \<open>periodic_check\<close> evaluates a condition every fifty milliseconds until it holds or the timeout
  has passed, and once more at the end. The condition may act on the world, as the one of a
  broadcaster test does; \<open>sleep\<close> is what the world does meanwhile and by how many milliseconds
  the sleep was too long. Time is counted in milliseconds.
\<close>

function poll :: "('w \<Rightarrow> bool \<times> 'w) \<Rightarrow> ('w \<Rightarrow> nat \<times> 'w) \<Rightarrow> nat \<Rightarrow> nat \<Rightarrow> 'w \<Rightarrow> 'w" where
  "poll check sleep limit elapsed w =
    (if elapsed < limit then
       (case check w of
          (True, w1) \<Rightarrow> w1
        | (False, w1) \<Rightarrow> (case sleep w1 of (late, w2) \<Rightarrow> poll check sleep limit (elapsed + 50 + late) w2))
     else w)"
  by pat_completeness auto
termination by (relation "measure (\<lambda>(check, sleep, limit, elapsed, w). limit - elapsed)") auto

declare poll.simps [simp del]

definition periodic_check :: "('w \<Rightarrow> bool \<times> 'w) \<Rightarrow> ('w \<Rightarrow> nat \<times> 'w) \<Rightarrow> nat \<Rightarrow> 'w \<Rightarrow> unit result \<times> 'w" where
  "periodic_check check sleep limit w =
    (case check (poll check sleep limit 0 w) of
       (True, w') \<Rightarrow> (Ok_unit, w')
     | (False, w') \<Rightarrow> (Inl (Panic ''assertion failed: check()''), w'))"

text \<open>The asynchronous twin awaits its condition; the condition is the same function of the world.\<close>

definition periodic_async_check :: "('w \<Rightarrow> bool \<times> 'w) \<Rightarrow> ('w \<Rightarrow> nat \<times> 'w) \<Rightarrow> nat \<Rightarrow> 'w
    \<Rightarrow> unit result \<times> 'w" where
  "periodic_async_check check sleep limit w =
    (case check (poll check sleep limit 0 w) of
       (True, w') \<Rightarrow> (Ok_unit, w')
     | (False, w') \<Rightarrow> (Inl (Panic ''assertion failed: check().await''), w'))"

text \<open>
  The helper passes when a condition that only looks, and goes on to hold once it holds, holds by
  the end of the limit; \<open>now\<close> is the clock of the world.
\<close>

lemma poll_finds:
  assumes "\<And>w. check w = (good w, w)" and "\<And>w. T \<le> now w \<Longrightarrow> good w"
    and "\<And>w. now (snd (sleep w)) = now w + 50 + fst (sleep w)"
  shows "T + elapsed \<le> now w + limit \<Longrightarrow> good (poll check sleep limit elapsed w)"
proof (induction "limit - elapsed" arbitrary: elapsed w rule: less_induct)
  case less
  show ?case
  proof (cases "elapsed < limit \<and> \<not> good w")
    case True
    obtain late w2 where slept: "sleep w = (late, w2)" by fastforce
    have "good (poll check sleep limit (elapsed + 50 + late) w2)"
      using less.prems True assms(3) [of w] slept by (intro less.hyps) auto
    then show ?thesis using True slept by (subst poll.simps) (simp add: assms(1))
  next
    case False
    then show ?thesis using less.prems assms(2) [of w] by (subst poll.simps) (auto simp: assms(1))
  qed
qed

lemma periodic_check_passes:
  assumes "\<And>w. check w = (good w, w)" and "\<And>w. T \<le> now w \<Longrightarrow> good w"
    and "\<And>w. now (snd (sleep w)) = now w + 50 + fst (sleep w)" and "T \<le> now w + limit"
  shows "fst (periodic_check check sleep limit w) = Ok_unit
    \<and> fst (periodic_async_check check sleep limit w) = Ok_unit"
  using poll_finds [of check good T now sleep 0 w limit] assms
  by (simp add: periodic_check_def periodic_async_check_def)

section \<open>Versions: the tests of \<open>deps/version.rs\<close> and \<open>main.rs\<close>\<close>

text \<open>
  What the \<open>semver\<close> crate documents: how plain versions parse, their order, and the versions a
  caret requirement admits, those that keep the leftmost number that is not zero.
\<close>

fun plain_version :: "string \<Rightarrow> version option" where
  "plain_version s =
    (if s = ''0.15.8'' then Some (version_new 0 15 8) else if s = ''0.16.0'' then Some (version_new 0 16 0)
     else if s = ''0.15.9'' then Some (version_new 0 15 9) else if s = ''1.2.3'' then Some (version_new 1 2 3)
     else if s = ''2.0.0'' then Some (version_new 2 0 0) else if s = ''1.3.0'' then Some (version_new 1 3 0)
     else if s = ''0.5.0'' then Some (version_new 0 5 0) else if s = ''1.0.0'' then Some (version_new 1 0 0)
     else if s = ''0.6.0'' then Some (version_new 0 6 0) else if s = ''0.5.1'' then Some (version_new 0 5 1)
     else None)"

definition keeps_leftmost :: "version \<Rightarrow> version \<Rightarrow> bool" where
  "keeps_leftmost current latest \<longleftrightarrow> major latest = major current
     \<and> (major current = 0 \<longrightarrow> minor latest = minor current \<and> (minor current = 0 \<longrightarrow> patch latest = patch current))"

definition semver_laws :: "('x, 'd) sys \<Rightarrow> bool" where
  "semver_laws sys \<longleftrightarrow> (\<forall>s v. plain_version s = Some v \<longrightarrow> version_parse sys s = Some v)
     \<and> (\<forall>u v. version_less sys u v \<longleftrightarrow> u < v)
     \<and> (\<forall>u v. pre u = '''' \<and> pre v = '''' \<longrightarrow> (caret_matches sys u v \<longleftrightarrow> u \<le> v \<and> keeps_leftmost u v))"

definition parse_unwrap :: "('x, 'd) sys \<Rightarrow> string \<Rightarrow> version" where
  "parse_unwrap sys s = the (version_parse sys s)"

definition test_is_major_update :: "('x, 'd) sys \<Rightarrow> bool" where
  "test_is_major_update sys \<longleftrightarrow>
     (let parse = parse_unwrap sys
      in is_major_update sys (parse ''0.15.8'') (parse ''0.16.0'')
         \<and> \<not> is_major_update sys (parse ''0.15.8'') (parse ''0.15.9'')
         \<and> is_major_update sys (parse ''1.2.3'') (parse ''2.0.0'')
         \<and> \<not> is_major_update sys (parse ''1.2.3'') (parse ''1.3.0'')
         \<and> \<not> is_major_update sys (parse ''0.15.8'') (parse ''0.15.8''))"

definition test_bump_version :: "('x, 'd) sys \<Rightarrow> bool" where
  "test_bump_version sys \<longleftrightarrow>
     (let current = parse_unwrap sys ''0.5.0''
      in bump_version current ''major'' = Inr (parse_unwrap sys ''1.0.0'')
         \<and> bump_version current ''minor'' = Inr (parse_unwrap sys ''0.6.0'')
         \<and> bump_version current ''patch'' = Inr (parse_unwrap sys ''0.5.1''))"

definition test_only_check_deps_uses_the_custom_cli :: bool where
  "test_only_check_deps_uses_the_custom_cli \<longleftrightarrow> is_dependency_tracker_command (Some ''check-deps'')
     \<and> \<not> is_dependency_tracker_command (Some ''coverage'') \<and> \<not> is_dependency_tracker_command None"

lemma parse_plain: "semver_laws sys \<Longrightarrow> plain_version s = Some v \<Longrightarrow> parse_unwrap sys s = v"
  by (simp add: semver_laws_def parse_unwrap_def del: plain_version.simps)

text \<open>A major update is a greater version that changes the leftmost number that is not zero.\<close>

lemma major_update_iff:
  assumes "semver_laws sys" and "pre u = ''''" and "pre v = ''''"
  shows "is_major_update sys u v \<longleftrightarrow> u < v \<and> \<not> keeps_leftmost u v"
  using assms by (auto simp: is_major_update_def semver_laws_def)

lemma major_update_plain:
  "semver_laws sys \<Longrightarrow> is_major_update sys (version_new a b c) (version_new a' b' c') \<longleftrightarrow>
     (a < a' \<or> a = a' \<and> (b < b' \<or> b = b' \<and> c < c'))
     \<and> \<not> (a' = a \<and> (a = 0 \<longrightarrow> b' = b \<and> (b = 0 \<longrightarrow> c' = c)))"
  by (auto simp: major_update_iff version_new_def keeps_leftmost_def less_version_ext_def version_key_def order_le_less)

lemma tests_of_versions_pass:
  assumes "semver_laws sys"
  shows "test_is_major_update sys" and "test_bump_version sys"
    and "test_only_check_deps_uses_the_custom_cli"
proof -
  note parse = parse_plain [OF assms]
  show "test_is_major_update sys"
    by (simp add: test_is_major_update_def parse major_update_plain [OF assms] Let_def)
  show "test_bump_version sys"
    by (simp add: test_bump_version_def parse Let_def) (simp add: bump_version_def version_new_def checked_inc_def)
qed (simp add: test_only_check_deps_uses_the_custom_cli_def is_dependency_tracker_command_def)

section \<open>The cron worker: the test of \<open>time/cron/worker.rs\<close>\<close>

text \<open>
  The clock counts milliseconds. The schedule of the cron tests has an instant at every whole
  second; \<open>cron_of_string\<close> is \<open>Schedule::from_str\<close>.
\<close>

definition every_second :: string where
  "every_second = '' */1    *     *         *            *          *          *''"

definition secondly :: "'sched upcoming \<Rightarrow> 'sched \<Rightarrow> bool" where
  "secondly upcoming sched \<longleftrightarrow> (\<forall>now. upcoming sched now = Some ((now div 1000 + 1) * 1000))"

datatype cron_test_job = BadJob | CounterJob "16 word"

fun test_job_id :: "cron_test_job \<Rightarrow> string" where
  "test_job_id BadJob = ''bad_job''"
| "test_job_id (CounterJob n) = ''counter_job''"

fun test_job_work :: "cron_test_job \<Rightarrow> unit result \<times> cron_test_job" where
  "test_job_work BadJob = (Inl (Panic ''Boom!''), BadJob)"
| "test_job_work (CounterJob n) = (Ok_unit, CounterJob (n + 1))"

definition test_env :: "nat \<Rightarrow> cron_test_job cron_env" where
  "test_env now = \<lparr>now_upcoming = now, now_period = now, work = test_job_work\<rparr>"

text \<open>One second: the timer of the worker fires and it takes the message.\<close>

definition test_second :: "nat \<Rightarrow> (cron_test_job cron_env, 'sched cron_message) move list" where
  "test_second n = wait 1000 @ [Fire n, Take (test_env (Suc n * 1000))]"

definition test_cron_job :: "'sched upcoming \<Rightarrow> 'sched \<Rightarrow> nat \<Rightarrow> ('sched, cron_test_job) cron_config option" where
  "test_cron_job upcoming sched n =
    (case cron_pre_start upcoming (test_env 0) 0 \<lparr>cfg_schedule = sched, cfg_job = CounterJob 0\<rparr> of
       Inl e \<Rightarrow> None
     | Inr started \<Rightarrow> timed_run (handle_cron upcoming) cron_external (concat (map test_second [0..<n])) (cron_boot 0 started))"

lemma timed_run_append:
  "timed_run h external (as @ bs) c = (case timed_run h external as c of None \<Rightarrow> None | Some c' \<Rightarrow> timed_run h external bs c')"
  by (induction "as" arbitrary: c) (auto split: option.splits)

text \<open>After \<open>n\<close> seconds the job has run \<open>n\<close> times.\<close>

lemma test_cron_job_counts:
  assumes "secondly upcoming sched"
  shows "test_cron_job upcoming sched n = Some
    \<lparr>clock = n * 1000, actor = \<lparr>schedule = sched, job = CounterJob (of_nat n), next_schedule_handle = Some n\<rparr>,
     timers = [\<lparr>token = n, due = Suc n * 1000, payload = Execute\<rparr>], inbox = [], fresh = Suc n, alive = True,
     log = replicate n (Worked Ok_unit)\<rparr>"
proof (induction n)
  case 0
  then show ?case
    using assms
    by (simp add: test_cron_job_def cron_pre_start_def secondly_def test_env_def period_to_std_def cron_boot_def
        commit_def timed_init_def Let_def)
next
  case (Suc n)
  note unfold_run = test_cron_job_def cron_pre_start_def secondly_def test_env_def period_to_std_def
  have "test_cron_job upcoming sched (Suc n) = (case test_cron_job upcoming sched n of None \<Rightarrow> None
      | Some c \<Rightarrow> timed_run (handle_cron upcoming) cron_external (test_second n) c)"
    using assms by (simp add: unfold_run timed_run_append)
  also have "\<dots> = timed_run (handle_cron upcoming) cron_external (test_second n)
    \<lparr>clock = n * 1000, actor = \<lparr>schedule = sched, job = CounterJob (of_nat n), next_schedule_handle = Some n\<rparr>,
     timers = [\<lparr>token = n, due = Suc n * 1000, payload = Execute\<rparr>], inbox = [], fresh = Suc n, alive = True,
     log = replicate n (Worked Ok_unit)\<rparr>"
    by (simp add: Suc)
  finally show ?case
    using assms
    by (simp add: test_second_def test_env_def secondly_def execute_def schedule_next_def period_to_std_def
        commit_def Let_def replicate_append_same)
qed

lemma test_cron_job_passes:
  assumes "secondly upcoming sched"
  shows "\<exists>c n. test_cron_job upcoming sched 3 = Some c \<and> job (actor c) = CounterJob n \<and> 3 \<le> n \<and> n < 5"
  using test_cron_job_counts [OF assms, of 3] by simp

section \<open>The cron manager: the tests of \<open>time/cron/mod.rs\<close>\<close>

text \<open>The manager takes what the tests send it and what its supervision reports.\<close>

definition test_manager :: "('sched, cron_test_job, nat, 'sub) manager_env
    \<Rightarrow> (('sched, cron_test_job, nat, 'sub) cron_manager_message + nat supervision_event) list
    \<Rightarrow> ('sched, nat, 'sub) manager_outcome" where
  "test_manager env = run_actor (\<lambda>inp. case inp of Inl m \<Rightarrow> handle_manager test_job_id env m
     | Inr evt \<Rightarrow> manager_supervisor_evt env evt) (\<lambda>_. False) manager_pre_start"

text \<open>How the worker of a job ends when it runs it, as its supervisor is told.\<close>

definition worker_exit :: "'sched upcoming \<Rightarrow> 'sched \<Rightarrow> cron_test_job \<Rightarrow> nat actor_cell \<Rightarrow> nat supervision_event" where
  "worker_exit upcoming sched j cell = exit_event cell None (returned (execute upcoming (test_env 1000) 1
     \<lparr>schedule = sched, job = j, next_schedule_handle = Some 0\<rparr>))"

definition test_cron_lifecycle :: "('sched, cron_test_job, nat, 'sub) manager_env \<Rightarrow> 'sched
    \<Rightarrow> ('sched, nat, 'sub) cron_manager_effect list" where
  "test_cron_lifecycle env sched = effects (test_manager env
     [Inl (cron_manager_message.Start \<lparr>cfg_schedule = sched, cfg_job = CounterJob 0\<rparr>), Inl ListJobs,
      Inl (cron_manager_message.Stop ''counter_job''), Inl ListJobs])"

definition test_failing_cronjob :: "('sched, cron_test_job, nat, 'sub) manager_env \<Rightarrow> 'sched upcoming \<Rightarrow> 'sched
    \<Rightarrow> nat actor_cell \<Rightarrow> ('sched, nat, 'sub) cron_manager_effect list" where
  "test_failing_cronjob env upcoming sched cell = effects (test_manager env
     [Inl (cron_manager_message.Start \<lparr>cfg_schedule = sched, cfg_job = BadJob\<rparr>), Inl ListJobs,
      Inr (worker_exit upcoming sched BadJob cell), Inl ListJobs])"

definition test_cron_event_subscription :: "('sched, cron_test_job, nat, unit) manager_env \<Rightarrow> 'sched upcoming \<Rightarrow> 'sched
    \<Rightarrow> nat actor_cell \<Rightarrow> nat actor_cell \<Rightarrow> ('sched, nat, unit) cron_manager_effect list" where
  "test_cron_event_subscription env upcoming sched counter bad = effects (test_manager env
     [Inl (cron_manager_message.Subscribe 123 ()), Inl (cron_manager_message.Start \<lparr>cfg_schedule = sched, cfg_job = CounterJob 0\<rparr>),
      Inl (cron_manager_message.Start \<lparr>cfg_schedule = sched, cfg_job = BadJob\<rparr>),
      Inr (ActorStarted counter), Inr (ActorStarted bad), Inr (worker_exit upcoming sched BadJob bad),
      Inl (cron_manager_message.Stop ''counter_job'')])"

text \<open>The events the subscriber of the last test counted.\<close>

definition notified :: "(cron_event \<Rightarrow> bool) \<Rightarrow> ('sched, 'id, 'sub) cron_manager_effect list \<Rightarrow> nat" where
  "notified P es = length (filter (\<lambda>e. case e of Notify _ _ ev \<Rightarrow> P ev | _ \<Rightarrow> False) es)"

lemma visits_one:
  assumes "\<And>t. visits ord t"
  shows "ord [x] = [x]"
  using assms [of "[x]"] by (simp add: visits_def)

lemma visits_none:
  assumes "\<And>t. visits ord t"
  shows "ord [] = []"
  using assms [of "[]"] by (simp add: visits_def)

lemma visits_two: "(\<And>t. visits ord t) \<Longrightarrow> ord [x, y] = [x, y] \<or> ord [x, y] = [y, x]"
proof -
  assume "\<And>t. visits ord t"
  then have m: "mset (ord [x, y]) = {#x, y#}" by (simp add: visits_def)
  then obtain a b where ab: "ord [x, y] = [a, b]"
    by (metis length_0_conv length_Suc_conv mset_eq_length mset.simps size_mset list.size numeral_2_eq_2)
  with m show ?thesis by (auto simp: add_eq_conv_ex)
qed

lemma bad_worker_exit: "worker_exit upcoming sched BadJob cell = ActorFailed cell ''Boom!''"
  by (simp add: worker_exit_def execute_def test_env_def exit_event_def Let_def)

lemmas manager_test_defs = test_manager_def manager_pre_start_def manager_start_def manager_stop_def
  manager_list_jobs_def manager_subscribe_def job_of_actor_def notify_all_def hm_insert_def hm_remove_def
  hm_from_iter_def halts_def

lemma test_cron_lifecycle_passes:
  assumes "\<And>t. visits (job_order env) t" and "\<And>t. visits (sub_order env) t"
    and "spawn_worker env \<lparr>cfg_schedule = sched, cfg_job = CounterJob 0\<rparr> = Inr cell"
  shows "test_cron_lifecycle env sched
    = [ReplyStart Ok_unit, ReplyJobs [(''counter_job'', sched)], StopWorker cell None, ReplyJobs []]"
  using assms
  by (simp add: test_cron_lifecycle_def manager_test_defs visits_one visits_none Let_def)

lemma test_failing_cronjob_passes:
  assumes "\<And>t. visits (job_order env) t" and "\<And>t. visits (sub_order env) t"
    and "spawn_worker env \<lparr>cfg_schedule = sched, cfg_job = BadJob\<rparr> = Inr cell"
  shows "test_failing_cronjob env upcoming sched cell
    = [ReplyStart Ok_unit, ReplyJobs [(''bad_job'', sched)], ReplyJobs []]"
  using assms
  by (simp add: test_failing_cronjob_def bad_worker_exit manager_test_defs visits_one visits_none Let_def)

lemma test_cron_event_subscription_passes:
  assumes "\<And>t. visits (job_order env) t" and "\<And>t. visits (sub_order env) t"
    and "spawn_worker env \<lparr>cfg_schedule = sched, cfg_job = CounterJob 0\<rparr> = Inr counter"
    and "spawn_worker env \<lparr>cfg_schedule = sched, cfg_job = BadJob\<rparr> = Inr bad"
    and "get_id counter \<noteq> get_id bad"
  shows "let es = test_cron_event_subscription env upcoming sched counter bad
    in notified (\<lambda>ev. \<exists>name. ev = Started name) es = 2 \<and> notified (\<lambda>ev. \<exists>name what. ev = Failed name what) es = 1
       \<and> notified (\<lambda>ev. \<exists>name why. ev = Stopped name why) es = 1"
proof -
  let ?c = "(''counter_job'', sched, counter)" and ?b = "(''bad_job'', sched, bad)"
  have "test_cron_event_subscription env upcoming sched counter bad
      = [ReplyStart Ok_unit, ReplyStart Ok_unit, Notify 123 () (Started ''counter_job''),
         Notify 123 () (Started ''bad_job''), Notify 123 () (Failed ''bad_job'' ''Boom!''),
         StopWorker counter None, Notify 123 () (Stopped ''counter_job'' None)]"
    using visits_two [OF assms(1), of ?c ?b] assms
    by (elim disjE) (simp_all add: test_cron_event_subscription_def bad_worker_exit manager_test_defs visits_one Let_def)
  then show ?thesis by (simp add: notified_def Let_def)
qed

section \<open>The watchdog: \<open>watchdog/tests.rs\<close>\<close>

text \<open>
  The actor of the test registers when it starts and again when its only message arrives, 400
  milliseconds later. At 3100 milliseconds it has handled the message and was killed once,
  without running its \<open>post_stop\<close>; the kill came at 500, from the first registration.
\<close>

definition test_foo :: "nat actor_cell \<Rightarrow> (unit result, nat watchdog_input) move list" where
  "test_foo cell =
    (let register = [Arrive (Msg (Register cell 500 Kill)), Take Ok_unit]
     in register @ wait 400 @ register @ wait 100 @ [Fire 0, Take Ok_unit]
        @ wait 400 @ [Fire 1, Take Ok_unit] @ wait 2200 @ [Arrive (Msg Stats), Take Ok_unit])"

lemma test_foo_passes:
  "\<exists>c. timed_run handle_watchdog wd_external (test_foo cell) (timed_init watchdog_pre_start) = Some c
    \<and> clock c = 3100 \<and> log c = [KillActor cell, ReplyStats 1]"
  by (simp add: test_foo_def timed_init_def watchdog_pre_start_def wd_handler_defs commit_def hm_simps Let_def)

section \<open>The file watcher: \<open>filewatcher/tests.rs\<close>\<close>

definition filewatcher_starts_default_config :: "'w result \<Rightarrow> ('w \<Rightarrow> string \<Rightarrow> recursive_mode \<Rightarrow> unit result \<times> 'w)
    \<Rightarrow> ('w, nat, string list) file_watcher_state result" where
  "filewatcher_starts_default_config recommended watch =
    file_watcher_pre_start recommended watch \<lparr>files = [], directories = []\<rparr>"

definition filewatch_watches_file :: "'w result \<Rightarrow> ('w \<Rightarrow> string \<Rightarrow> recursive_mode \<Rightarrow> unit result \<times> 'w)
    \<Rightarrow> (nat, unit) iter_order \<Rightarrow> nat \<Rightarrow> string \<Rightarrow> (nat, unit, string) file_watcher_effect list result" where
  "filewatch_watches_file recommended watch ord who file_kind =
    (case file_watcher_pre_start recommended watch \<lparr>files = [''/tmp/filewatch_watches_file.txt''], directories = []\<rparr> of
       Inl e \<Rightarrow> Inl e
     | Inr s \<Rightarrow> Inr (effects (run_file_watcher s
         [(ord, File_Watcher.Subscribe who ()), (ord, watcher_callback (Inr file_kind))])))"

lemma filewatcher_tests_pass:
  "filewatcher_starts_default_config (Inr w) watch = Inr \<lparr>watcher = Some w, subscriptions = []\<rparr>"
  "watch w ''/tmp/filewatch_watches_file.txt'' NonRecursive = (Ok_unit, w') \<Longrightarrow> visits ord [(who, ())] \<Longrightarrow>
    filewatch_watches_file (Inr w) watch ord who ev = Inr [ReplySubscription SubOk, EventReceived who () ev]"
  by (simp_all add: filewatcher_starts_default_config_def filewatch_watches_file_def file_watcher_pre_start_def
      run_file_watcher_def fw_subscribe_def fw_event_def watcher_callback_def hm_insert_def halts_def visits_def)

section \<open>The broadcaster: \<open>sync/broadcast/tests.rs\<close>\<close>

text \<open>
  Three actors behind unit-mapped targets; the first, or all of them, add what they receive to
  one counter, the others fail on their first message. \<open>reachable\<close> tells whether a cast still
  reaches an actor.
\<close>

definition broadcast_test_config :: "bool \<Rightarrow> nat id_target broadcaster_config" where
  "broadcast_test_config continue =
    \<lparr>initial_targets = map get_unit_mapped_target [0, 1, 2], cfg_continue_with_dead_targets = continue\<rparr>"

definition broadcast_test_env :: "(nat, nat id_target) iter_order \<Rightarrow> (nat \<Rightarrow> bool)
    \<Rightarrow> (nat, nat id_target, 32 word) broadcast_env" where
  "broadcast_test_env ord reachable = \<lparr>bc_order = ord, bc_send = id_target_send
     (\<lambda>who m. if reachable who then Inr () else Inl ()) (\<lambda>_. Error ''Messaging failed to enqueue the message'')\<rparr>"

definition run_broadcast_test :: "bool \<Rightarrow> (nat, nat id_target) iter_order \<Rightarrow> (nat \<Rightarrow> bool) list
    \<Rightarrow> ((nat, nat id_target) broadcaster_state, (nat, 32 word) broadcast_effect) outcome" where
  "run_broadcast_test continue ord reachables = run_broadcaster (id_target_id (\<lambda>who. who))
     (broadcaster_pre_start (id_target_id (\<lambda>who. who)) (broadcast_test_config continue))
     (map (\<lambda>reachable. (broadcast_test_env ord reachable, Broadcast 12)) reachables)"

definition added :: "(nat \<Rightarrow> bool) \<Rightarrow> (nat, 32 word) broadcast_effect list \<Rightarrow> 32 word" where
  "added happy es = sum_list (map (\<lambda>e. case e of Sent who m (Inr _) \<Rightarrow> if happy who then m else 0 | _ \<Rightarrow> 0) es)"

abbreviation broadcast_test_table :: "(nat, nat id_target) hashmap" where
  "broadcast_test_table \<equiv> [(0, \<lparr>ar = 0\<rparr>), (1, \<lparr>ar = 1\<rparr>), (2, \<lparr>ar = 2\<rparr>)]"

lemma broadcast_test_targets:
  "broadcaster_pre_start (id_target_id (\<lambda>who. who)) (broadcast_test_config continue)
     = \<lparr>targets = broadcast_test_table, continue_with_dead_targets = continue\<rparr>"
  by (simp add: broadcaster_pre_start_def broadcast_test_config_def get_unit_mapped_target_def id_target_id_def
      hm_from_iter_def hm_insert_def)


lemma added_attempts:
  assumes "visits ord broadcast_test_table"
  shows "added happy (map (attempt (bc_send (broadcast_test_env ord reachable)) 12) (ord broadcast_test_table))
    = added happy (map (attempt (bc_send (broadcast_test_env ord reachable)) 12) broadcast_test_table)"
proof -
  have "mset (ord broadcast_test_table) = mset broadcast_test_table" using assms by (simp add: visits_def)
  then have "sum_mset (image_mset f (mset (ord broadcast_test_table)))
      = sum_mset (image_mset f (mset broadcast_test_table))" for f :: "nat \<times> nat id_target \<Rightarrow> 32 word"
    by (rule arg_cong)
  then have "sum_list (map f (ord broadcast_test_table)) = sum_list (map f broadcast_test_table)"
    for f :: "nat \<times> nat id_target \<Rightarrow> 32 word"
    by (simp only: mset_map [symmetric] sum_mset_sum_list)
  then show ?thesis by (simp add: added_def comp_def)
qed

abbreviation broadcast_test_state :: "bool \<Rightarrow> (nat, nat id_target) broadcaster_state" where
  "broadcast_test_state continue \<equiv> \<lparr>targets = broadcast_test_table, continue_with_dead_targets = continue\<rparr>"

lemma run_broadcast_test_Nil [simp]:
  "run_broadcast_test continue ord [] = Outcome (broadcast_test_state continue) [] Ok_unit"
  by (simp add: run_broadcast_test_def run_broadcaster_def broadcast_test_targets)

lemma run_broadcast_test_Cons:
  "run_broadcast_test continue ord (r # rs) =
    (let (es, ans) = broadcast_loop (bc_send (broadcast_test_env ord r)) continue 12 (ord broadcast_test_table)
     in if is_err ans then Outcome (broadcast_test_state continue) es ans
        else followed_by (Outcome (broadcast_test_state continue) es Ok_unit) (run_broadcast_test continue ord rs))"
  by (auto simp: run_broadcast_test_def run_broadcaster_def broadcast_test_targets broadcast_def halts_def
      list_ex_iff broadcast_test_env_def followed_by_def split: prod.splits sum.splits)

lemma broadcast_reaches_all:
  "continue \<or> (\<forall>i. r i) \<Longrightarrow> broadcast_loop (bc_send (broadcast_test_env ord r)) continue 12 es
    = (map (attempt (bc_send (broadcast_test_env ord r)) 12) es, Ok_unit)"
  by (induction es) (auto simp: broadcast_loop_continue broadcast_test_env_def id_target_send_def attempt_def)

lemma broadcasts_go_on:
  "list_all (\<lambda>r. continue \<or> (\<forall>i. r i)) rs \<Longrightarrow> run_broadcast_test continue ord rs
    = Outcome (broadcast_test_state continue)
       (concat (map (\<lambda>r. map (attempt (bc_send (broadcast_test_env ord r)) 12) (ord broadcast_test_table)) rs)) Ok_unit"
  by (induction rs) (simp_all add: run_broadcast_test_Cons broadcast_reaches_all followed_by_def del: One_nat_def)

lemma added_append: "added happy (xs @ ys) = added happy xs + added happy ys"
  by (simp add: added_def)

lemma test_broadcast_passes:
  assumes "visits ord broadcast_test_table"
  shows "added (\<lambda>_. True) (effects (run_broadcast_test False ord (replicate 3 (\<lambda>_. True)))) = 3 * 3 * 12"
  using assms
  by (simp add: broadcasts_go_on numeral_3_eq_3 added_append added_attempts del: One_nat_def)
    (simp add: added_def attempt_def broadcast_test_env_def id_target_send_def)

text \<open>Only the first actor counts; the others may still be reachable or not.\<close>

lemma test_broadcast_bad_targets_passes:
  assumes "visits ord broadcast_test_table" and "r1 0" and "r2 0" and "r3 0"
  shows "added (\<lambda>who. who = 0) (effects (run_broadcast_test True ord [r1, r2, r3])) = 3 * 12"
  using assms
  by (simp add: broadcasts_go_on added_append added_attempts del: One_nat_def)
    (simp add: added_def attempt_def broadcast_test_env_def id_target_send_def)

lemma broadcast_meets_the_dead:
  "(i, \<lparr>ar = i\<rparr>) \<in> set es \<Longrightarrow> \<not> r i \<Longrightarrow>
   is_err (snd (broadcast_loop (bc_send (broadcast_test_env ord r)) False 12 es))"
  by (induction es)
    (auto simp: broadcast_test_env_def id_target_send_def split: sum.splits prod.splits if_splits)

text \<open>The broadcaster stops once a target cannot be reached, whatever happened before.\<close>

lemma test_broadcast_bad_targets_fails_on_target_failure_passes:
  assumes "visits ord broadcast_test_table" and "r \<in> set rs" and "\<not> r 1"
  shows "is_err (returned (run_broadcast_test False ord rs))"
  using assms(2)
proof (induction rs)
  case (Cons r' rs)
  let ?send = "bc_send (broadcast_test_env ord r')"
  show ?case
  proof (cases "is_err (snd (broadcast_loop ?send False 12 (ord broadcast_test_table)))")
    case True
    then show ?thesis
      by (cases "broadcast_loop ?send False 12 (ord broadcast_test_table)")
        (simp add: run_broadcast_test_Cons del: One_nat_def)
  next
    case False
    have "set (ord broadcast_test_table) = set broadcast_test_table"
      using assms(1) unfolding visits_def by (rule mset_eq_setD)
    then have "(1, \<lparr>ar = 1\<rparr>) \<in> set (ord broadcast_test_table)" by simp
    then have "is_err (snd (broadcast_loop ?send False 12 (ord broadcast_test_table)))" if "\<not> r' 1"
      using that by (rule broadcast_meets_the_dead)
    then have "r' \<noteq> r" using False assms(3) by blast
    then show ?thesis
      using False Cons
      by (cases "broadcast_loop ?send False 12 (ord broadcast_test_table)")
        (auto simp: run_broadcast_test_Cons followed_by_def simp del: One_nat_def)
  qed
qed simp


section \<open>The multiplexer: \<open>streams/mux/tests.rs\<close>\<close>

text \<open>The targets of the tests; the tests use one-digit indexes.\<close>

datatype test_target = CounterTarget nat | GoodTarget | BadTarget

fun test_target_id :: "test_target \<Rightarrow> string" where
  "test_target_id (CounterTarget idx) = [char_of (48 + idx)]"
| "test_target_id GoodTarget = ''good''"
| "test_target_id BadTarget = ''bad''"

fun test_target_answer :: "test_target \<Rightarrow> unit result" where
  "test_target_answer BadTarget = Inl (Error ''boom'')"
| "test_target_answer _ = Ok_unit"

definition mux_test :: "bool \<Rightarrow> test_target list \<Rightarrow> (nat, test_target) mux_effect list" where
  "mux_test stop_processing ts = effects (run_mux test_target_id
     \<lparr>mux_targets = ts, stop_processing_target_on_failure = stop_processing, mux_pump = ()\<rparr>
     (map (\<lambda>i. mux_input.Received i test_target_answer) [0..<10] @ [NoMoreItems]))"

text \<open>The counters of \<open>CounterTarget\<close> and \<open>CountingCallback\<close>.\<close>

definition count_effects :: "('e \<Rightarrow> bool) \<Rightarrow> 'e list \<Rightarrow> nat" where
  "count_effects P es = length (filter P es)"

fun is_target_failed :: "('i, 't) mux_effect \<Rightarrow> bool" where
  "is_target_failed (TargetFailed _ _) = True"
| "is_target_failed _ = False"

fun is_message_received :: "('i, 't) mux_effect \<Rightarrow> bool" where
  "is_message_received (MessageReceived _ _) = True"
| "is_message_received _ = False"

lemma upt_10: "[0..<10] = [0, 1, 2, 3, 4, 5, 6, 7, 8, 9 :: nat]"
  by (simp add: upt_rec)

lemmas mux_test_defs = mux_test_def upt_10 mux_handle_def item_received_def end_of_stream_def halts_def
  followed_by_def count_effects_def Let_def

lemma test_mux_publishing_passes:
  "count_effects is_message_received (mux_test True [CounterTarget 0, CounterTarget 1, CounterTarget 2]) = 30"
  by (simp add: mux_test_defs)

lemma test_mux_failed_targets_passes:
  "count_effects is_target_failed (mux_test True [GoodTarget, BadTarget]) = 1"
  "count_effects (\<lambda>e. e = EndOfStream) (mux_test True [GoodTarget, BadTarget]) = 1"
  by (simp_all add: mux_test_defs)

lemma test_mux_failed_targets_no_removal_passes:
  "count_effects is_target_failed (mux_test False [GoodTarget, BadTarget]) = 10"
  "count_effects (\<lambda>e. e = EndOfStream) (mux_test False [GoodTarget, BadTarget]) = 1"
  by (simp_all add: mux_test_defs)

section \<open>The session: the test of \<open>net/tcp/session.rs\<close>\<close>

text \<open>
  Two sessions on one connection: the frame one is asked to send goes through its writer and
  the connection, which hands the reader at the other end what was written, to the receiver
  there. The reader is followed until the connection is closed, as the test closes it. Both
  streams are raw ones.
\<close>

definition exchange_frame :: "'w write_io \<Rightarrow> 'r read_io \<Rightarrow> ('w \<Rightarrow> 'r) \<Rightarrow> (nat, string) session_state \<Rightarrow> (nat, string) session_state
    \<Rightarrow> 'w \<Rightarrow> byte list \<Rightarrow> byte list list option" where
  "exchange_frame wio rio connection here there w data =
    (let sent = state_of (run_writer wio \<lparr>writer = Some (WriteRegular w)\<rparr>
           (to_writer (effects (run_session here [Send data]))))
     in case reader_run 4 rio (\<lambda>_. Ok_unit)
            \<lparr>reader = Some (ReadRegular (connection (write_stream (the (writer sent)))))\<rparr> [WaitForFrame] of
          None \<Rightarrow> None
        | Some out \<Rightarrow> Some (to_receiver (effects
            (run_session there (map (\<lambda>f. FrameReady f Ok_unit) (to_session (effects out)))))))"

definition tcp_session_exchanges :: "'w write_io \<Rightarrow> 'r read_io \<Rightarrow> ('w \<Rightarrow> 'r) \<Rightarrow> (nat, string) session_state
    \<Rightarrow> (nat, string) session_state \<Rightarrow> 'w \<Rightarrow> byte list list option \<times> byte list list option" where
  "tcp_session_exchanges wio rio connection client server w =
    (exchange_frame wio rio connection client server w (bytes_of ''client-to-server''),
     exchange_frame wio rio connection server client w (bytes_of ''server-to-client''))"

lemma exchange_frame_delivers:
  assumes "lossless_writer wio sent" and "lossless_reader rio pending" and "sent w = []"
    and "\<And>w. pending (connection w) = sent w" and "length data \<le> max_buffer"
  shows "exchange_frame wio rio connection here there w data = Some [data]"
proof -
  let ?r = "ReadRegular (connection (write_stream (the (writer (state_of (run_writer wio
    \<lparr>writer = Some (WriteRegular w)\<rparr> (to_writer (effects (run_session here (map Send [data]))))))))))"
  obtain out where "reader_run 4 rio (\<lambda>_. Ok_unit) \<lparr>reader = Some ?r\<rparr> [WaitForFrame] = Some out"
    and "to_receiver (effects (run_session there (map (\<lambda>f. FrameReady f Ok_unit) (to_session (effects out))))) = [data]"
    using frames_get_across [OF assms(1,2), of "[data]" "WriteRegular w" ?r here 4 there] assms(3-5) by auto
  then show ?thesis by (simp add: exchange_frame_def Let_def)
qed

lemma tcp_session_exchanges_passes:
  assumes "lossless_writer wio sent" and "lossless_reader rio pending" and "sent w = []"
    and "\<And>w. pending (connection w) = sent w"
  shows "tcp_session_exchanges wio rio connection client server w
    = (Some [bytes_of ''client-to-server''], Some [bytes_of ''server-to-client''])"
proof -
  have "exchange_frame wio rio connection here there w (bytes_of data) = Some [bytes_of data]"
    if "length data \<le> 16" for here there data
    using exchange_frame_delivers [OF assms] that by (simp add: bytes_of_def max_buffer_def)
  then show ?thesis by (simp add: tcp_session_exchanges_def)
qed


section \<open>The looping actor and the pump: \<open>streams/looping/tests.rs\<close>, \<open>streams/pump/tests.rs\<close>\<close>

text \<open>
  Both tests have an actor, with the same two handlers, that adds up the numbers it is cast;
  an addition that overflows panics in a test build.
\<close>

datatype count_message = GetCount | Add "64 word"

datatype count_effect = ReplyCount "64 word"

fun count_handle :: "count_message \<Rightarrow> 64 word \<Rightarrow> (64 word, count_effect) outcome" where
  "count_handle GetCount s = Outcome s [ReplyCount s] Ok_unit"
| "count_handle (Add value) s =
    (if unat s + unat value < 2 ^ 64 then Outcome (s + value) [] Ok_unit
     else Outcome s [] (Inl (Panic ''attempt to add with overflow'')))"

definition counted :: "64 word list \<Rightarrow> count_effect list" where
  "counted vs = effects (run_actor count_handle (\<lambda>_. False) 0 (map Add vs @ [GetCount]))"

text \<open>
  The first actor is cast a one by every iteration of a loop that never ends; \<open>n\<close> is the number
  of iterations done when it is asked for its count.
\<close>

fun background_adder :: "(unit result, 64 word) operation" where
  "background_adder (Inl e) = (Inl e, Inl e, [])"
| "background_adder (Inr u) = (Inr Continue, Inr u, [1])"

definition test_looping_operation :: "nat \<Rightarrow> count_effect list" where
  "test_looping_operation n = counted (forwarded (effects
     (run_actor (\<lambda>_. loop_handle background_adder Ok_unit) stops_loop Ok_unit (replicate n ()))))"

definition stream_actor_map :: "nat option \<Rightarrow> count_message" where
  "stream_actor_map a = Add (if a \<noteq> None then 1 else 0)"

fun added_value :: "count_message \<Rightarrow> 64 word" where
  "added_value (Add value) = value"
| "added_value GetCount = 0"

definition test_streaming_operation :: "count_effect list option" where
  "test_streaming_operation = map_option (\<lambda>out. counted (map added_value (forwarded (effects out))))
     (loop_run (streamer_work stream_actor_map (\<lambda>w m. (Ok_unit, w)))
        \<lparr>stream = source_of_list [1..<501], receiver = ()\<rparr> [])"

text \<open>The count is the sum, as long as it does not overflow.\<close>

lemma count_run:
  "unat s + sum_list (map unat vs) < 2 ^ 64
    \<Longrightarrow> effects (run_actor count_handle (\<lambda>_. False) s (map Add vs @ [GetCount])) = [ReplyCount (s + sum_list vs)]"
proof (induction vs arbitrary: s)
  case (Cons v vs)
  have fits: "unat s + unat v < 2 ^ 64" using Cons.prems by simp
  then have "unat (s + v) = unat s + unat v" by (simp add: unat_add_lem [symmetric])
  then show ?case using Cons fits by (simp add: halts_def add.assoc)
qed (simp add: halts_def)

lemma counted_sum: "sum_list (map unat vs) < 2 ^ 64 \<Longrightarrow> counted vs = [ReplyCount (sum_list vs)]"
  using count_run [of 0 vs] by (simp add: counted_def)

lemma looping_forwards:
  "forwarded (effects (run_actor (\<lambda>_. loop_handle background_adder Ok_unit) stops_loop Ok_unit (replicate n ())))
    = replicate n 1"
  by (induction n) (simp_all add: loop_handle_def halts_def followed_by_def)

lemma test_looping_operation_passes:
  assumes "3 \<le> n" and "n < 2 ^ 64"
  shows "\<exists>count. test_looping_operation n = [ReplyCount count] \<and> 3 \<le> count"
proof -
  have "test_looping_operation n = [ReplyCount (of_nat n)]"
    unfolding test_looping_operation_def looping_forwards
    using counted_sum [of "replicate n 1"] assms(2) by (simp add: sum_list_replicate)
  moreover have "3 \<le> (of_nat n :: 64 word)"
    using assms by (simp add: word_le_nat_alt unat_of_nat take_bit_nat_eq_self)
  ultimately show ?thesis by simp
qed

lemma test_streaming_operation_passes: "test_streaming_operation = Some [ReplyCount 500]"
proof -
  let ?deliver = "\<lambda>(w :: unit) (m :: count_message). (Ok_unit, w)"
  obtain out where out: "loop_run (streamer_work stream_actor_map ?deliver)
      \<lparr>stream = source_of_list [1..<501], receiver = ()\<rparr> [] = Some out"
    and sent: "forwarded (effects out) = map (stream_actor_map \<circ> Some) [1..<501] @ [stream_actor_map None]"
    using pump_run_accepted [of stream_actor_map ?deliver "[1..<501]" "()" "[]"] accepted_all [of ?deliver "()"]
    by (auto simp del: upt.simps)
  have ones: "map (added_value \<circ> (stream_actor_map \<circ> Some)) xs = replicate (length xs) 1" for xs :: "nat list"
    by (induction xs) (simp_all add: stream_actor_map_def)
  have "map added_value (forwarded (effects out)) = replicate 500 1 @ [0]"
    unfolding sent using ones [of "[1..<501]"] by (simp add: stream_actor_map_def del: upt.simps)
  then have "counted (map added_value (forwarded (effects out))) = [ReplyCount 500]"
    using counted_sum [of "replicate 500 1 @ [0]"] by (simp add: sum_list_replicate)
  then show ?thesis unfolding test_streaming_operation_def out by simp
qed

end
