(* ===== verification/Spec2Isabelle.thy ===== *)
theory Spec2Isabelle
  imports Broadcast File_Watcher File_Watcher_System Watchdog Watchdog_Timers Watchdog_Front Cron_Worker Cron_Manager Cron_System
    Looping Pump Mux Mux_System Tcp_Stream Tcp_Session Tcp_System Tcp_Listener Dep_Tracker
    Dep_Workspace Example_Tcp Example_Client Example_Server Example_Service Example_Watched Example_Streams Unit_Tests
begin

text \<open>
  A verification development for \<open>ractor_actors\<close>, a library of ready-made actors for the
  \<open>ractor\<close> framework (\<open>src/ractor_actors/src\<close>), for the programs that show its use
  (\<open>src/ractor_actors/examples\<close>), and for the dependency tracker of its build helper
  (\<open>src/xtask/src\<close>).

  The program. Each actor is a state, a message type and one handler per message; the
  framework owns mailboxes, spawning, supervision and timers and calls one handler at a
  time. The actors of the library are independent of each other, with three exceptions:
  the cron manager supervises one cron worker per job, the stream multiplexer starts a
  stream pump, which is an operation of the looping actor, and a TCP session supervises
  its reader and its writer. The dependency tracker is a sequential command.

  How code becomes definitions.
  \<^item> A struct is a record, an enum a datatype, with the names of the source (prefixed where
    a name is taken); a \<open>HashMap\<close> is an association list with distinct keys, and a handler
    that iterates one takes the iteration order as an argument.
  \<^item> A handler is a function from the message, what the environment answers during the call
    and the state to an outcome: the new state, the effects (calls on other actors, timers,
    reply ports, callbacks) in the order of the code, and the result. An error leaves the
    state as the handler had changed it.
  \<^item> A run of an actor is \<open>run_actor\<close> over a list of inputs. It ends when a handler fails or
    asks to stop. Actors with timers run in \<open>Timers\<close>, a transition system of one actor, its
    clock, its timer pool and its mailbox, with an inductive reachability relation. Actors
    that work together are a step relation on the state of all of them, in which each actor
    takes its inputs in turns the scheduler chooses; \<open>reaches\<close> is its closure.
  \<^item> What \<open>ractor\<close>, \<open>tokio\<close>, \<open>notify\<close>, \<open>cron\<close>, \<open>chrono\<close>, \<open>semver\<close>, \<open>toml_edit\<close>, git, cargo
    and gh do is an argument of the definitions that use them; where a property relies on
    their documented behaviour, that is a hypothesis with a name (\<open>visits\<close>,
    \<open>lossless_reader\<close>, \<open>lossless_writer\<close>, \<open>exact_bytes\<close>, \<open>strict_total\<close>, \<open>semver_laws\<close>,
    \<open>files_laws\<close>, \<open>git_laws\<close> and \<open>lock_ignored\<close> for the working tree and the branches). The
    runtime of \<open>ractor\<close> itself, mailboxes, supervision, drains and the registry of names,
    is part of the systems as its documentation describes it.

  The theories.
  \<^item> \<open>Prelude\<close>: results and panics, the hash map, outcomes and runs, and the locales
    \<open>actor_invariant\<close> and \<open>actor_safety\<close> (what every handler keeps, every run keeps),
    \<open>step_invariant\<close> (what every step of a system keeps) and \<open>registry\<close> (the contract of a table of targets, subscribers or subjects).
  \<^item> \<open>Broadcast\<close> (\<open>sync/broadcast/mod.rs\<close>): the broadcaster; each message reaches every
    target once, or up to the first failure when failures are fatal, and over a whole run a
    target is sent what was broadcast while it was registered.
  \<^item> \<open>File_Watcher\<close> (\<open>filewatcher/mod.rs\<close>): subscriptions, and who sees which event.
    \<open>File_Watcher_System\<close> is the actor with the thread that calls its callback and its clients:
    what a subscriber sees of what was reported.
  \<^item> \<open>Timers\<close>: the timed transition system, with the locale \<open>timed_invariant\<close>.
  \<^item> \<open>Watchdog\<close> (\<open>watchdog/mod.rs\<close>, \<open>watchdog/impl.rs\<close>): invariants over all reachable
    configurations: every registered actor has a timeout coming, nobody is terminated early
    or after being unregistered, the counters agree with the terminations; and what a ping
    does to the timers. \<open>Watchdog_Timers\<close> follows the timers the watchdog forgets: neither a
    ping nor a new registration saves an actor from them. \<open>Watchdog_Front\<close> is the \<open>OnceCell\<close> and
    the functions programs call, in front of that actor.
  \<^item> \<open>Cron_Worker\<close> and \<open>Cron_Manager\<close> (\<open>time/cron\<close>): the worker never sleeps while its
    schedule has an occurrence; the manager refines a finite map from jobs to schedules.
    \<open>Cron_System\<close> is the manager with its workers, and somebody outside who may stop or kill
    it: no job dangles, no worker leaks, and the one race in which the manager itself fails.
  \<^item> \<open>Looping\<close>, \<open>Pump\<close>, \<open>Mux\<close> (\<open>streams\<close>): the loop is a partial function, a loop that
    never stops being the value \<open>None\<close>; termination is the locale \<open>ending_operation\<close>, which
    the pump interprets for streams that end; the multiplexer's deliveries and its end.
    \<open>Mux_System\<close> is the multiplexer with its pump, two actors with mailboxes, under every
    interleaving: every target gets a prefix of the stream, the two always end, and what a
    drain cuts off.
  \<^item> \<open>Tcp_Stream\<close>, \<open>Tcp_Session\<close>, \<open>Tcp_Listener\<close> (\<open>net/tcp\<close>): the length prefix (locale
    \<open>length_codec\<close>), exact reads, the reader as a refinement of a reference parser, frames
    from session to session, failures of the writer, supervision, and the accept loop.
    \<open>Tcp_System\<close> is one end of a connection, a session with its two children under every
    interleaving: what is delivered is a prefix of what was sent, a session that lost a child
    ends, and what a closing connection may lose.
  \<^item> \<open>Dep_Tracker\<close> (\<open>src/xtask/src\<close>): the choice of a release, the manifest update, the
    commands of a pull request and its text, what the options allow, version bumps at their
    bounds. \<open>Dep_Workspace\<close> follows the working tree and the branches of this
    repository through a whole run. Its \<open>.gitignore\<close> lists \<open>Cargo.lock\<close>, which the tool
    stages: no pull request is ever made, and the updates pile up in the manifest.
  \<^item> \<open>Example_Tcp\<close> and \<open>Example_Streams\<close> (\<open>examples\<close>): the echo server on the library and the
    client without it, which agree on the frame format; UTF-8; sessions named after ports;
    and the multiplexer and cron examples, the first with the drain that may cut it short.
    \<open>Example_Server\<close> runs the server's session actor
    on top of \<open>Tcp_System\<close>: what is on the wire answers a prefix of what the peer sent.
    \<open>Example_Service\<close> is the whole server, its listener and every session it opened: each
    client is served by its own session alone, and what ends the listener.
    \<open>Example_Watched\<close> is one session with the watchdog it registers with and pings: a client
    that sends frames in time is cut off all the same.
    \<open>Example_Client\<close> is the client as it runs, three tasks under every schedule: it writes all
    its lines in order and may end before it has printed an answer.
  \<^item> \<open>Unit_Tests\<close> (the \<open>tests\<close> modules and \<open>tests.rs\<close> files): the scenario of each unit test of
    the actors, of the versions and of the command line as a run of the model, with its
    assertions proved.

  Bounds and fuel. The reader of a TCP session may run for ever, so \<open>reader_run\<close> takes fuel:
  two messages for each frame and two for the end of the stream are proved enough. Buffers
  are bounded by \<open>isize::MAX\<close> (64-bit targets), lengths and counters are words of 64 bits,
  the port is a word of 16 bits. Everything else is structural recursion or proved to
  terminate.

  Not modelled: the module declarations of \<open>lib.rs\<close> and of the \<open>mod.rs\<close> files of \<open>sync\<close>, \<open>time\<close>,
  \<open>streams\<close> and \<open>net\<close>, which hold no code; the counters the unit tests
  share with their actors, in whose place the model sums what the actors were sent; the three
  tests of the tracker that try the YAML parser, the network and the manifest of this
  repository; log output, its set-up in the examples, and what the tracker prints; the parsing of the command line (\<open>clap\<close>, an argument of
  \<open>tool_main\<close>); the arithmetic of schedules, versions and dates, TOML, HTTP and TLS, which
  other packages do; and the memory the allocator may refuse for a frame below
  \<open>isize::MAX\<close>. The priorities the runtime gives to signals and supervision events are
  not built into the systems: they allow every order, so their safety properties hold of
  every schedule, and the runs they exhibit name the order they need.
\<close>

end
